(* ===== verification/Prelude.thy ===== *)
theory Prelude
  imports Complex_Main
begin

text \<open>
  The layer every component shares: results that may raise, Python dictionaries as
  insertion-ordered association lists, and the interfaces. \<open>keyed_store\<close> is what a client
  of a registry relies on (what is read after a write); \<open>machine\<close> is a transition system
  with an invariant, whose lemma \<open>reachable_inv\<close> every stateful component reuses;
  \<open>bounded_machine\<close> adds a variant, \<open>metered\<close> a budget that time refills.
\<close>

named_theorems result_simps \<open>equations of the result type\<close>
named_theorems dict_simps \<open>equations of insertion-ordered dictionaries\<close>

section \<open>Results: a value or a raised exception\<close>

fun rbind :: "'e + 'a \<Rightarrow> ('a \<Rightarrow> 'e + 'b) \<Rightarrow> 'e + 'b" where
  "rbind (Inl e) f = Inl e"
| "rbind (Inr x) f = f x"

fun rmap :: "('a \<Rightarrow> 'b) \<Rightarrow> 'e + 'a \<Rightarrow> 'e + 'b" where
  "rmap f (Inl e) = Inl e"
| "rmap f (Inr x) = Inr (f x)"

text \<open>A comprehension whose body may raise: elements from left to right, the first
  exception wins.\<close>

fun rtraverse :: "('a \<Rightarrow> 'e + 'b) \<Rightarrow> 'a list \<Rightarrow> 'e + 'b list" where
  "rtraverse f [] = Inr []"
| "rtraverse f (x # xs) = rbind (f x) (\<lambda>y. rbind (rtraverse f xs) (\<lambda>ys. Inr (y # ys)))"

abbreviation is_ok :: "'e + 'a \<Rightarrow> bool" where
  "is_ok r \<equiv> \<not> isl r"

declare rbind.simps [result_simps] rmap.simps [result_simps]

lemma rbind_eq_Inr [result_simps]: "rbind r f = Inr y \<longleftrightarrow> (\<exists>x. r = Inr x \<and> f x = Inr y)"
  by (cases r) auto

lemma rbind_eq_Inl [result_simps]:
  "rbind r f = Inl e \<longleftrightarrow> r = Inl e \<or> (\<exists>x. r = Inr x \<and> f x = Inl e)"
  by (cases r) auto

lemma rmap_eq_Inr [result_simps]: "rmap f r = Inr y \<longleftrightarrow> (\<exists>x. r = Inr x \<and> y = f x)"
  by (cases r) auto

lemma rmap_eq_Inl [result_simps]: "rmap f r = Inl e \<longleftrightarrow> r = Inl e"
  by (cases r) auto

lemma rbind_cong [fundef_cong]:
  "r = r' \<Longrightarrow> (\<And>x. r' = Inr x \<Longrightarrow> f x = g x) \<Longrightarrow> rbind r f = rbind r' g"
  by (cases r') auto

lemma rtraverse_cong [fundef_cong]:
  "xs = ys \<Longrightarrow> (\<And>x. x \<in> set ys \<Longrightarrow> f x = g x) \<Longrightarrow> rtraverse f xs = rtraverse g ys"
  by (induction xs arbitrary: ys) auto

lemma rtraverse_Inr_iff:
  "rtraverse f xs = Inr ys \<longleftrightarrow> list_all2 (\<lambda>x y. f x = Inr y) xs ys"
  by (induction xs arbitrary: ys) (auto simp: result_simps list_all2_Cons1)

lemma rtraverse_Inl:
  "rtraverse f xs = Inl e \<Longrightarrow> \<exists>x \<in> set xs. f x = Inl e"
  by (induction xs) (auto simp: result_simps)

lemma rtraverse_length: "rtraverse f xs = Inr ys \<Longrightarrow> length ys = length xs"
  by (auto simp: rtraverse_Inr_iff dest: list_all2_lengthD)

lemma rtraverse_map: "(\<And>x. x \<in> set xs \<Longrightarrow> f x = Inr (g x)) \<Longrightarrow> rtraverse f xs = Inr (map g xs)"
  by (induction xs) auto

lemma rtraverse_o_map: "rtraverse f (map h xs) = rtraverse (\<lambda>x. f (h x)) xs"
  by (induction xs) auto

section \<open>Dictionaries\<close>

type_synonym ('k, 'v) dict = "('k \<times> 'v) list"

abbreviation dget :: "('k, 'v) dict \<Rightarrow> 'k \<Rightarrow> 'v option" where
  "dget \<equiv> map_of"

abbreviation dkeys :: "('k, 'v) dict \<Rightarrow> 'k list" where
  "dkeys d \<equiv> map fst d"

text \<open>\<open>d[k] = v\<close>: an existing key keeps its place, a new key goes to the end.\<close>

fun dset :: "'k \<Rightarrow> 'v \<Rightarrow> ('k, 'v) dict \<Rightarrow> ('k, 'v) dict" where
  "dset k v [] = [(k, v)]"
| "dset k v ((k', v') # d) = (if k = k' then (k, v) # d else (k', v') # dset k v d)"

fun ddel :: "'k \<Rightarrow> ('k, 'v) dict \<Rightarrow> ('k, 'v) dict" where
  "ddel k [] = []"
| "ddel k ((k', v') # d) = (if k = k' then d else (k', v') # ddel k d)"

text \<open>A dictionary comprehension or display: pairs are stored from left to right.\<close>

definition dict_of :: "('k \<times> 'v) list \<Rightarrow> ('k, 'v) dict" where
  "dict_of kvs = fold (\<lambda>(k, v). dset k v) kvs []"

lemma dget_dset [simp, dict_simps]: "dget (dset k v d) = (dget d)(k \<mapsto> v)"
  by (induction k v d rule: dset.induct) auto

lemma set_dkeys_dset [simp, dict_simps]: "fst ` set (dset k v d) = insert k (fst ` set d)"
  by (induction k v d rule: dset.induct) auto

lemma distinct_dset [simp, dict_simps]: "distinct (dkeys (dset k v d)) = distinct (dkeys d)"
  by (induction k v d rule: dset.induct) (auto simp: dict_simps)

lemma dset_new [dict_simps]: "k \<notin> fst ` set d \<Longrightarrow> dset k v d = d @ [(k, v)]"
  by (induction k v d rule: dset.induct) auto

lemma dkeys_dset_old [dict_simps]: "k \<in> fst ` set d \<Longrightarrow> dkeys (dset k v d) = dkeys d"
  by (induction k v d rule: dset.induct) auto

lemma dget_Some_key: "dget d k = Some v \<Longrightarrow> k \<in> fst ` set d"
  by (force dest: map_of_SomeD)

lemma dget_ddel [dict_simps]: "distinct (dkeys d) \<Longrightarrow> dget (ddel k d) = (dget d)(k := None)"
  by (induction k d rule: ddel.induct) (auto simp: map_of_eq_None_iff fun_eq_iff image_iff)

lemma set_ddel_subset: "set (ddel k d) \<subseteq> set d"
  by (induction k d rule: ddel.induct) auto

lemma distinct_ddel [simp, dict_simps]: "distinct (dkeys d) \<Longrightarrow> distinct (dkeys (ddel k d))"
  by (induction k d rule: ddel.induct) (use set_ddel_subset in \<open>force\<close>)+

lemma set_dkeys_ddel [dict_simps]:
  "distinct (dkeys d) \<Longrightarrow> fst ` set (ddel k d) = fst ` set d - {k}"
  by (induction k d rule: ddel.induct) auto

lemma length_ddel: "k \<in> fst ` set d \<Longrightarrow> length d = Suc (length (ddel k d))"
  by (induction k d rule: ddel.induct) auto

lemma fold_dset_snoc:
  "distinct (dkeys (d @ kvs)) \<Longrightarrow> fold (\<lambda>(k, v). dset k v) kvs d = d @ kvs"
proof (induction kvs arbitrary: d)
  case (Cons kv kvs)
  then show ?case by (cases kv) (auto simp: dset_new)
qed simp

lemma dict_of_distinct: "distinct (dkeys kvs) \<Longrightarrow> dict_of kvs = kvs"
  by (simp add: dict_of_def fold_dset_snoc)

lemma dget_fold_dset: "dget (fold (\<lambda>(k, v). dset k v) kvs d) = (dget d) ++ map_of (rev kvs)"
  by (induction kvs arbitrary: d) (auto simp: fun_eq_iff map_add_def split: option.splits)

lemma dget_dict_of: "dget (dict_of kvs) = map_of (rev kvs)"
  by (simp add: dict_of_def dget_fold_dset)

lemma distinct_dict_of: "distinct (dkeys (dict_of kvs))"
proof -
  have "distinct (dkeys d) \<Longrightarrow> distinct (dkeys (fold (\<lambda>(k, v). dset k v) kvs d))" for d
    by (induction kvs arbitrary: d) auto
  then show ?thesis by (simp add: dict_of_def)
qed

section \<open>The interface of a keyed store\<close>

locale keyed_store =
  fixes lookup :: "'s \<Rightarrow> 'k \<Rightarrow> 'v option"
    and store :: "'k \<Rightarrow> 'v \<Rightarrow> 's \<Rightarrow> 's"
  assumes lookup_store_same: "lookup (store k v s) k = Some v"
    and lookup_store_other: "k' \<noteq> k \<Longrightarrow> lookup (store k v s) k' = lookup s k'"
begin

lemma lookup_store: "lookup (store k v s) = (lookup s)(k \<mapsto> v)"
  by (auto simp: lookup_store_same lookup_store_other)

lemma store_overwrites: "lookup (store k v (store k w s)) = lookup (store k v s)"
  by (simp add: lookup_store)

lemma store_commutes:
  "k \<noteq> k' \<Longrightarrow> lookup (store k v (store k' w s)) = lookup (store k' w (store k v s))"
  by (simp add: lookup_store fun_upd_twist)

lemma lookup_fold_store:
  "lookup (fold (\<lambda>(k, v). store k v) kvs s) = lookup s ++ map_of (rev kvs)"
  by (induction kvs arbitrary: s)
     (auto simp: lookup_store fun_eq_iff map_add_def split: option.splits)

lemma lookup_after_others:
  "k \<notin> fst ` set kvs \<Longrightarrow> lookup (fold (\<lambda>(k, v). store k v) kvs (store k w s)) k = Some w"
  by (auto simp: lookup_fold_store lookup_store_same map_add_Some_iff map_of_eq_None_iff
      image_iff)

end

interpretation dict: keyed_store "map_of" "dset"
  by unfold_locales auto

section \<open>Machines with an invariant\<close>

text \<open>A provider fixes its start states, its step relation and its invariant; the client
  of the interface gets the invariant in every reachable state.\<close>

locale machine =
  fixes init :: "'s \<Rightarrow> bool"
    and step :: "'s \<Rightarrow> 's \<Rightarrow> bool"
    and inv :: "'s \<Rightarrow> bool"
  assumes init_inv: "init s \<Longrightarrow> inv s"
    and step_inv: "inv s \<Longrightarrow> step s t \<Longrightarrow> inv t"
begin

lemma steps_inv: "step\<^sup>*\<^sup>* s t \<Longrightarrow> inv s \<Longrightarrow> inv t"
  by (induction rule: rtranclp_induct) (auto intro: step_inv)

lemma reachable_inv: "init s \<Longrightarrow> step\<^sup>*\<^sup>* s t \<Longrightarrow> inv t"
  by (blast intro: steps_inv init_inv)

end

text \<open>A machine that also makes progress: a variant decreases with every step, so a run
  has no more steps than the variant of its first state.\<close>

locale bounded_machine = machine +
  fixes variant :: "'a \<Rightarrow> nat"
  assumes step_decreases: "inv s \<Longrightarrow> step s t \<Longrightarrow> variant t < variant s"
begin

lemma run_length: "(step ^^ n) s t \<Longrightarrow> inv s \<Longrightarrow> n + variant t \<le> variant s"
proof (induction n arbitrary: t)
  case (Suc n)
  then obtain u where u: "(step ^^ n) s u" "step u t" by auto
  then have "step\<^sup>*\<^sup>* s u" by (auto simp: rtranclp_power)
  then have "inv u" using Suc.prems(2) by (rule steps_inv)
  then show ?case using Suc.IH [OF u(1) Suc.prems(2)] step_decreases [OF _ u(2)] by simp
qed simp

lemma no_infinite_run: "inv (f 0) \<Longrightarrow> \<not> (\<forall>i. step (f i) (f (Suc i)))"
proof
  assume i: "inv (f 0)" and s: "\<forall>i. step (f i) (f (Suc i))"
  have p: "(step ^^ n) (f 0) (f n)" for n
    by (induction n) (use s in \<open>auto intro: relcomppI\<close>)
  show False using run_length [OF p [of "Suc (variant (f 0))"] i] by simp
qed

end

text \<open>A machine with a clock and a store that is never above \<open>cap\<close> and fills at the rate \<open>flow\<close>;
  what is spent is taken from the store. Then no window, wherever it starts, sees more spent than a
  full store and the refill of the window.\<close>

locale metered = machine init step inv
  for init :: "'s \<Rightarrow> bool" and step :: "'s \<Rightarrow> 's \<Rightarrow> bool" and inv :: "'s \<Rightarrow> bool" +
  fixes clock spent store :: "'s \<Rightarrow> rat"
    and cap flow :: rat
  assumes store_bounds: "inv s \<Longrightarrow> 0 \<le> store s \<and> store s \<le> cap"
    and step_pays: "inv s \<Longrightarrow> step s t \<Longrightarrow> spent t + store t \<le> spent s + store s + flow * (clock t - clock s)"
begin

lemma steps_pay:
  "step\<^sup>*\<^sup>* s t \<Longrightarrow> inv s \<Longrightarrow> spent t + store t \<le> spent s + store s + flow * (clock t - clock s)"
proof (induction rule: rtranclp_induct)
  case (step t u)
  then show ?case using step_pays [OF steps_inv [OF step.hyps(1) step.prems] step.hyps(2)]
    by (simp add: algebra_simps)
qed simp

lemma window_spent:
  assumes "init r" and "step\<^sup>*\<^sup>* r s" and "step\<^sup>*\<^sup>* s t"
  shows "spent t - spent s \<le> cap + flow * (clock t - clock s)"
proof -
  have i: "inv s" by (rule reachable_inv [OF assms(1,2)])
  show ?thesis
    using steps_pay [OF assms(3) i] store_bounds [OF i] store_bounds [OF steps_inv [OF assms(3) i]] by linarith
qed

end

section \<open>Lists\<close>

lemma filter_in_set_length:
  "length (filter P xs) = 0 \<longleftrightarrow> (\<forall>x \<in> set xs. \<not> P x)"
  by (simp add: filter_empty_conv)

lemma length_filter_remove:
  "length (filter (\<lambda>d. d \<notin> insert a A) xs) + count_list xs a =
     length (filter (\<lambda>d. d \<notin> A) xs)" if "a \<notin> A"
  using that by (induction xs) auto

end
