(* ===== verification/Py_Values.thy ===== *)
theory Py_Values
  imports Prelude
begin

text \<open>
  The Python values the SDK handles: JSON documents, the exceptions it raises, and the few
  operations of the language and its standard library that the sources use on them
  (truthiness, \<open>dict.get\<close>, subscripts, iteration, \<open>int()\<close>, \<open>str.strip\<close>, \<open>str.split\<close>,
  \<open>str.lower\<close>, \<open>json.dumps\<close>). A \<open>char\<close> stands for the Latin-1 code point of the same
  number. A binary64 value is the rational it denotes; the rounding of arithmetic is a
  parameter \<open>fl\<close> of the definitions that compute, the shortest decimal rendering of a float
  is a parameter \<open>fr\<close>. NaN, infinities and float overflow are outside the model.
\<close>

section \<open>Documents and exceptions\<close>

datatype json =
    JNull
  | JBool bool
  | JInt int
  | JFloat rat
  | JStr string
  | JArr "json list"
  | JObj "(string \<times> json) list"

datatype spec_error =
    InvalidDuration json
  | MissingWorkflow
  | DuplicateIds
  | UnknownDependency string string
  | UnknownProvider string json
  | DependencyCycle string string
  | UnresolvedReference string
  | YamlRequired

text \<open>\<open>Ill_typed f\<close> is no exception of the program: it marks a document whose field \<open>f\<close> has
  a type the dataclass annotation excludes but Python would store; the model stops there.\<close>

datatype py_error =
    SpecError spec_error
  | KeyError string
  | TypeError
  | IndexError
  | AttributeError string
  | ValueError string
  | RuntimeError string
  | NotImplementedError string
  | JSONDecodeError
  | Ill_typed string

type_synonym 'a res = "py_error + 'a"

fun exn_name :: "py_error \<Rightarrow> string" where
  "exn_name (SpecError _) = ''SpecError''"
| "exn_name (KeyError _) = ''KeyError''"
| "exn_name IndexError = ''IndexError''"
| "exn_name TypeError = ''TypeError''"
| "exn_name (AttributeError _) = ''AttributeError''"
| "exn_name (ValueError _) = ''ValueError''"
| "exn_name (RuntimeError _) = ''RuntimeError''"
| "exn_name (NotImplementedError _) = ''NotImplementedError''"
| "exn_name JSONDecodeError = ''JSONDecodeError''"
| "exn_name (Ill_typed _) = ''Ill_typed''"

section \<open>Truthiness, look-ups and iteration\<close>

fun truthy :: "json \<Rightarrow> bool" where
  "truthy JNull = False"
| "truthy (JBool b) = b"
| "truthy (JInt i) = (i \<noteq> 0)"
| "truthy (JFloat r) = (r \<noteq> 0)"
| "truthy (JStr s) = (s \<noteq> [])"
| "truthy (JArr xs) = (xs \<noteq> [])"
| "truthy (JObj kvs) = (kvs \<noteq> [])"

text \<open>\<open>a or b\<close>\<close>

definition py_or :: "json \<Rightarrow> json \<Rightarrow> json" where
  "py_or a b = (if truthy a then a else b)"

text \<open>\<open>d.get(k, default)\<close>: only dictionaries have the method.\<close>

fun py_get :: "json \<Rightarrow> string \<Rightarrow> json \<Rightarrow> json res" where
  "py_get (JObj kvs) k dflt = Inr (case dget kvs k of None \<Rightarrow> dflt | Some v \<Rightarrow> v)"
| "py_get _ k dflt = Inl (AttributeError ''get'')"

text \<open>\<open>d[k]\<close> with a string key.\<close>

fun py_index :: "json \<Rightarrow> string \<Rightarrow> json res" where
  "py_index (JObj kvs) k = (case dget kvs k of None \<Rightarrow> Inl (KeyError k) | Some v \<Rightarrow> Inr v)"
| "py_index _ k = Inl TypeError"

text \<open>\<open>for x in v\<close> and \<open>list(v)\<close>: arrays, the keys of a dictionary, the characters of a
  string.\<close>

fun py_iter :: "json \<Rightarrow> json list res" where
  "py_iter (JArr xs) = Inr xs"
| "py_iter (JObj kvs) = Inr (map (\<lambda>(k, v). JStr k) kvs)"
| "py_iter (JStr s) = Inr (map (\<lambda>c. JStr [c]) s)"
| "py_iter _ = Inl TypeError"

text \<open>\<open>v.items()\<close>\<close>

fun py_items :: "json \<Rightarrow> (string \<times> json) list res" where
  "py_items (JObj kvs) = Inr kvs"
| "py_items _ = Inl (AttributeError ''items'')"

section \<open>Characters and strings\<close>

definition code :: "char \<Rightarrow> nat" where
  "code c = of_char c"

definition is_space :: "char \<Rightarrow> bool" where
  "is_space c \<longleftrightarrow> code c \<in> {9, 10, 11, 12, 13, 28, 29, 30, 31, 32, 133, 160}"

definition is_digit :: "char \<Rightarrow> bool" where
  "is_digit c \<longleftrightarrow> 48 \<le> code c \<and> code c \<le> 57"

definition digit_val :: "char \<Rightarrow> nat" where
  "digit_val c = code c - 48"

definition strip :: "string \<Rightarrow> string" where
  "strip s = rev (dropWhile is_space (rev (dropWhile is_space s)))"

text \<open>\<open>s.split(sep)\<close> for a one-character separator.\<close>

fun split_on :: "char \<Rightarrow> string \<Rightarrow> string list" where
  "split_on sep [] = [[]]"
| "split_on sep (c # cs) =
     (if c = sep then [] # split_on sep cs
      else (case split_on sep cs of [] \<Rightarrow> [[c]] | w # ws \<Rightarrow> (c # w) # ws))"

text \<open>\<open>s.split()\<close>: the maximal runs of non-space characters.\<close>

fun words_acc :: "string \<Rightarrow> string \<Rightarrow> string list" where
  "words_acc w [] = (if w = [] then [] else [rev w])"
| "words_acc w (c # cs) =
     (if is_space c then (if w = [] then words_acc [] cs else rev w # words_acc [] cs)
      else words_acc (c # w) cs)"

definition words_of :: "string \<Rightarrow> string list" where
  "words_of s = words_acc [] s"

definition lower_char :: "char \<Rightarrow> char" where
  "lower_char c =
     (let n = code c in
      if 65 \<le> n \<and> n \<le> 90 \<or> 192 \<le> n \<and> n \<le> 222 \<and> n \<noteq> 215 then char_of (n + 32) else c)"

text \<open>The character tests on the bits of a character, for evaluation.\<close>

lemma is_space_code [code]:
  "is_space (Char b0 b1 b2 b3 b4 b5 b6 b7) \<longleftrightarrow>
     (if b7 then \<not> b6 \<and> \<not> b4 \<and> \<not> b3 \<and> \<not> b1 \<and> (if b5 then \<not> b2 \<and> \<not> b0 else b2 \<and> b0)
      else \<not> b6 \<and> (if b5 then \<not> b4 \<and> \<not> b3 \<and> \<not> b2 \<and> \<not> b1 \<and> \<not> b0
                   else b3 \<and> (if b4 then b2 else if b2 then \<not> b1 else b1 \<or> b0)))"
  by (cases b0; cases b1; cases b2; cases b3; cases b4; cases b5; cases b6; cases b7)
     (simp_all add: is_space_def code_def)

lemma is_digit_code [code]:
  "is_digit (Char b0 b1 b2 b3 b4 b5 b6 b7) \<longleftrightarrow> \<not> b7 \<and> \<not> b6 \<and> b5 \<and> b4 \<and> (\<not> b3 \<or> \<not> b2 \<and> \<not> b1)"
  by (cases b0; cases b1; cases b2; cases b3; cases b4; cases b5; cases b6; cases b7)
     (simp_all add: is_digit_def code_def)

lemma lower_char_code [code]:
  "lower_char (Char b0 b1 b2 b3 b4 b5 b6 b7) =
     Char b0 b1 b2 b3 b4
       (b5 \<or> b6 \<and> (if b7 then \<not> (b4 \<and> b2 \<and> b1 \<and> b0)
         else (b0 \<or> b1 \<or> b2 \<or> b3 \<or> b4) \<and> \<not> (b4 \<and> b3 \<and> (b2 \<or> b1 \<and> b0)))) b6 b7"
  by (cases b0; cases b1; cases b2; cases b3; cases b4; cases b5; cases b6; cases b7)
     (simp_all add: lower_char_def code_def char_of_def bit_0)

definition lower :: "string \<Rightarrow> string" where
  "lower s = map lower_char s"

text \<open>\<open>pat in s\<close>\<close>

fun is_prefix :: "string \<Rightarrow> string \<Rightarrow> bool" where
  "is_prefix [] s = True"
| "is_prefix (p # ps) [] = False"
| "is_prefix (p # ps) (c # cs) = (p = c \<and> is_prefix ps cs)"

fun contains :: "string \<Rightarrow> string \<Rightarrow> bool" where
  "contains pat [] = (pat = [])"
| "contains pat (c # cs) = (is_prefix pat (c # cs) \<or> contains pat cs)"

lemma is_prefix_iff: "is_prefix p s \<longleftrightarrow> (\<exists>r. s = p @ r)"
  by (induction p s rule: is_prefix.induct) auto

lemma contains_iff: "contains p s \<longleftrightarrow> (\<exists>a b. s = a @ p @ b)"
proof (induction s)
  case (Cons c cs)
  show ?case
  proof
    assume "contains p (c # cs)"
    then show "\<exists>a b. c # cs = a @ p @ b"
      using Cons.IH by (auto simp: is_prefix_iff intro: exI [of _ "[]"]) (metis append_Cons)
  next
    assume "\<exists>a b. c # cs = a @ p @ b"
    then obtain a b where ab: "c # cs = a @ p @ b" by blast
    then have "is_prefix p (c # cs) \<or> (\<exists>a b. cs = a @ p @ b)"
      by (cases a) (auto simp: is_prefix_iff)
    then show "contains p (c # cs)" using Cons.IH by simp
  qed
qed auto

lemma split_on_nonempty [simp]: "split_on sep s \<noteq> []"
  by (cases s) (auto split: list.splits)

lemma split_on_no_sep: "sep \<notin> set s \<Longrightarrow> split_on sep s = [s]"
  by (induction s) auto

lemma split_on_append: "sep \<notin> set a \<Longrightarrow> split_on sep (a @ sep # b) = a # split_on sep b"
  by (induction a) auto

lemma hd_split_on: "hd (split_on sep s) = takeWhile (\<lambda>c. c \<noteq> sep) s"
  by (induction s) (auto split: list.splits)

lemma strip_no_space: "\<forall>c \<in> set s. \<not> is_space c \<Longrightarrow> strip s = s"
proof -
  assume a: "\<forall>c \<in> set s. \<not> is_space c"
  then have "dropWhile is_space s = s" by (cases s) auto
  moreover have "dropWhile is_space (rev s) = rev s" using a by (cases "rev s") auto
  ultimately show ?thesis by (simp add: strip_def)
qed

section \<open>Numbers\<close>

fun nat_of_digits :: "nat \<Rightarrow> string \<Rightarrow> nat" where
  "nat_of_digits acc [] = acc"
| "nat_of_digits acc (c # cs) = nat_of_digits (10 * acc + digit_val c) cs"

fun digits_of_nat :: "nat \<Rightarrow> string" where
  "digits_of_nat n =
     (if n < 10 then [char_of (48 + n)] else digits_of_nat (n div 10) @ [char_of (48 + n mod 10)])"

declare digits_of_nat.simps [simp del]

definition show_int :: "int \<Rightarrow> string" where
  "show_int i = (if i < 0 then CHR ''-'' # digits_of_nat (nat (- i)) else digits_of_nat (nat i))"

text \<open>The body of \<open>int(s)\<close>: digits, with single underscores between them.\<close>

fun int_body :: "nat \<Rightarrow> string \<Rightarrow> nat option" where
  "int_body acc [] = Some acc"
| "int_body acc (c # cs) =
     (if is_digit c then int_body (10 * acc + digit_val c) cs
      else if c = CHR ''_'' then
        (case cs of d # ds \<Rightarrow> if is_digit d then int_body (10 * acc + digit_val d) ds else None
         | [] \<Rightarrow> None)
      else None)"

definition int_unsigned :: "string \<Rightarrow> nat option" where
  "int_unsigned s =
     (case s of [] \<Rightarrow> None
      | c # cs \<Rightarrow> if is_digit c then int_body (digit_val c) cs else None)"

definition int_of_str :: "string \<Rightarrow> int res" where
  "int_of_str s =
     (let t = strip s;
          (neg, u) = (case t of [] \<Rightarrow> (False, t)
                      | c # cs \<Rightarrow> if c = CHR ''-'' then (True, cs)
                                  else if c = CHR ''+'' then (False, cs) else (False, t))
      in case int_unsigned u of
           None \<Rightarrow> Inl (ValueError ''invalid literal for int()'')
         | Some n \<Rightarrow> Inr (if neg then - int n else int n))"

text \<open>\<open>int(v)\<close>: floats truncate towards zero.\<close>

definition trunc_rat :: "rat \<Rightarrow> int" where
  "trunc_rat r = (if r < 0 then - \<lfloor>- r\<rfloor> else \<lfloor>r\<rfloor>)"

fun py_int :: "json \<Rightarrow> int res" where
  "py_int (JInt i) = Inr i"
| "py_int (JBool b) = Inr (if b then 1 else 0)"
| "py_int (JFloat r) = Inr (trunc_rat r)"
| "py_int (JStr s) = int_of_str s"
| "py_int _ = Inl TypeError"

text \<open>A value used as a number (in a comparison with one): \<open>TypeError\<close> for the others.\<close>

fun py_num :: "json \<Rightarrow> rat res" where
  "py_num (JInt i) = Inr (of_int i)"
| "py_num (JBool b) = Inr (if b then 1 else 0)"
| "py_num (JFloat r) = Inr r"
| "py_num _ = Inl TypeError"

lemma trunc_rat_nonneg [simp]: "0 \<le> r \<Longrightarrow> 0 \<le> trunc_rat r"
  by (simp add: trunc_rat_def)

lemma trunc_rat_int [simp]: "trunc_rat (of_int i) = i"
  by (simp add: trunc_rat_def)

lemma code_char_of [simp]: "n < 256 \<Longrightarrow> code (char_of n) = n"
  by (simp add: code_def)

lemma digits_of_nat_digits: "c \<in> set (digits_of_nat n) \<Longrightarrow> is_digit c"
proof (induction n rule: digits_of_nat.induct)
  case (1 n)
  then show ?case
    by (subst (asm) digits_of_nat.simps) (auto simp: is_digit_def split: if_splits)
qed

lemma digits_of_nat_nonempty [simp]: "digits_of_nat n \<noteq> []"
  by (subst digits_of_nat.simps) simp

lemma nat_of_digits_append:
  "nat_of_digits acc (s @ t) = nat_of_digits (nat_of_digits acc s) t"
  by (induction s arbitrary: acc) auto

lemma nat_of_digits_of_nat: "nat_of_digits 0 (digits_of_nat n) = n"
proof (induction n rule: digits_of_nat.induct)
  case (1 n)
  then show ?case
    by (subst digits_of_nat.simps) (auto simp: nat_of_digits_append digit_val_def)
qed

section \<open>json.dumps\<close>

definition hex_digit :: "nat \<Rightarrow> char" where
  "hex_digit n = (if n < 10 then char_of (48 + n) else char_of (87 + n))"

definition json_escape :: "char \<Rightarrow> string" where
  "json_escape c =
     (let n = code c in
      if n = 34 then [char_of (92::nat), CHR ''\"'']
      else if n = 92 then [char_of (92::nat), char_of (92::nat)]
      else if n = 10 then [char_of (92::nat), CHR ''n'']
      else if n = 13 then [char_of (92::nat), CHR ''r'']
      else if n = 9 then [char_of (92::nat), CHR ''t'']
      else if n = 12 then [char_of (92::nat), CHR ''f'']
      else if n = 8 then [char_of (92::nat), CHR ''b'']
      else if 32 \<le> n \<and> n \<le> 126 then [c]
      else [char_of (92::nat), CHR ''u'', CHR ''0'', CHR ''0'', hex_digit (n div 16), hex_digit (n mod 16)])"

definition json_quote :: "string \<Rightarrow> string" where
  "json_quote s = CHR ''\"'' # concat (map json_escape s) @ ''\"''"

definition join :: "string \<Rightarrow> string list \<Rightarrow> string" where
  "join sep ws = (case ws of [] \<Rightarrow> [] | w # ws' \<Rightarrow> w @ concat (map (\<lambda>u. sep @ u) ws'))"

text \<open>\<open>json.dumps(v, indent=ind)\<close>: with an indentation each element stands on a line of its own,
  \<open>lv\<close> levels deep.\<close>

definition json_gap :: "nat option \<Rightarrow> nat \<Rightarrow> string" where
  "json_gap ind lv = (case ind of None \<Rightarrow> [] | Some i \<Rightarrow> CHR ''\<newline>'' # replicate (i * lv) (CHR '' ''))"

definition json_sep :: "nat option \<Rightarrow> nat \<Rightarrow> string" where
  "json_sep ind lv = (case ind of None \<Rightarrow> '', '' | Some i \<Rightarrow> CHR '','' # json_gap ind lv)"

fun json_render :: "(rat \<Rightarrow> string) \<Rightarrow> nat option \<Rightarrow> nat \<Rightarrow> json \<Rightarrow> string" where
  "json_render fr ind lv JNull = ''null''"
| "json_render fr ind lv (JBool b) = (if b then ''true'' else ''false'')"
| "json_render fr ind lv (JInt i) = show_int i"
| "json_render fr ind lv (JFloat r) = fr r"
| "json_render fr ind lv (JStr s) = json_quote s"
| "json_render fr ind lv (JArr xs) =
     (if xs = [] then ''[]''
      else ''['' @ json_gap ind (Suc lv) @ join (json_sep ind (Suc lv)) (map (json_render fr ind (Suc lv)) xs)
        @ json_gap ind lv @ '']'')"
| "json_render fr ind lv (JObj kvs) =
     (if kvs = [] then ''{}''
      else ''{'' @ json_gap ind (Suc lv) @ join (json_sep ind (Suc lv))
          (map (\<lambda>(k, v). json_quote k @ '': '' @ json_render fr ind (Suc lv) v) kvs)
        @ json_gap ind lv @ ''}'')"

definition json_dumps :: "(rat \<Rightarrow> string) \<Rightarrow> json \<Rightarrow> string" where
  "json_dumps fr v = json_render fr None 0 v"

section \<open>repr, str and upper\<close>

text \<open>\<open>repr(s)\<close>: single quotes unless the text has some and no double quotes; what is not
  printable is escaped.\<close>

definition repr_char :: "char \<Rightarrow> char \<Rightarrow> string" where
  "repr_char quote c =
     (let n = code c in
      if c = quote \<or> n = 92 then [char_of (92::nat), c]
      else if n = 10 then [char_of (92::nat), CHR ''n'']
      else if n = 13 then [char_of (92::nat), CHR ''r'']
      else if n = 9 then [char_of (92::nat), CHR ''t'']
      else if n < 32 \<or> 127 \<le> n \<and> n \<le> 160 \<or> n = 173
      then [char_of (92::nat), CHR ''x'', hex_digit (n div 16), hex_digit (n mod 16)]
      else [c])"

definition repr_str :: "string \<Rightarrow> string" where
  "repr_str s =
     (let quote = (if char_of (39::nat) \<in> set s \<and> CHR ''\"'' \<notin> set s then CHR ''\"'' else char_of (39::nat))
      in [quote] @ concat (map (repr_char quote) s) @ [quote])"

fun py_repr :: "(rat \<Rightarrow> string) \<Rightarrow> json \<Rightarrow> string" where
  "py_repr fr JNull = ''None''"
| "py_repr fr (JBool b) = (if b then ''True'' else ''False'')"
| "py_repr fr (JInt i) = show_int i"
| "py_repr fr (JFloat r) = fr r"
| "py_repr fr (JStr s) = repr_str s"
| "py_repr fr (JArr xs) = ''['' @ join '', '' (map (py_repr fr) xs) @ '']''"
| "py_repr fr (JObj kvs) = ''{'' @ join '', '' (map (\<lambda>(k, v). repr_str k @ '': '' @ py_repr fr v) kvs) @ ''}''"

text \<open>\<open>f"{v}"\<close> and \<open>str(v)\<close>\<close>

definition py_format :: "(rat \<Rightarrow> string) \<Rightarrow> json \<Rightarrow> string" where
  "py_format fr v = (case v of JStr s \<Rightarrow> s | _ \<Rightarrow> py_repr fr v)"

text \<open>\<open>s.upper()\<close>; the micro sign and the y with diaeresis have upper cases beyond Latin-1 and
  stay as they are here.\<close>

definition upper_char :: "char \<Rightarrow> string" where
  "upper_char c =
     (let n = code c in
      if 97 \<le> n \<and> n \<le> 122 \<or> 224 \<le> n \<and> n \<le> 254 \<and> n \<noteq> 247 then [char_of (n - 32)]
      else if n = 223 then ''SS'' else [c])"

definition upper :: "string \<Rightarrow> string" where
  "upper s = concat (map upper_char s)"

end
