(* ===== verification/Workflow_Spec.thy ===== *)
theory Workflow_Spec
  imports Py_Values
begin

text \<open>
  \<open>sdk-python/orchestrator/spec.py\<close>, the typed workflow: durations, the dataclasses, the
  loader \<open>Workflow.from_dict\<close> up to the call of \<open>validate\<close> (theory
  \<open>Workflow_Validation\<close>) and the serializer \<open>Workflow.to_dict\<close>. Fields the code stores
  without looking at their type stay documents (\<open>json\<close>).
\<close>

section \<open>Durations\<close>

text \<open>\<open>_UNITS\<close>: the literal \<open>0.001\<close> is the binary64 value next to 1/1000.\<close>

definition duration_unit :: "(rat \<Rightarrow> rat) \<Rightarrow> string \<Rightarrow> rat option" where
  "duration_unit fl u =
     (if u = ''ms'' then Some (fl (1 / 1000))
      else if u = ''s'' then Some 1
      else if u = ''m'' then Some 60
      else if u = ''h'' then Some 3600
      else None)"

text \<open>\<open>_DURATION_RE.match\<close>: digits, then one of the units, then the end.\<close>

definition match_duration :: "string \<Rightarrow> (string \<times> string) option" where
  "match_duration s =
     (let ds = takeWhile is_digit s; u = dropWhile is_digit s in
      if ds \<noteq> [] \<and> u \<in> {''ms'', ''s'', ''m'', ''h''} then Some (ds, u) else None)"

text \<open>The \<open>str()\<close> of a document other than a string never matches the pattern: it is a
  number without unit or starts with a letter, a bracket or a sign.\<close>

definition parse_duration :: "(rat \<Rightarrow> rat) \<Rightarrow> json \<Rightarrow> rat option \<Rightarrow> rat option res" where
  "parse_duration fl text dflt =
     (case text of
        JNull \<Rightarrow> Inr dflt
      | JStr s \<Rightarrow>
          (case match_duration (strip s) of
             None \<Rightarrow> Inl (SpecError (InvalidDuration text))
           | Some (ds, u) \<Rightarrow>
               (case duration_unit fl u of
                  None \<Rightarrow> Inl (KeyError u)
                | Some k \<Rightarrow> Inr (Some (fl (fl (of_nat (nat_of_digits 0 ds)) * k)))))
      | _ \<Rightarrow> Inl (SpecError (InvalidDuration text)))"

section \<open>The dataclasses\<close>

record rate_limit =
  rl_requests :: int
  rl_per :: "rat option"
  rl_tokens :: json
  rl_per_tokens :: "rat option"

record retry =
  rt_max :: int
  rt_backoff :: json
  rt_base :: "rat option"
  rt_jitter :: bool

record provider =
  pv_name :: string
  pv_rate_limit :: "rate_limit option"

record task =
  tk_id :: string
  tk_skill :: json
  tk_provider :: json
  tk_depends_on :: "string list"
  tk_inputs :: "(string, json) dict"
  tk_retry :: "retry option"
  tk_timeout :: "rat option"
  tk_on_error :: json
  tk_idempotent :: bool

record workflow =
  wf_name :: json
  wf_tasks :: "task list"
  wf_version :: int
  wf_max_parallel :: int
  wf_rate_limit :: "rate_limit option"
  wf_providers :: "(string, provider) dict"
  wf_default_retry :: "retry option"
  wf_default_timeout :: "rat option"
  wf_default_on_error :: json
  wf_inputs_schema :: json
  wf_output :: json

definition default_retry :: retry where
  "default_retry = \<lparr>rt_max = 0, rt_backoff = JStr ''exponential'', rt_base = Some (1 / 2),
     rt_jitter = True\<rparr>"

abbreviation task_ids :: "workflow \<Rightarrow> string list" where
  "task_ids w \<equiv> map tk_id (wf_tasks w)"

section \<open>Loading\<close>

definition rate_limit_from_dict :: "(rat \<Rightarrow> rat) \<Rightarrow> json \<Rightarrow> rate_limit option res" where
  "rate_limit_from_dict fl d =
     (if \<not> truthy d then Inr None
      else rbind (py_index d ''requests'') (\<lambda>rq.
           rbind (py_int rq) (\<lambda>requests.
           rbind (py_index d ''per'') (\<lambda>p.
           rbind (parse_duration fl p None) (\<lambda>per.
           rbind (py_get d ''tokens'' JNull) (\<lambda>tokens.
           rbind (py_get d ''per_tokens'' JNull) (\<lambda>pt.
           rbind (parse_duration fl pt None) (\<lambda>per_tokens.
           Inr (Some \<lparr>rl_requests = requests, rl_per = per, rl_tokens = tokens,
                      rl_per_tokens = per_tokens\<rparr>)))))))))"

definition retry_from_dict :: "(rat \<Rightarrow> rat) \<Rightarrow> json \<Rightarrow> retry option res" where
  "retry_from_dict fl d =
     (if \<not> truthy d then Inr None
      else rbind (py_get d ''max'' (JInt 0)) (\<lambda>m.
           rbind (py_int m) (\<lambda>mx.
           rbind (py_get d ''backoff'' (JStr ''exponential'')) (\<lambda>backoff.
           rbind (py_get d ''base'' JNull) (\<lambda>b.
           rbind (parse_duration fl b (Some (1 / 2))) (\<lambda>base.
           rbind (py_get d ''jitter'' (JBool True)) (\<lambda>j.
           Inr (Some \<lparr>rt_max = mx, rt_backoff = backoff, rt_base = base,
                      rt_jitter = truthy j\<rparr>))))))))"

definition provider_from_item :: "(rat \<Rightarrow> rat) \<Rightarrow> string \<times> json \<Rightarrow> (string \<times> provider) res" where
  "provider_from_item fl np =
     (case np of (name, p) \<Rightarrow>
        rbind (py_get (py_or p (JObj [])) ''rate_limit'' JNull) (\<lambda>rl.
        rbind (rate_limit_from_dict fl rl) (\<lambda>lim.
        Inr (name, \<lparr>pv_name = name, pv_rate_limit = lim\<rparr>))))"

text \<open>A field the annotation types as a string.\<close>

definition as_string :: "string \<Rightarrow> json \<Rightarrow> string res" where
  "as_string f v = (case v of JStr s \<Rightarrow> Inr s | _ \<Rightarrow> Inl (Ill_typed f))"

text \<open>\<open>dict(v)\<close>: a list of pairs is outside the model.\<close>

definition py_dict :: "json \<Rightarrow> (string, json) dict res" where
  "py_dict v =
     (case v of
        JObj kvs \<Rightarrow> Inr kvs
      | JArr _ \<Rightarrow> Inl (Ill_typed ''inputs'')
      | JStr _ \<Rightarrow> Inl (Ill_typed ''inputs'')
      | _ \<Rightarrow> Inl TypeError)"

definition task_from_dict :: "(rat \<Rightarrow> rat) \<Rightarrow> json \<Rightarrow> task res" where
  "task_from_dict fl t =
     rbind (py_index t ''id'') (\<lambda>i.
     rbind (as_string ''id'' i) (\<lambda>tid.
     rbind (py_index t ''skill'') (\<lambda>skill.
     rbind (py_get t ''provider'' JNull) (\<lambda>provider.
     rbind (py_get t ''depends_on'' (JArr [])) (\<lambda>d.
     rbind (py_iter (py_or d (JArr []))) (\<lambda>ds.
     rbind (rtraverse (as_string ''depends_on'') ds) (\<lambda>deps.
     rbind (py_get t ''inputs'' (JObj [])) (\<lambda>ins.
     rbind (py_dict (py_or ins (JObj []))) (\<lambda>inputs.
     rbind (py_get t ''retry'' JNull) (\<lambda>r.
     rbind (retry_from_dict fl r) (\<lambda>retry.
     rbind (py_get t ''timeout'' JNull) (\<lambda>tm.
     rbind (parse_duration fl tm None) (\<lambda>timeout.
     rbind (py_get t ''on_error'' JNull) (\<lambda>on_error.
     rbind (py_get t ''idempotent'' (JBool False)) (\<lambda>idem.
     Inr \<lparr>tk_id = tid, tk_skill = skill, tk_provider = provider, tk_depends_on = deps,
          tk_inputs = inputs, tk_retry = retry, tk_timeout = timeout,
          tk_on_error = on_error, tk_idempotent = truthy idem\<rparr>)))))))))))))))"

text \<open>The body of \<open>Workflow.from_dict\<close> before \<open>model.validate()\<close>.\<close>

definition parse_workflow :: "(rat \<Rightarrow> rat) \<Rightarrow> json \<Rightarrow> workflow res" where
  "parse_workflow fl doc =
     rbind (py_get doc ''workflow'' JNull) (\<lambda>w.
     if (case w of JObj _ \<Rightarrow> False | _ \<Rightarrow> True) then Inl (SpecError MissingWorkflow) else
     rbind (py_get w ''concurrency'' (JObj [])) (\<lambda>c.
     let conc = py_or c (JObj []) in
     rbind (py_get w ''defaults'' (JObj [])) (\<lambda>df.
     let defaults = py_or df (JObj []) in
     rbind (py_get w ''providers'' (JObj [])) (\<lambda>ps.
     rbind (py_items (py_or ps (JObj []))) (\<lambda>items.
     rbind (rtraverse (provider_from_item fl) items) (\<lambda>providers.
     rbind (py_get w ''tasks'' (JArr [])) (\<lambda>tj.
     rbind (py_iter tj) (\<lambda>ts.
     rbind (rtraverse (task_from_dict fl) ts) (\<lambda>tasks.
     rbind (py_index w ''name'') (\<lambda>name.
     rbind (py_get w ''version'' (JInt 1)) (\<lambda>v.
     rbind (py_int v) (\<lambda>version.
     rbind (py_get conc ''max_parallel'' (JInt 8)) (\<lambda>mp.
     rbind (py_int mp) (\<lambda>max_parallel.
     rbind (py_get conc ''rate_limit'' JNull) (\<lambda>rl.
     rbind (rate_limit_from_dict fl rl) (\<lambda>rate_limit.
     rbind (py_get defaults ''retry'' JNull) (\<lambda>dr.
     rbind (retry_from_dict fl dr) (\<lambda>dretry.
     rbind (py_get defaults ''timeout'' JNull) (\<lambda>dt.
     rbind (parse_duration fl dt None) (\<lambda>dtimeout.
     rbind (py_get defaults ''on_error'' (JStr ''fail_fast'')) (\<lambda>don_error.
     rbind (py_get w ''inputs'' (JObj [])) (\<lambda>ins.
     rbind (py_get w ''output'' JNull) (\<lambda>output.
     Inr \<lparr>wf_name = name, wf_tasks = tasks, wf_version = version,
          wf_max_parallel = max_parallel, wf_rate_limit = rate_limit,
          wf_providers = dict_of providers,
          wf_default_retry = Some (case dretry of None \<Rightarrow> default_retry | Some r \<Rightarrow> r),
          wf_default_timeout = dtimeout, wf_default_on_error = don_error,
          wf_inputs_schema = py_or ins (JObj []), wf_output = output\<rparr>)))))))))))))))))))))))"

section \<open>Serializing\<close>

fun json_of_float :: "rat option \<Rightarrow> json" where
  "json_of_float None = JNull"
| "json_of_float (Some r) = JFloat r"

text \<open>\<open>rate_limit.__dict__\<close> and \<open>retry.__dict__\<close>\<close>

definition rate_limit_dict :: "rate_limit \<Rightarrow> json" where
  "rate_limit_dict rl = JObj
     [(''requests'', JInt (rl_requests rl)), (''per'', json_of_float (rl_per rl)),
      (''tokens'', rl_tokens rl), (''per_tokens'', json_of_float (rl_per_tokens rl))]"

definition retry_dict :: "retry \<Rightarrow> json" where
  "retry_dict rt = JObj
     [(''max'', JInt (rt_max rt)), (''backoff'', rt_backoff rt),
      (''base'', json_of_float (rt_base rt)), (''jitter'', JBool (rt_jitter rt))]"

fun opt_dict :: "('a \<Rightarrow> json) \<Rightarrow> 'a option \<Rightarrow> json" where
  "opt_dict f None = JNull"
| "opt_dict f (Some x) = f x"

text \<open>Attribute access on a \<open>Task\<close>: the dataclass has exactly these fields.\<close>

definition task_attr :: "task \<Rightarrow> string \<Rightarrow> json res" where
  "task_attr t a =
     (if a = ''id'' then Inr (JStr (tk_id t))
      else if a = ''skill'' then Inr (tk_skill t)
      else if a = ''provider'' then Inr (tk_provider t)
      else if a = ''depends_on'' then Inr (JArr (map JStr (tk_depends_on t)))
      else if a = ''inputs'' then Inr (JObj (tk_inputs t))
      else if a = ''retry'' then Inr (opt_dict retry_dict (tk_retry t))
      else if a = ''timeout'' then Inr (json_of_float (tk_timeout t))
      else if a = ''on_error'' then Inr (tk_on_error t)
      else if a = ''idempotent'' then Inr (JBool (tk_idempotent t))
      else Inl (AttributeError a))"

text \<open>One entry of the \<open>tasks\<close> list: the keys in the order of the display, each reading
  the attribute of the same name.\<close>

definition task_to_dict :: "task \<Rightarrow> json res" where
  "task_to_dict t =
     rmap JObj (rtraverse (\<lambda>k. rmap (\<lambda>v. (k, v)) (task_attr t k))
       [''id'', ''skill'', ''description'', ''inputs'', ''outputs'', ''depends_on'',
        ''provider'', ''retry'', ''timeout'', ''on_error''])"

definition concurrency_dict :: "workflow \<Rightarrow> json" where
  "concurrency_dict w =
     (if wf_max_parallel w \<noteq> 0 \<or> wf_rate_limit w \<noteq> None
      then JObj [(''max_parallel'', JInt (wf_max_parallel w)),
                 (''rate_limit'', opt_dict rate_limit_dict (wf_rate_limit w))]
      else JObj [])"

definition providers_dict :: "workflow \<Rightarrow> json" where
  "providers_dict w =
     JObj (map (\<lambda>(n, p). (n, JObj [(''rate_limit'', opt_dict rate_limit_dict (pv_rate_limit p))]))
       (wf_providers w))"

definition defaults_dict :: "workflow \<Rightarrow> json" where
  "defaults_dict w =
     (if wf_default_retry w \<noteq> None
         \<or> (case wf_default_timeout w of None \<Rightarrow> False | Some t \<Rightarrow> t \<noteq> 0)
         \<or> wf_default_on_error w \<noteq> JStr ''fail_fast''
      then JObj [(''retry'', opt_dict retry_dict (wf_default_retry w)),
                 (''timeout'', json_of_float (wf_default_timeout w)),
                 (''on_error'', wf_default_on_error w)]
      else JObj [])"

definition workflow_to_dict :: "workflow \<Rightarrow> json res" where
  "workflow_to_dict w =
     rbind (rtraverse task_to_dict (wf_tasks w)) (\<lambda>tasks.
     Inr (JObj [(''workflow'', JObj
       [(''name'', wf_name w),
        (''version'', JInt (wf_version w)),
        (''concurrency'', concurrency_dict w),
        (''tasks'', JArr tasks),
        (''providers'', providers_dict w),
        (''defaults'', defaults_dict w),
        (''inputs_schema'', wf_inputs_schema w),
        (''output'', wf_output w)])]))"

text \<open>What is written cannot be read: a duration is a number there.\<close>

lemma serialized_retry_rejected:
  "rt_base r = Some b \<Longrightarrow> retry_from_dict fl (retry_dict r) = Inl (SpecError (InvalidDuration (JFloat b)))"
  by (cases "rt_max r") (simp_all add: retry_from_dict_def retry_dict_def parse_duration_def)

section \<open>Durations, exactly\<close>

lemma match_duration_iff:
  "match_duration s = Some (ds, u) \<longleftrightarrow>
     s = ds @ u \<and> ds \<noteq> [] \<and> list_all is_digit ds \<and> u \<in> {''ms'', ''s'', ''m'', ''h''}"
proof
  assume "match_duration s = Some (ds, u)"
  then have m: "ds = takeWhile is_digit s" "u = dropWhile is_digit s" "ds \<noteq> []" "u \<in> {''ms'', ''s'', ''m'', ''h''}"
    by (auto simp: match_duration_def Let_def split: if_splits)
  have "s = ds @ u" by (simp add: m(1,2))
  moreover have "list_all is_digit ds" by (auto simp: m(1) list_all_iff dest: set_takeWhileD)
  ultimately show "s = ds @ u \<and> ds \<noteq> [] \<and> list_all is_digit ds \<and> u \<in> {''ms'', ''s'', ''m'', ''h''}"
    using m(3,4) by blast
next
  assume a: "s = ds @ u \<and> ds \<noteq> [] \<and> list_all is_digit ds \<and> u \<in> {''ms'', ''s'', ''m'', ''h''}"
  then have u: "u \<noteq> [] \<and> \<not> is_digit (hd u)" by (auto simp: is_digit_def code_def)
  then have "takeWhile is_digit u = []" "dropWhile is_digit u = u" by (cases u; simp)+
  then have "takeWhile is_digit s = ds" "dropWhile is_digit s = u"
    using a by (simp_all add: list_all_iff takeWhile_append2 dropWhile_append2)
  then show "match_duration s = Some (ds, u)" using a by (simp add: match_duration_def)
qed

lemma duration_unit_units: "duration_unit fl u = Some k \<Longrightarrow> u \<in> {''ms'', ''s'', ''m'', ''h''}"
  by (auto simp: duration_unit_def split: if_splits)

text \<open>C25. Durations: a string is accepted exactly when, without surrounding white space, it is a
  nonempty sequence of digits followed by one of the four units, and its value is the number
  times the unit, each operation rounded once.\<close>

theorem duration_exact:
  "parse_duration fl (JStr s) dflt = Inr x \<longleftrightarrow>
     (\<exists>ds u k. strip s = ds @ u \<and> ds \<noteq> [] \<and> list_all is_digit ds \<and> duration_unit fl u = Some k
        \<and> x = Some (fl (fl (of_nat (nat_of_digits 0 ds)) * k)))"
proof
  assume "parse_duration fl (JStr s) dflt = Inr x"
  then obtain ds u k where "match_duration (strip s) = Some (ds, u)" "duration_unit fl u = Some k"
    "x = Some (fl (fl (of_nat (nat_of_digits 0 ds)) * k))"
    by (auto simp: parse_duration_def split: option.splits)
  then show "\<exists>ds u k. strip s = ds @ u \<and> ds \<noteq> [] \<and> list_all is_digit ds \<and> duration_unit fl u = Some k
      \<and> x = Some (fl (fl (of_nat (nat_of_digits 0 ds)) * k))"
    by (auto simp: match_duration_iff)
next
  assume "\<exists>ds u k. strip s = ds @ u \<and> ds \<noteq> [] \<and> list_all is_digit ds \<and> duration_unit fl u = Some k
      \<and> x = Some (fl (fl (of_nat (nat_of_digits 0 ds)) * k))"
  then obtain ds u k where d: "strip s = ds @ u" "ds \<noteq> []" "list_all is_digit ds" "duration_unit fl u = Some k"
    "x = Some (fl (fl (of_nat (nat_of_digits 0 ds)) * k))" by blast
  then have "match_duration (strip s) = Some (ds, u)"
    using duration_unit_units by (simp only: match_duration_iff) blast
  then show "parse_duration fl (JStr s) dflt = Inr x" using d by (simp add: parse_duration_def)
qed

text \<open>The serializer reads two attributes no task has.\<close>

lemma task_to_dict_raises: "task_to_dict t = Inl (AttributeError ''description'')"
  by (simp add: task_to_dict_def task_attr_def)

lemma to_dict_raises: "wf_tasks w \<noteq> [] \<Longrightarrow> workflow_to_dict w = Inl (AttributeError ''description'')"
  by (cases "wf_tasks w") (simp_all add: workflow_to_dict_def task_to_dict_raises)

text \<open>Loading gives every retry policy a base.\<close>

lemma parse_duration_default: "parse_duration fl v (Some d) = Inr x \<Longrightarrow> x \<noteq> None"
  by (auto simp: parse_duration_def split: json.splits option.splits)

lemma retry_base: "retry_from_dict fl d = Inr (Some r) \<Longrightarrow> rt_base r \<noteq> None"
  by (auto simp: retry_from_dict_def result_simps dest: parse_duration_default split: if_splits)

lemma task_retry_base: "task_from_dict fl j = Inr t \<Longrightarrow> tk_retry t = Some r \<Longrightarrow> rt_base r \<noteq> None"
  by (auto simp: task_from_dict_def result_simps dest: retry_base)

lemma parsed_retry_base:
  assumes "parse_workflow fl doc = Inr w"
  shows "\<forall>t \<in> set (wf_tasks w). \<forall>r. tk_retry t = Some r \<longrightarrow> rt_base r \<noteq> None"
    "\<exists>r. wf_default_retry w = Some r \<and> rt_base r \<noteq> None"
proof -
  obtain ts dr dretry where t: "rtraverse (task_from_dict fl) ts = Inr (wf_tasks w)"
    and d: "retry_from_dict fl dr = Inr dretry"
      "wf_default_retry w = Some (case dretry of None \<Rightarrow> default_retry | Some r \<Rightarrow> r)"
    using assms unfolding parse_workflow_def Let_def
    by (auto simp: rbind_eq_Inr split: if_splits)
  show "\<forall>t \<in> set (wf_tasks w). \<forall>r. tk_retry t = Some r \<longrightarrow> rt_base r \<noteq> None"
  proof (intro ballI allI impI)
    fix t r assume "t \<in> set (wf_tasks w)" and r: "tk_retry t = Some r"
    then obtain i where "i < length (wf_tasks w)" "wf_tasks w ! i = t" by (auto simp: in_set_conv_nth)
    then have "task_from_dict fl (ts ! i) = Inr t"
      using t by (auto simp: rtraverse_Inr_iff list_all2_conv_all_nth)
    then show "rt_base r \<noteq> None" using r by (rule task_retry_base)
  qed
  show "\<exists>r. wf_default_retry w = Some r \<and> rt_base r \<noteq> None"
  proof (cases dretry)
    case None
    then show ?thesis using d(2) by (intro exI [of _ default_retry]) (simp add: default_retry_def)
  next
    case (Some r)
    then show ?thesis using d retry_base [of fl dr r] by simp
  qed
qed

end
