(* ===== verification/Workflow_Validation.thy ===== *)
theory Workflow_Validation
  imports Workflow_Spec
begin

text \<open>
  \<open>Workflow.validate\<close> and \<open>Workflow._assert_acyclic\<close> of
  \<open>sdk-python/orchestrator/spec.py\<close>: the checks in the code's order and the three-colour
  depth-first search, with its termination and the proof that it accepts exactly the
  acyclic graphs. The locale \<open>task_dag\<close> is what the scheduler and the report rely on.
  Python's recursion limit is not modelled.
\<close>

section \<open>The depth-first search\<close>

datatype color = WHITE | GREY | BLACK

type_synonym graph = "(string, string list) dict"

definition whites :: "(string, color) dict \<Rightarrow> nat" where
  "whites col = length (filter (\<lambda>kc. snd kc = WHITE) col)"

lemma whites_dset_le: "c \<noteq> WHITE \<Longrightarrow> whites (dset k c col) \<le> whites col"
  by (induction k c col rule: dset.induct) (auto simp: whites_def)

lemma whites_dset_less:
  "c \<noteq> WHITE \<Longrightarrow> dget col k = Some WHITE \<Longrightarrow> whites (dset k c col) < whites col"
  by (induction k c col rule: dset.induct) (auto simp: whites_def split: if_splits)

function visit :: "graph \<Rightarrow> string \<Rightarrow> (string, color) dict \<Rightarrow> (string, color) dict res"
  and visit_deps :: "graph \<Rightarrow> string \<Rightarrow> string list \<Rightarrow> (string, color) dict \<Rightarrow> (string, color) dict res"
where
  "visit g node col =
     (case dget g node of
        None \<Rightarrow> Inl (KeyError node)
      | Some deps \<Rightarrow>
          rbind (visit_deps g node deps (dset node GREY col)) (\<lambda>c. Inr (dset node BLACK c)))"
| "visit_deps g node [] col = Inr col"
| "visit_deps g node (dep # deps) col =
     (case dget col dep of
        None \<Rightarrow> Inl (KeyError dep)
      | Some GREY \<Rightarrow> Inl (SpecError (DependencyCycle node dep))
      | Some WHITE \<Rightarrow> rbind (visit g dep col) (\<lambda>c. visit_deps g node deps c)
      | Some BLACK \<Rightarrow> visit_deps g node deps col)"
  by pat_completeness auto

lemma visit_whites:
  "visit_visit_deps_dom (Inl (g, node, col)) \<Longrightarrow>
     visit g node col = Inr c \<Longrightarrow> whites c \<le> whites col"
  "visit_visit_deps_dom (Inr (g, node, deps, col)) \<Longrightarrow>
     visit_deps g node deps col = Inr c \<Longrightarrow> whites c \<le> whites col"
proof (induction arbitrary: c and c rule: visit_visit_deps.pinduct)
  case (1 g node col)
  then obtain deps c' where d: "dget g node = Some deps"
    "visit_deps g node deps (dset node GREY col) = Inr c'" "c = dset node BLACK c'"
    by (auto simp: visit.psimps result_simps split: option.splits)
  have "whites c' \<le> whites (dset node GREY col)" by (rule "1.IH" [OF d(1,2)])
  then show ?case
    using whites_dset_le [of BLACK node c'] whites_dset_le [of GREY node col] d(3) by simp
next
  case (2 g node col)
  then show ?case by (simp add: visit_deps.psimps)
next
  case (3 g node dep deps col)
  show ?case
  proof (cases "dget col dep = Some WHITE")
    case True
    then obtain c' where c': "visit g dep col = Inr c'" "visit_deps g node deps c' = Inr c"
      using "3.prems" "3.hyps" by (auto simp: visit_deps.psimps result_simps)
    show ?thesis
      using "3.IH"(1) [OF True refl c'(1)] "3.IH"(2) [OF True refl c'] by simp
  next
    case False
    then have b: "dget col dep = Some BLACK" "visit_deps g node deps col = Inr c"
      using "3.prems" "3.hyps" by (auto simp: visit_deps.psimps split: option.splits color.splits)
    show ?thesis by (rule "3.IH"(3) [OF b(1) refl b(2)])
  qed
qed

termination visit
proof (relation "measures
    [case_sum (\<lambda>(g, node, col). whites (dset node GREY col)) (\<lambda>(g, node, deps, col). whites col),
     case_sum (\<lambda>_. 1) (\<lambda>_. 0),
     case_sum (\<lambda>_. 0) (\<lambda>(g, node, deps, col). length deps)]")
qed (auto simp: whites_dset_less dest!: visit_whites(1))

declare visit.simps [simp del] visit_deps.simps [simp del]
lemmas visit_simps = visit.simps visit_deps.simps

text \<open>\<open>for tid in graph: if color[tid] == WHITE: visit(tid)\<close>\<close>

fun visit_all :: "graph \<Rightarrow> string list \<Rightarrow> (string, color) dict \<Rightarrow> (string, color) dict res" where
  "visit_all g [] col = Inr col"
| "visit_all g (tid # tids) col =
     (case dget col tid of
        None \<Rightarrow> Inl (KeyError tid)
      | Some WHITE \<Rightarrow> rbind (visit g tid col) (\<lambda>c. visit_all g tids c)
      | Some _ \<Rightarrow> visit_all g tids col)"

definition dep_graph :: "workflow \<Rightarrow> graph" where
  "dep_graph w = dict_of (map (\<lambda>t. (tk_id t, tk_depends_on t)) (wf_tasks w))"

definition assert_acyclic :: "workflow \<Rightarrow> unit res" where
  "assert_acyclic w =
     (let g = dep_graph w; col = map (\<lambda>(k, ds). (k, WHITE)) g
      in rbind (visit_all g (dkeys g) col) (\<lambda>_. Inr ()))"

section \<open>The checks\<close>

text \<open>\<open>dep not in idset\<close> for each dependency, then the provider; a truthy provider that
  is no string is either unhashable or no key of the dictionary.\<close>

fun check_deps :: "string set \<Rightarrow> string \<Rightarrow> string list \<Rightarrow> unit res" where
  "check_deps idset tid [] = Inr ()"
| "check_deps idset tid (dep # deps) =
     (if dep \<notin> idset then Inl (SpecError (UnknownDependency tid dep))
      else check_deps idset tid deps)"

definition check_provider :: "workflow \<Rightarrow> task \<Rightarrow> unit res" where
  "check_provider w t =
     (if \<not> truthy (tk_provider t) then Inr ()
      else case tk_provider t of
             JStr p \<Rightarrow> if dget (wf_providers w) p = None
                       then Inl (SpecError (UnknownProvider (tk_id t) (JStr p))) else Inr ()
           | JArr _ \<Rightarrow> Inl TypeError
           | JObj _ \<Rightarrow> Inl TypeError
           | v \<Rightarrow> Inl (SpecError (UnknownProvider (tk_id t) v)))"

fun check_tasks :: "workflow \<Rightarrow> task list \<Rightarrow> unit res" where
  "check_tasks w [] = Inr ()"
| "check_tasks w (t # ts) =
     rbind (check_deps (set (task_ids w)) (tk_id t) (tk_depends_on t)) (\<lambda>_.
     rbind (check_provider w t) (\<lambda>_. check_tasks w ts))"

definition validate :: "workflow \<Rightarrow> workflow res" where
  "validate w =
     (if length (task_ids w) \<noteq> card (set (task_ids w)) then Inl (SpecError DuplicateIds)
      else rbind (check_tasks w (wf_tasks w)) (\<lambda>_.
           rbind (assert_acyclic w) (\<lambda>_. Inr w)))"

definition workflow_from_dict :: "(rat \<Rightarrow> rat) \<Rightarrow> json \<Rightarrow> workflow res" where
  "workflow_from_dict fl doc = rbind (parse_workflow fl doc) validate"

definition task_map :: "workflow \<Rightarrow> (string, task) dict" where
  "task_map w = dict_of (map (\<lambda>t. (tk_id t, t)) (wf_tasks w))"

definition deps_of :: "workflow \<Rightarrow> string \<Rightarrow> string list" where
  "deps_of w tid = (case dget (task_map w) tid of None \<Rightarrow> [] | Some t \<Rightarrow> tk_depends_on t)"

section \<open>The search accepts exactly the acyclic graphs\<close>

definition edges :: "graph \<Rightarrow> (string \<times> string) set" where
  "edges g = {(n, d). \<exists>ds. dget g n = Some ds \<and> d \<in> set ds}"

abbreviation having :: "color \<Rightarrow> (string, color) dict \<Rightarrow> string set" where
  "having c col \<equiv> {k. dget col k = Some c}"

lemma having_dset: "having c (dset k c' col) = (if c = c' then insert k (having c col) else having c col - {k})"
  by auto

lemma visit_frame:
  "visit g node col = Inr c \<Longrightarrow> dget col node = Some WHITE \<Longrightarrow>
     having GREY c = having GREY col \<and> insert node (having BLACK col) \<subseteq> having BLACK c
     \<and> dom (dget c) = dom (dget col)"
  "visit_deps g node deps col = Inr c \<Longrightarrow>
     having GREY c = having GREY col \<and> having BLACK col \<union> set deps \<subseteq> having BLACK c
     \<and> dom (dget c) = dom (dget col)"
proof (induction g node col and g node deps col arbitrary: c and c rule: visit_visit_deps.induct)
  case (1 g node col)
  then obtain ds c' where d: "dget g node = Some ds"
    "visit_deps g node ds (dset node GREY col) = Inr c'" "c = dset node BLACK c'"
    by (auto simp: visit.simps result_simps split: option.splits)
  have ih: "having GREY c' = having GREY (dset node GREY col) \<and>
      having BLACK (dset node GREY col) \<union> set ds \<subseteq> having BLACK c'
      \<and> dom (dget c') = dom (dget (dset node GREY col))"
    by (rule "1.IH" [OF d(1,2)])
  have n: "node \<in> dom (dget col)" using "1.prems" by auto
  have D: "dom (dget c) = dom (dget col)"
    using ih n by (simp add: d(3) insert_absorb)
  have "having GREY c = having GREY col \<and> insert node (having BLACK col) \<subseteq> having BLACK c"
    using ih "1.prems"(2) unfolding d(3) having_dset by auto
  with D show ?case by blast
next
  case (2 g node col)
  then show ?case by (simp add: visit_deps.simps)
next
  case (3 g node dep deps col)
  show ?case
  proof (cases "dget col dep = Some WHITE")
    case True
    then obtain c' where c': "visit g dep col = Inr c'" "visit_deps g node deps c' = Inr c"
      using "3.prems" by (auto simp: visit_deps.simps result_simps)
    show ?thesis
      using "3.IH"(1) [OF True refl c'(1) True] "3.IH"(2) [OF True refl c'] by auto
  next
    case False
    then have b: "dget col dep = Some BLACK" "visit_deps g node deps col = Inr c"
      using "3.prems" by (auto simp: visit_deps.simps split: option.splits color.splits)
    show ?thesis using "3.IH"(3) [OF b(1) refl b(2)] b(1) by auto
  qed
qed


lemma visit_cycle_sound:
  "visit g node col = Inl (SpecError (DependencyCycle a b)) \<Longrightarrow> dget col node = Some WHITE \<Longrightarrow>
     having GREY col \<subseteq> {x. (x, node) \<in> (edges g)\<^sup>*} \<Longrightarrow> (a, b) \<in> edges g \<and> (b, a) \<in> (edges g)\<^sup>*"
  "visit_deps g node deps col = Inl (SpecError (DependencyCycle a b)) \<Longrightarrow>
     set deps \<subseteq> edges g `` {node} \<Longrightarrow> having GREY col \<subseteq> {x. (x, node) \<in> (edges g)\<^sup>*} \<Longrightarrow>
     (a, b) \<in> edges g \<and> (b, a) \<in> (edges g)\<^sup>*"
proof (induction g node col and g node deps col rule: visit_visit_deps.induct)
  case (1 g node col)
  then obtain ds where d: "dget g node = Some ds"
    "visit_deps g node ds (dset node GREY col) = Inl (SpecError (DependencyCycle a b))"
    by (auto simp: visit.simps result_simps split: option.splits)
  show ?case
    by (rule "1.IH" [OF d]) (use d "1.prems"(3) in \<open>auto simp: edges_def\<close>)
next
  case (2 g node col)
  then show ?case by (simp add: visit_deps.simps)
next
  case (3 g node dep deps col)
  have e: "(node, dep) \<in> edges g" using "3.prems"(2) by auto
  consider (cyc) "dget col dep = Some GREY" "a = node" "b = dep"
    | (inner) "dget col dep = Some WHITE" "visit g dep col = Inl (SpecError (DependencyCycle a b))"
    | (after) c where "dget col dep = Some WHITE" "visit g dep col = Inr c"
        "visit_deps g node deps c = Inl (SpecError (DependencyCycle a b))"
    | (skip) "dget col dep = Some BLACK"
        "visit_deps g node deps col = Inl (SpecError (DependencyCycle a b))"
    using "3.prems"(1)
    by (auto simp: visit_deps.simps result_simps split: option.splits color.splits)
  then show ?case
  proof cases
    case cyc
    then show ?thesis using "3.prems"(3) e by auto
  next
    case inner
    show ?thesis
      by (rule "3.IH"(1) [OF inner(1) refl inner(2) inner(1)])
         (use "3.prems"(3) e in \<open>auto intro: rtrancl_into_rtrancl\<close>)
  next
    case after
    show ?thesis
      by (rule "3.IH"(2) [OF after(1) refl after(2,3)])
         (use "3.prems"(2,3) visit_frame(1) [OF after(2,1)] in auto)
  next
    case skip
    show ?thesis
      by (rule "3.IH"(3) [OF skip(1) refl skip(2)]) (use "3.prems"(2,3) in auto)
  qed
qed

text \<open>What the search keeps of the finished (black) nodes.\<close>

definition settled :: "graph \<Rightarrow> string set \<Rightarrow> bool" where
  "settled g B \<longleftrightarrow> edges g `` B \<subseteq> B \<and> acyclic (edges g \<inter> B \<times> UNIV)"

lemma settled_insert:
  assumes "settled g B" and "node \<notin> B" and "edges g `` {node} \<subseteq> B"
  shows "settled g (insert node B)"
proof -
  let ?R = "edges g \<inter> B \<times> UNIV" and ?S = "edges g \<inter> {node} \<times> UNIV"
  have closed: "(x, y) \<in> ?R\<^sup>* \<Longrightarrow> x \<in> B \<Longrightarrow> y \<in> B" for x y
    by (induction rule: rtrancl_induct) (use assms(1) in \<open>auto simp: settled_def\<close>)
  have into: "(x, y) \<in> (?R \<union> ?S)\<^sup>+ \<Longrightarrow> x \<in> B \<Longrightarrow> (x, y) \<in> ?R\<^sup>+ \<and> y \<in> B" for x y
  proof (induction rule: trancl_induct)
    case (base y)
    then show ?case using assms by (auto simp: settled_def)
  next
    case (step y z)
    then have "(y, z) \<in> ?R" using assms(2) by auto
    then show ?case using step assms(1) by (auto simp: settled_def intro: trancl_into_trancl)
  qed
  have "acyclic (?R \<union> ?S)"
  proof (rule acyclicI, rule allI, rule notI)
    fix x assume c: "(x, x) \<in> (?R \<union> ?S)\<^sup>+"
    then obtain y where y: "(x, y) \<in> ?R \<union> ?S" "(y, x) \<in> (?R \<union> ?S)\<^sup>*"
      by (auto dest: tranclD)
    have "y \<in> B" using y(1) assms by (auto simp: settled_def)
    then have "x \<in> B" using y(2) into by (auto simp: rtrancl_eq_or_trancl)
    then have "(x, x) \<in> ?R\<^sup>+" using into c by blast
    then show False using assms(1) by (auto simp: settled_def acyclic_def)
  qed
  moreover have "edges g \<inter> insert node B \<times> UNIV = ?R \<union> ?S" by auto
  ultimately show ?thesis using assms by (auto simp: settled_def)
qed

lemma visit_settled:
  "visit g node col = Inr c \<Longrightarrow> dget col node = Some WHITE \<Longrightarrow>
     settled g (having BLACK col) \<Longrightarrow> settled g (having BLACK c)"
  "visit_deps g node deps col = Inr c \<Longrightarrow>
     settled g (having BLACK col) \<Longrightarrow> settled g (having BLACK c)"
proof (induction g node col and g node deps col arbitrary: c and c rule: visit_visit_deps.induct)
  case (1 g node col)
  then obtain ds c' where d: "dget g node = Some ds"
    "visit_deps g node ds (dset node GREY col) = Inr c'" "c = dset node BLACK c'"
    by (auto simp: visit.simps result_simps split: option.splits)
  have b: "having BLACK (dset node GREY col) = having BLACK col"
    using "1.prems"(2) by auto
  have s: "settled g (having BLACK c')"
    by (rule "1.IH" [OF d(1,2)]) (simp only: b "1.prems"(3))
  have f: "having GREY c' = having GREY (dset node GREY col)" "set ds \<subseteq> having BLACK c'"
    using visit_frame(2) [OF d(2)] by auto
  have "node \<in> having GREY c'" unfolding f(1) by simp
  then have "settled g (insert node (having BLACK c'))"
    by (intro settled_insert s) (use f(2) d(1) in \<open>auto simp: edges_def\<close>)
  then show ?case by (simp only: d(3) having_dset refl if_True)
next
  case (2 g node col)
  then show ?case by (simp add: visit_deps.simps)
next
  case (3 g node dep deps col)
  show ?case
  proof (cases "dget col dep = Some WHITE")
    case True
    then obtain c' where c': "visit g dep col = Inr c'" "visit_deps g node deps c' = Inr c"
      using "3.prems" by (auto simp: visit_deps.simps result_simps)
    show ?thesis
      by (rule "3.IH"(2) [OF True refl c' "3.IH"(1) [OF True refl c'(1) True "3.prems"(2)]])
  next
    case False
    then have b: "dget col dep = Some BLACK" "visit_deps g node deps col = Inr c"
      using "3.prems" by (auto simp: visit_deps.simps split: option.splits color.splits)
    show ?thesis by (rule "3.IH"(3) [OF b(1) refl b(2) "3.prems"(2)])
  qed
qed

text \<open>With every node and dependency in the colour table, a cycle is the only failure.\<close>

definition closed_graph :: "graph \<Rightarrow> (string, color) dict \<Rightarrow> bool" where
  "closed_graph g col \<longleftrightarrow> dom (dget col) = dom (dget g) \<and> edges g `` UNIV \<subseteq> dom (dget g)"

lemma visit_fails_only_on_cycle:
  "visit g node col = Inl e \<Longrightarrow> closed_graph g col \<Longrightarrow> dget col node = Some WHITE \<Longrightarrow>
     \<exists>a b. e = SpecError (DependencyCycle a b)"
  "visit_deps g node deps col = Inl e \<Longrightarrow> closed_graph g col \<Longrightarrow> set deps \<subseteq> dom (dget g) \<Longrightarrow>
     \<exists>a b. e = SpecError (DependencyCycle a b)"
proof (induction g node col and g node deps col rule: visit_visit_deps.induct)
  case (1 g node col)
  have n: "node \<in> dom (dget g)" using "1.prems"(2,3) by (auto simp: closed_graph_def)
  then obtain ds where d: "dget g node = Some ds" "visit_deps g node ds (dset node GREY col) = Inl e"
    using "1.prems"(1) by (auto simp: visit.simps result_simps split: option.splits)
  show ?case
    by (rule "1.IH" [OF d])
       (use "1.prems"(2) d(1) n in \<open>fastforce simp: closed_graph_def edges_def insert_absorb\<close>)+
next
  case (2 g node col)
  then show ?case by (simp add: visit_deps.simps)
next
  case (3 g node dep deps col)
  have "dep \<in> dom (dget col)" using "3.prems"(2,3) by (auto simp: closed_graph_def)
  then consider (cyc) "e = SpecError (DependencyCycle node dep)"
    | (inner) "dget col dep = Some WHITE" "visit g dep col = Inl e"
    | (after) c where "dget col dep = Some WHITE" "visit g dep col = Inr c"
        "visit_deps g node deps c = Inl e"
    | (skip) "dget col dep = Some BLACK" "visit_deps g node deps col = Inl e"
    using "3.prems"(1)
    by (auto simp: visit_deps.simps result_simps split: option.splits color.splits)
  then show ?case
  proof cases
    case inner
    show ?thesis by (rule "3.IH"(1) [OF inner(1) refl inner(2) "3.prems"(2) inner(1)])
  next
    case after
    show ?thesis
      by (rule "3.IH"(2) [OF after(1) refl after(2,3)])
         (use "3.prems"(2,3) visit_frame(1) [OF after(2,1)] in \<open>auto simp: closed_graph_def\<close>)
  next
    case skip
    show ?thesis
      by (rule "3.IH"(3) [OF skip(1) refl skip(2)]) (use "3.prems"(2,3) in auto)
  qed auto
qed


lemma visit_all_ok:
  "visit_all g tids col = Inr c \<Longrightarrow> having GREY col = {} \<Longrightarrow> settled g (having BLACK col) \<Longrightarrow>
     settled g (having BLACK c) \<and> set tids \<subseteq> having BLACK c \<and> having BLACK col \<subseteq> having BLACK c"
proof (induction g tids col arbitrary: c rule: visit_all.induct)
  case (2 g tid tids col)
  show ?case
  proof (cases "dget col tid = Some WHITE")
    case True
    then obtain c' where c': "visit g tid col = Inr c'" "visit_all g tids c' = Inr c"
      using "2.prems" by (auto simp: result_simps)
    have f: "having GREY c' = having GREY col" "insert tid (having BLACK col) \<subseteq> having BLACK c'"
      using visit_frame(1) [OF c'(1) True] by auto
    have "settled g (having BLACK c) \<and> set tids \<subseteq> having BLACK c \<and> having BLACK c' \<subseteq> having BLACK c"
      by (rule "2.IH"(1) [OF True refl c' _ visit_settled(1) [OF c'(1) True "2.prems"(3)]])
         (simp only: f(1) "2.prems"(2))
    then show ?thesis using f(2) by auto
  next
    case False
    have "dget col tid \<noteq> Some GREY" using "2.prems"(2) by blast
    then have b: "dget col tid = Some BLACK" "visit_all g tids col = Inr c"
      using False "2.prems"(1) by (auto split: option.splits color.splits)
    show ?thesis using "2.IH"(3) [OF b(1) refl b(2) "2.prems"(2,3)] b(1) by auto
  qed
qed auto

lemma visit_all_cycle:
  "visit_all g tids col = Inl e \<Longrightarrow> having GREY col = {} \<Longrightarrow> closed_graph g col \<Longrightarrow>
     set tids \<subseteq> dom (dget g) \<Longrightarrow>
     \<exists>a b. e = SpecError (DependencyCycle a b) \<and> (a, b) \<in> edges g \<and> (b, a) \<in> (edges g)\<^sup>*"
proof (induction g tids col rule: visit_all.induct)
  case (2 g tid tids col)
  have k: "tid \<in> dom (dget col)" using "2.prems"(3,4) by (auto simp: closed_graph_def)
  show ?case
  proof (cases "dget col tid = Some WHITE")
    case True
    show ?thesis
    proof (cases "visit g tid col")
      case (Inl e')
      then have e: "visit g tid col = Inl e" using True "2.prems"(1) by simp
      then obtain a b where "e = SpecError (DependencyCycle a b)"
        using visit_fails_only_on_cycle(1) [OF _ "2.prems"(3) True] by blast
      then show ?thesis
        using visit_cycle_sound(1) [OF _ True, of g a b] e "2.prems"(2) by blast
    next
      case (Inr c')
      have f: "having GREY c' = having GREY col" "dom (dget c') = dom (dget col)"
        using visit_frame(1) [OF Inr True] by auto
      show ?thesis
        by (rule "2.IH"(1) [OF True refl Inr])
           (use "2.prems" True Inr f in \<open>auto simp: closed_graph_def\<close>)
    qed
  next
    case False
    have "dget col tid \<noteq> Some GREY" using "2.prems"(2) by blast
    then have b: "dget col tid = Some BLACK" "visit_all g tids col = Inl e"
      using False "2.prems"(1) k by (auto split: option.splits color.splits)
    show ?thesis using "2.IH"(3) [OF b(1) refl b(2) "2.prems"(2,3)] "2.prems"(4) by auto
  qed
qed auto


section \<open>What validate accepts\<close>

definition dep_rel :: "workflow \<Rightarrow> (string \<times> string) set" where
  "dep_rel w = {(d, n). d \<in> set (deps_of w n)}"

definition provider_known :: "workflow \<Rightarrow> task \<Rightarrow> bool" where
  "provider_known w t \<longleftrightarrow> \<not> truthy (tk_provider t)
     \<or> (\<exists>p. tk_provider t = JStr p \<and> dget (wf_providers w) p \<noteq> None)"

definition well_formed :: "workflow \<Rightarrow> bool" where
  "well_formed w \<longleftrightarrow> distinct (task_ids w)
     \<and> (\<forall>t \<in> set (wf_tasks w). set (tk_depends_on t) \<subseteq> set (task_ids w) \<and> provider_known w t)
     \<and> acyclic (dep_rel w)"

lemma dget_task_map:
  assumes "distinct (task_ids w)"
  shows "dget (task_map w) n = Some t \<longleftrightarrow> t \<in> set (wf_tasks w) \<and> tk_id t = n"
proof -
  have d: "distinct (dkeys (map (\<lambda>t. (tk_id t, t)) (wf_tasks w)))"
    using assms by (simp add: comp_def)
  then show ?thesis
    by (auto simp: task_map_def dict_of_distinct)
qed

lemma dget_task_map_None: "dget (task_map w) n = None \<longleftrightarrow> n \<notin> set (task_ids w)"
  by (auto simp: task_map_def dget_dict_of map_of_eq_None_iff image_image)

lemma dget_dep_graph: "dget (dep_graph w) = map_option tk_depends_on \<circ> dget (task_map w)"
proof -
  have e: "rev (map (\<lambda>t. (tk_id t, tk_depends_on t)) ts) =
      map (\<lambda>(k, t). (k, tk_depends_on t)) (rev (map (\<lambda>t. (tk_id t, t)) ts))" for ts
    by (induction ts) auto
  show ?thesis
    unfolding dep_graph_def task_map_def dget_dict_of e by (rule map_of_map)
qed

lemma dom_dep_graph: "dom (dget (dep_graph w)) = set (task_ids w)"
  using dget_task_map_None [of w] by (auto simp: dget_dep_graph dom_def)

lemma deps_of_graph: "deps_of w n = (case dget (dep_graph w) n of None \<Rightarrow> [] | Some ds \<Rightarrow> ds)"
  by (auto simp: deps_of_def dget_dep_graph split: option.splits)

lemma edges_dep_graph: "edges (dep_graph w) = (dep_rel w)\<inverse>"
  by (auto simp: edges_def dep_rel_def deps_of_graph split: option.splits) (metis option.inject)+

lemma deps_of_task: "distinct (task_ids w) \<Longrightarrow> t \<in> set (wf_tasks w) \<Longrightarrow> deps_of w (tk_id t) = tk_depends_on t"
  using dget_task_map [of w "tk_id t" t] by (simp add: deps_of_def)

lemma deps_of_unknown: "n \<notin> set (task_ids w) \<Longrightarrow> deps_of w n = []"
  using dget_task_map_None [of w n] by (simp add: deps_of_def)

lemma check_deps_ok: "check_deps A tid ds = Inr () \<longleftrightarrow> set ds \<subseteq> A"
  by (induction A tid ds rule: check_deps.induct) auto

lemma check_provider_ok: "check_provider w t = Inr () \<longleftrightarrow> provider_known w t"
  by (auto simp: check_provider_def provider_known_def split: json.splits)

lemma check_tasks_ok:
  "check_tasks w ts = Inr () \<longleftrightarrow>
     (\<forall>t \<in> set ts. set (tk_depends_on t) \<subseteq> set (task_ids w) \<and> provider_known w t)"
  by (induction ts) (simp_all add: result_simps check_deps_ok check_provider_ok)

lemma initial_colors:
  "having GREY (map (\<lambda>(k, ds). (k, WHITE)) g) = {}"
  "having BLACK (map (\<lambda>(k, ds). (k, WHITE)) g) = {}"
  "dom (dget (map (\<lambda>(k, ds). (k, WHITE)) g)) = dom (dget g)"
  by (induction g) (auto split: if_splits)

lemma settled_empty: "settled g {}"
  by (auto simp: settled_def acyclic_def)

lemma assert_acyclic_sound: "assert_acyclic w = Inr () \<Longrightarrow> acyclic (dep_rel w)"
proof -
  assume "assert_acyclic w = Inr ()"
  then obtain c where c: "visit_all (dep_graph w) (dkeys (dep_graph w))
      (map (\<lambda>(k, ds). (k, WHITE)) (dep_graph w)) = Inr c"
    by (auto simp: assert_acyclic_def Let_def result_simps)
  have "settled (dep_graph w) (having BLACK c)" "fst ` set (dep_graph w) \<subseteq> having BLACK c"
    using visit_all_ok [OF c] by (simp_all add: initial_colors settled_empty)
  moreover have "edges (dep_graph w) \<subseteq> fst ` set (dep_graph w) \<times> UNIV"
    by (force simp: edges_def dest: map_of_SomeD)
  ultimately have "edges (dep_graph w) \<inter> having BLACK c \<times> UNIV = edges (dep_graph w)"
    by blast
  then have "acyclic (edges (dep_graph w))"
    using \<open>settled (dep_graph w) (having BLACK c)\<close> by (simp add: settled_def)
  then show ?thesis by (simp add: edges_dep_graph)
qed

lemma assert_acyclic_cycle:
  assumes "assert_acyclic w = Inl e"
    and "\<forall>t \<in> set (wf_tasks w). set (tk_depends_on t) \<subseteq> set (task_ids w)"
  shows "\<exists>a b. e = SpecError (DependencyCycle a b) \<and> (b, a) \<in> dep_rel w \<and> (a, b) \<in> (dep_rel w)\<^sup>*"
proof -
  let ?g = "dep_graph w" and ?col = "map (\<lambda>(k, ds). (k, WHITE)) (dep_graph w)"
  have f: "visit_all ?g (dkeys ?g) ?col = Inl e"
    using assms(1) by (auto simp: assert_acyclic_def Let_def result_simps)
  have "edges ?g `` UNIV \<subseteq> dom (dget ?g)"
  proof
    fix d assume "d \<in> edges ?g `` UNIV"
    then obtain n ds where n: "dget ?g n = Some ds" "d \<in> set ds" by (auto simp: edges_def)
    then obtain t where "dget (task_map w) n = Some t" "ds = tk_depends_on t"
      by (auto simp: dget_dep_graph)
    moreover then have "t \<in> set (wf_tasks w)"
      by (auto simp: task_map_def dget_dict_of dest!: map_of_SomeD)
    ultimately show "d \<in> dom (dget ?g)" using assms(2) n(2) by (auto simp: dom_dep_graph)
  qed
  then have "closed_graph ?g ?col" by (simp add: closed_graph_def initial_colors)
  moreover have "set (dkeys ?g) \<subseteq> dom (dget ?g)" by (simp add: dom_map_of_conv_image_fst)
  ultimately obtain a b where "e = SpecError (DependencyCycle a b)"
    "(a, b) \<in> edges ?g" "(b, a) \<in> (edges ?g)\<^sup>*"
    using visit_all_cycle [OF f] initial_colors(1) by blast
  then show ?thesis by (auto simp: edges_dep_graph rtrancl_converse)
qed

lemma acyclic_no_cycle: "acyclic r \<Longrightarrow> (b, a) \<in> r \<Longrightarrow> (a, b) \<notin> r\<^sup>*"
  by (auto simp: acyclic_def dest: rtrancl_into_trancl2)

lemma validate_iff: "validate w = Inr w \<longleftrightarrow> well_formed w"
proof
  assume "validate w = Inr w"
  then have "distinct (task_ids w)" "check_tasks w (wf_tasks w) = Inr ()" "assert_acyclic w = Inr ()"
    by (auto simp: validate_def result_simps card_distinct split: if_splits)
  then show "well_formed w"
    by (simp add: well_formed_def check_tasks_ok assert_acyclic_sound)
next
  assume w: "well_formed w"
  then have c: "check_tasks w (wf_tasks w) = Inr ()" by (simp add: well_formed_def check_tasks_ok)
  have "assert_acyclic w = Inr ()"
  proof (cases "assert_acyclic w")
    case (Inl e)
    then show ?thesis
      using assert_acyclic_cycle [OF Inl] w acyclic_no_cycle [of "dep_rel w"]
      by (auto simp: well_formed_def)
  qed simp
  then show "validate w = Inr w"
    using w c distinct_card [of "task_ids w"] by (simp add: validate_def well_formed_def)
qed

lemma validate_result: "validate w = Inr v \<Longrightarrow> v = w \<and> well_formed w"
proof -
  assume v: "validate w = Inr v"
  then have "v = w" by (auto simp: validate_def result_simps split: if_splits)
  with v show ?thesis by (simp add: validate_iff)
qed

section \<open>The interface of a dependency graph\<close>

locale task_dag =
  fixes ok :: "'w \<Rightarrow> bool"
    and nodes :: "'w \<Rightarrow> 'n list"
    and deps :: "'w \<Rightarrow> 'n \<Rightarrow> 'n list"
  assumes deps_nodes: "ok w \<Longrightarrow> set (deps w n) \<subseteq> set (nodes w)"
    and deps_outside: "n \<notin> set (nodes w) \<Longrightarrow> deps w n = []"
    and deps_acyclic: "ok w \<Longrightarrow> acyclic {(d, n). d \<in> set (deps w n)}"
begin

lemma dep_finite: "ok w \<Longrightarrow> finite {(d, n). d \<in> set (deps w n)}"
proof -
  assume w: "ok w"
  then have "{(d, n). d \<in> set (deps w n)} \<subseteq> set (nodes w) \<times> set (nodes w)"
    using deps_nodes deps_outside by fastforce
  then show ?thesis by (rule finite_subset) simp
qed

lemma dep_wf: "ok w \<Longrightarrow> wf {(d, n). d \<in> set (deps w n)}"
  by (simp add: finite_acyclic_wf dep_finite deps_acyclic)

lemma dep_induct: "ok w \<Longrightarrow> (\<And>n. (\<And>d. d \<in> set (deps w n) \<Longrightarrow> P d) \<Longrightarrow> P n) \<Longrightarrow> P n"
  by (rule wf_induct_rule [OF dep_wf]) auto

lemma no_self_dep: "ok w \<Longrightarrow> n \<notin> set (deps w n)"
  by (rule notI) (use deps_acyclic in \<open>auto simp: acyclic_def\<close>)

lemma ancestors_finite: "ok w \<Longrightarrow> finite {m. (m, n) \<in> {(d, n). d \<in> set (deps w n)}\<^sup>+}"
proof -
  assume w: "ok w"
  let ?r = "{(d, n). d \<in> set (deps w n)}"
  have "finite (Domain (?r\<^sup>+))" by (simp only: trancl_domain finite_Domain dep_finite [OF w])
  moreover have "{m. (m, n) \<in> ?r\<^sup>+} \<subseteq> Domain (?r\<^sup>+)" by blast
  ultimately show ?thesis by (rule finite_subset [rotated])
qed

text \<open>The number of ancestors ranks the nodes: a dependency has fewer, and none has as many
  as there are nodes.\<close>

lemma rank_dep:
  assumes w: "ok w" and d: "d \<in> set (deps w n)"
  shows "card {m. (m, d) \<in> {(d, n). d \<in> set (deps w n)}\<^sup>+} < card {m. (m, n) \<in> {(d, n). d \<in> set (deps w n)}\<^sup>+}"
proof (rule psubset_card_mono [OF ancestors_finite [OF w]])
  let ?r = "{(d, n). d \<in> set (deps w n)}"
  have "(d, n) \<in> ?r" using d by simp
  then have "{m. (m, d) \<in> ?r\<^sup>+} \<subseteq> {m. (m, n) \<in> ?r\<^sup>+}" "d \<in> {m. (m, n) \<in> ?r\<^sup>+}"
    by (auto intro: trancl_into_trancl)
  moreover have "d \<notin> {m. (m, d) \<in> ?r\<^sup>+}" using deps_acyclic [OF w] by (auto simp: acyclic_def)
  ultimately show "{m. (m, d) \<in> ?r\<^sup>+} \<subset> {m. (m, n) \<in> ?r\<^sup>+}" by blast
qed

lemma rank_bound:
  assumes w: "ok w" and n: "n \<in> set (nodes w)"
  shows "card {m. (m, n) \<in> {(d, n). d \<in> set (deps w n)}\<^sup>+} < length (nodes w)"
proof -
  let ?r = "{(d, n). d \<in> set (deps w n)}"
  have "(m, n) \<in> ?r\<^sup>+ \<Longrightarrow> m \<in> set (nodes w)" for m
    by (induction rule: converse_trancl_induct) (use deps_nodes [OF w] in auto)
  then have "{m. (m, n) \<in> ?r\<^sup>+} \<subseteq> set (nodes w) - {n}"
    using deps_acyclic [OF w] by (auto simp: acyclic_def)
  then have "card {m. (m, n) \<in> ?r\<^sup>+} \<le> card (set (nodes w) - {n})"
    by (intro card_mono) auto
  also have "\<dots> < card (set (nodes w))" using n by (intro psubset_card_mono) auto
  also have "\<dots> \<le> length (nodes w)" by (rule card_length)
  finally show ?thesis .
qed

end

interpretation dag: task_dag well_formed task_ids deps_of
proof unfold_locales
  fix w n
  assume w: "well_formed w"
  show "set (deps_of w n) \<subseteq> set (task_ids w)"
  proof (cases "dget (task_map w) n")
    case (Some t)
    then have "t \<in> set (wf_tasks w)" using w dget_task_map [of w n t] by (simp add: well_formed_def)
    then show ?thesis using w Some by (auto simp: deps_of_def well_formed_def)
  qed (simp add: deps_of_def)
  show "acyclic {(d, n). d \<in> set (deps_of w n)}"
    using w by (simp add: well_formed_def dep_rel_def)
qed (simp add: deps_of_unknown)

section \<open>What a caller sees\<close>

text \<open>C18. Validation accepts exactly the well-formed workflows (distinct ids, known dependencies
  and providers, no dependency cycle) and returns the workflow itself.\<close>

theorem validate_exact: "validate w = Inr v \<longleftrightarrow> well_formed w \<and> v = w"
proof
  assume v: "validate w = Inr v"
  then have "v = w" by (auto simp: validate_def result_simps split: if_splits)
  with v show "well_formed w \<and> v = w" by (simp add: validate_iff)
qed (simp add: validate_iff)

lemma check_deps_error:
  "check_deps A tid ds = Inl e \<Longrightarrow> \<exists>d \<in> set ds. d \<notin> A \<and> e = SpecError (UnknownDependency tid d)"
  by (induction A tid ds rule: check_deps.induct) (auto split: if_splits)

lemma check_provider_error:
  "check_provider w t = Inl e \<Longrightarrow> \<not> provider_known w t
     \<and> (e = TypeError \<or> e = SpecError (UnknownProvider (tk_id t) (tk_provider t)))"
  by (auto simp: check_provider_def provider_known_def split: if_splits json.splits)

lemma check_tasks_error:
  "check_tasks w ts = Inl e \<Longrightarrow> \<exists>t \<in> set ts.
     (\<exists>d \<in> set (tk_depends_on t). d \<notin> set (task_ids w) \<and> e = SpecError (UnknownDependency (tk_id t) d))
   \<or> (\<not> provider_known w t \<and> (e = TypeError \<or> e = SpecError (UnknownProvider (tk_id t) (tk_provider t))))"
proof (induction w ts rule: check_tasks.induct)
  case (2 w t ts)
  then show ?case
    by (fastforce simp: rbind_eq_Inl dest: check_deps_error check_provider_error)
qed simp

text \<open>C19. Every complaint is justified: a duplicate id, a dependency on a task that does not exist,
  a provider that is not declared, or two tasks on a cycle of dependencies.\<close>

theorem validate_complaint:
  assumes "validate w = Inl e"
  shows "e = SpecError DuplicateIds \<and> \<not> distinct (task_ids w)
    \<or> (\<exists>t \<in> set (wf_tasks w).
          (\<exists>d \<in> set (tk_depends_on t). d \<notin> set (task_ids w) \<and> e = SpecError (UnknownDependency (tk_id t) d))
        \<or> (\<not> provider_known w t \<and> (e = TypeError \<or> e = SpecError (UnknownProvider (tk_id t) (tk_provider t)))))
    \<or> (\<exists>a b. e = SpecError (DependencyCycle a b) \<and> (b, a) \<in> dep_rel w \<and> (a, b) \<in> (dep_rel w)\<^sup>*)"
proof (cases "length (task_ids w) = card (set (task_ids w))")
  case False
  then have "\<not> distinct (task_ids w)" by (auto dest: distinct_card)
  then show ?thesis using assms False by (simp add: validate_def)
next
  case True
  show ?thesis
  proof (cases "check_tasks w (wf_tasks w)")
    case (Inl e')
    then have "e' = e" using assms True by (simp add: validate_def)
    then show ?thesis using check_tasks_error [OF Inl] by blast
  next
    case (Inr u)
    then have "check_tasks w (wf_tasks w) = Inr ()" by simp
    then have "\<forall>t \<in> set (wf_tasks w). set (tk_depends_on t) \<subseteq> set (task_ids w)"
      unfolding check_tasks_ok by blast
    moreover have "assert_acyclic w = Inl e"
      using assms True Inr by (auto simp: validate_def rbind_eq_Inl split: if_splits)
    ultimately show ?thesis using assert_acyclic_cycle by blast
  qed
qed

definition cyclic_workflow :: workflow where
  "cyclic_workflow =
     \<lparr>wf_name = JStr ''loop'',
      wf_tasks = map (\<lambda>(i, ds). \<lparr>tk_id = i, tk_skill = JStr ''s'', tk_provider = JNull, tk_depends_on = ds,
        tk_inputs = [], tk_retry = None, tk_timeout = None, tk_on_error = JNull, tk_idempotent = False\<rparr>)
        [(''a'', [''b'']), (''b'', [''a''])],
      wf_version = 1, wf_max_parallel = 8, wf_rate_limit = None, wf_providers = [],
      wf_default_retry = None, wf_default_timeout = None, wf_default_on_error = JStr ''fail_fast'',
      wf_inputs_schema = JObj [], wf_output = JNull\<rparr>"

theorem validate_complaint_witness:
  "validate cyclic_workflow = Inl (SpecError (DependencyCycle ''b'' ''a''))
     \<and> (''a'', ''b'') \<in> dep_rel cyclic_workflow"
proof -
  have v: "validate cyclic_workflow = Inl (SpecError (DependencyCycle ''b'' ''a''))" by code_simp
  from validate_complaint [OF v] show ?thesis using v by auto
qed

end
