(* ===== verification/Template.thy ===== *)
theory Template
  imports Py_Values
begin

text \<open>
  \<open>resolve_template\<close> and \<open>_lookup\<close> of \<open>sdk-python/orchestrator/spec.py\<close>: the references
  \<open>${...}\<close> of a value, resolved against a scope. The lemmas say which references a value has
  (\<open>refs_of\<close>), that resolution succeeds exactly when each of them does, and that it depends
  on no other part of the scope.
\<close>

section \<open>Finding references\<close>

text \<open>\<open>[^}]+\<close> and the closing brace: everything before the first \<open>}\<close>.\<close>

fun until_close :: "string \<Rightarrow> (string \<times> string) option" where
  "until_close [] = None"
| "until_close (c # cs) =
     (if c = CHR ''}'' then Some ([], cs)
      else map_option (\<lambda>(b, r). (c # b, r)) (until_close cs))"

text \<open>A match of \<open>_TEMPLATE_RE\<close> at the start of the string: the group and the rest.\<close>

definition match_ref :: "string \<Rightarrow> (string \<times> string) option" where
  "match_ref s =
     (case s of
        d # o' # rest \<Rightarrow>
          if d = CHR ''$'' \<and> o' = CHR ''{'' then
            (case until_close rest of
               None \<Rightarrow> None
             | Some (b, r) \<Rightarrow> if b = [] then None else Some (b, r))
          else None
      | _ \<Rightarrow> None)"

datatype seg = Lit char | Ref string

lemma until_close_eq: "until_close s = Some (b, r) \<longleftrightarrow> s = b @ CHR ''}'' # r \<and> CHR ''}'' \<notin> set b"
proof (induction s arbitrary: b)
  case (Cons c cs)
  then show ?case by (cases b) auto
qed auto

lemma match_ref_eq:
  "match_ref s = Some (b, r) \<longleftrightarrow> s = ''${'' @ b @ CHR ''}'' # r \<and> b \<noteq> [] \<and> CHR ''}'' \<notin> set b"
proof
  assume "match_ref s = Some (b, r)"
  then show "s = ''${'' @ b @ CHR ''}'' # r \<and> b \<noteq> [] \<and> CHR ''}'' \<notin> set b"
    by (auto simp: match_ref_def until_close_eq split: list.splits option.splits if_splits)
next
  assume a: "s = ''${'' @ b @ CHR ''}'' # r \<and> b \<noteq> [] \<and> CHR ''}'' \<notin> set b"
  then have "until_close (b @ CHR ''}'' # r) = Some (b, r)" by (simp add: until_close_eq)
  with a show "match_ref s = Some (b, r)" by (simp add: match_ref_def)
qed

lemma match_ref_shorter: "match_ref s = Some (b, r) \<Longrightarrow> length r < length s"
  by (simp add: match_ref_eq)

text \<open>The matches \<open>re.sub\<close> replaces, from left to right, and the characters between them.\<close>

function segments :: "string \<Rightarrow> seg list" where
  "segments [] = []"
| "segments (c # cs) =
     (case match_ref (c # cs) of
        Some (b, r) \<Rightarrow> Ref b # segments r
      | None \<Rightarrow> Lit c # segments cs)"
  by pat_completeness auto
termination
  by (relation "measure length") (auto dest: match_ref_shorter)

text \<open>The characters a segment stands for.\<close>

fun seg_source :: "seg \<Rightarrow> string" where
  "seg_source (Lit c) = [c]"
| "seg_source (Ref b) = ''${'' @ b @ ''}''"

section \<open>Resolution\<close>

fun lookup_parts :: "string \<Rightarrow> string list \<Rightarrow> json \<Rightarrow> json res" where
  "lookup_parts path [] node = Inr node"
| "lookup_parts path (p # ps) node =
     (case node of
        JObj kvs \<Rightarrow>
          (case dget kvs p of
             Some v \<Rightarrow> lookup_parts path ps v
           | None \<Rightarrow> Inl (SpecError (UnresolvedReference path)))
      | _ \<Rightarrow> Inl (SpecError (UnresolvedReference path)))"

definition lookup_ref :: "string \<Rightarrow> (string, json) dict \<Rightarrow> json res" where
  "lookup_ref path scope = lookup_parts path (split_on CHR ''.'' path) (JObj scope)"

definition text_of :: "(rat \<Rightarrow> string) \<Rightarrow> json \<Rightarrow> string" where
  "text_of fr v = (case v of JStr s \<Rightarrow> s | _ \<Rightarrow> json_dumps fr v)"

fun subst_seg :: "(rat \<Rightarrow> string) \<Rightarrow> (string, json) dict \<Rightarrow> seg \<Rightarrow> string res" where
  "subst_seg fr scope (Lit c) = Inr [c]"
| "subst_seg fr scope (Ref b) = rmap (text_of fr) (lookup_ref (strip b) scope)"

definition resolve_string :: "(rat \<Rightarrow> string) \<Rightarrow> (string, json) dict \<Rightarrow> string \<Rightarrow> json res" where
  "resolve_string fr scope s =
     (case match_ref (strip s) of
        Some (b, []) \<Rightarrow> lookup_ref (strip b) scope
      | _ \<Rightarrow> rmap (\<lambda>ws. JStr (concat ws)) (rtraverse (subst_seg fr scope) (segments s)))"

fun resolve_template :: "(rat \<Rightarrow> string) \<Rightarrow> (string, json) dict \<Rightarrow> json \<Rightarrow> json res" where
  "resolve_template fr scope (JObj kvs) =
     rmap JObj (rtraverse (\<lambda>kv. rmap (Pair (fst kv)) (resolve_template fr scope (snd kv))) kvs)"
| "resolve_template fr scope (JArr xs) = rmap JArr (rtraverse (resolve_template fr scope) xs)"
| "resolve_template fr scope (JStr s) = resolve_string fr scope s"
| "resolve_template fr scope v = Inr v"

section \<open>The references of a value\<close>

fun seg_refs :: "seg \<Rightarrow> string list" where
  "seg_refs (Lit c) = []"
| "seg_refs (Ref b) = [strip b]"

definition string_refs :: "string \<Rightarrow> string list" where
  "string_refs s =
     (case match_ref (strip s) of
        Some (b, []) \<Rightarrow> [strip b]
      | _ \<Rightarrow> concat (map seg_refs (segments s)))"

fun refs_of :: "json \<Rightarrow> string list" where
  "refs_of (JObj kvs) = concat (map (\<lambda>kv. refs_of (snd kv)) kvs)"
| "refs_of (JArr xs) = concat (map refs_of xs)"
| "refs_of (JStr s) = string_refs s"
| "refs_of v = []"

text \<open>The scope entry a reference starts from.\<close>

definition ref_head :: "string \<Rightarrow> string" where
  "ref_head path = takeWhile (\<lambda>c. c \<noteq> CHR ''.'') path"

lemma seg_refs_Lit: "concat (map seg_refs (map Lit s)) = []"
  by (induction s) auto

lemma segments_render:
  "concat (map seg_source (segments s)) = s"
proof (induction s rule: segments.induct)
  case (2 c cs)
  show ?case
  proof (cases "match_ref (c # cs)")
    case None
    then show ?thesis using "2.IH"(1) by simp
  next
    case (Some br)
    obtain b r where br: "br = (b, r)" by (cases br)
    then have m: "c # cs = ''${'' @ b @ CHR ''}'' # r" using Some by (simp add: match_ref_eq)
    show ?thesis using "2.IH"(2) [OF Some] Some br m by simp
  qed
qed simp

lemma lookup_ref_head:
  assumes "dget scope (ref_head path) = dget scope' (ref_head path)"
  shows "lookup_ref path scope = lookup_ref path scope'"
proof -
  obtain p ps where s: "split_on CHR ''.'' path = p # ps"
    using split_on_nonempty [of "CHR ''.''" path] by (cases "split_on CHR ''.'' path") auto
  then have "p = ref_head path" using hd_split_on [of "CHR ''.''" path] by (simp add: ref_head_def)
  then show ?thesis using assms by (simp add: lookup_ref_def s)
qed

lemma lookup_parts_error: "lookup_parts path ps v = Inl e \<Longrightarrow> e = SpecError (UnresolvedReference path)"
  by (induction path ps v rule: lookup_parts.induct) (auto split: json.splits option.splits)

lemma rmap_ok: "is_ok (rmap f r) \<longleftrightarrow> is_ok r"
  by (cases r) auto

lemma rtraverse_ok: "is_ok (rtraverse f xs) \<longleftrightarrow> (\<forall>x \<in> set xs. is_ok (f x))"
proof (induction xs)
  case (Cons x xs)
  then show ?case by (cases "f x"; cases "rtraverse f xs") auto
qed simp

lemma resolve_string_ok:
  "is_ok (resolve_string fr scope s) \<longleftrightarrow> (\<forall>p \<in> set (string_refs s). is_ok (lookup_ref p scope))"
proof -
  have "(\<forall>x \<in> set xs. is_ok (subst_seg fr scope x)) \<longleftrightarrow>
      (\<forall>p \<in> set (concat (map seg_refs xs)). is_ok (lookup_ref p scope))" for xs
  proof (induction xs)
    case (Cons x xs)
    then show ?case by (cases x) (auto simp: rmap_ok)
  qed simp
  then show ?thesis
    by (auto simp: resolve_string_def string_refs_def rmap_ok rtraverse_ok
        split: option.splits list.splits)
qed

lemma resolve_ok_iff:
  "is_ok (resolve_template fr scope v) \<longleftrightarrow> (\<forall>p \<in> set (refs_of v). is_ok (lookup_ref p scope))"
  by (induction fr scope v rule: resolve_template.induct)
     (auto simp: rmap_ok rtraverse_ok resolve_string_ok)

lemma resolve_string_cong:
  assumes "\<And>p. p \<in> set (string_refs s) \<Longrightarrow> lookup_ref p scope = lookup_ref p scope'"
  shows "resolve_string fr scope s = resolve_string fr scope' s"
proof (cases "\<exists>b. match_ref (strip s) = Some (b, [])")
  case True
  then show ?thesis using assms by (auto simp: resolve_string_def string_refs_def)
next
  case False
  then have r: "string_refs s = concat (map seg_refs (segments s))"
    by (auto simp: string_refs_def split: option.splits list.splits)
  have "rtraverse (subst_seg fr scope) (segments s) = rtraverse (subst_seg fr scope') (segments s)"
  proof (rule rtraverse_cong [OF refl])
    fix x assume "x \<in> set (segments s)"
    then have "set (seg_refs x) \<subseteq> set (string_refs s)" unfolding r by auto
    then show "subst_seg fr scope x = subst_seg fr scope' x"
      using assms by (cases x) auto
  qed
  then show ?thesis using False
    by (auto simp: resolve_string_def split: option.splits list.splits)
qed

lemma resolve_cong:
  "(\<And>p. p \<in> set (refs_of v) \<Longrightarrow> lookup_ref p scope = lookup_ref p scope') \<Longrightarrow>
     resolve_template fr scope v = resolve_template fr scope' v"
proof (induction fr scope v rule: resolve_template.induct)
  case (1 fr scope kvs)
  have "rtraverse (\<lambda>kv. rmap (Pair (fst kv)) (resolve_template fr scope (snd kv))) kvs =
      rtraverse (\<lambda>kv. rmap (Pair (fst kv)) (resolve_template fr scope' (snd kv))) kvs"
  proof (rule rtraverse_cong [OF refl])
    fix kv assume kv: "kv \<in> set kvs"
    show "rmap (Pair (fst kv)) (resolve_template fr scope (snd kv)) =
        rmap (Pair (fst kv)) (resolve_template fr scope' (snd kv))"
      by (subst "1.IH" [OF kv]) (use kv in \<open>auto intro!: "1.prems"\<close>)
  qed
  then show ?case by simp
next
  case (2 fr scope xs)
  have "rtraverse (resolve_template fr scope) xs = rtraverse (resolve_template fr scope') xs"
  proof (rule rtraverse_cong [OF refl])
    fix x assume x: "x \<in> set xs"
    show "resolve_template fr scope x = resolve_template fr scope' x"
      by (rule "2.IH" [OF x]) (use x in \<open>auto intro!: "2.prems"\<close>)
  qed
  then show ?case by simp
next
  case (3 fr scope s)
  show ?case using resolve_string_cong [of s scope scope' fr] "3.prems" by auto
qed simp_all

lemma resolve_no_refs_string: "string_refs s = [] \<Longrightarrow> resolve_string fr scope s = Inr (JStr s)"
proof -
  assume r: "string_refs s = []"
  then have c: "concat (map seg_refs (segments s)) = []"
    by (auto simp: string_refs_def split: option.splits list.splits)
  then have "subst_seg fr scope x = Inr (seg_source x)"
    if "x \<in> set (segments s)" for x
    using that by (cases x) auto
  then have "rtraverse (subst_seg fr scope) (segments s) =
      Inr (map seg_source (segments s))"
    by (rule rtraverse_map)
  then show ?thesis using r
    by (auto simp: resolve_string_def string_refs_def segments_render split: option.splits list.splits)
qed

text \<open>A value without references is returned as it is.\<close>

lemma resolve_no_refs: "refs_of v = [] \<Longrightarrow> resolve_template fr scope v = Inr v"
proof (induction fr scope v rule: resolve_template.induct)
  case (1 fr scope kvs)
  have "rtraverse (\<lambda>kv. rmap (Pair (fst kv)) (resolve_template fr scope (snd kv))) kvs = Inr (map (\<lambda>kv. kv) kvs)"
  proof (rule rtraverse_map)
    fix kv assume kv: "kv \<in> set kvs"
    then have "refs_of (snd kv) = []" using "1.prems" by simp
    from "1.IH" [OF kv this] show "rmap (Pair (fst kv)) (resolve_template fr scope (snd kv)) = Inr kv"
      by simp
  qed
  then show ?case by simp
next
  case (2 fr scope xs)
  have "rtraverse (resolve_template fr scope) xs = Inr (map (\<lambda>x. x) xs)"
  proof (rule rtraverse_map)
    fix x assume x: "x \<in> set xs"
    then have "refs_of x = []" using "2.prems" by simp
    from "2.IH" [OF x this] show "resolve_template fr scope x = Inr x" .
  qed
  then show ?case by simp
qed (simp_all add: resolve_no_refs_string)

text \<open>The only exception of a resolution is an unresolved reference of the value.\<close>

lemma resolve_error:
  "resolve_template fr scope v = Inl e \<Longrightarrow>
     \<exists>p \<in> set (refs_of v). e = SpecError (UnresolvedReference p) \<and> \<not> is_ok (lookup_ref p scope)"
proof (induction fr scope v rule: resolve_template.induct)
  case (1 fr scope kvs)
  then have "rtraverse (\<lambda>kv. rmap (Pair (fst kv)) (resolve_template fr scope (snd kv))) kvs = Inl e"
    by (simp add: rmap_eq_Inl)
  from rtraverse_Inl [OF this]
  obtain kv where kv: "kv \<in> set kvs" "resolve_template fr scope (snd kv) = Inl e"
    by (auto simp: rmap_eq_Inl)
  obtain p where "p \<in> set (refs_of (snd kv))"
    "e = SpecError (UnresolvedReference p)" "\<not> is_ok (lookup_ref p scope)"
    using "1.IH" [OF kv] by blast
  moreover then have "p \<in> set (refs_of (JObj kvs))" using kv(1) by auto
  ultimately show ?case by blast
next
  case (2 fr scope xs)
  then have "rtraverse (resolve_template fr scope) xs = Inl e" by (simp add: rmap_eq_Inl)
  from rtraverse_Inl [OF this]
  obtain x where x: "x \<in> set xs" "resolve_template fr scope x = Inl e" by auto
  obtain p where "p \<in> set (refs_of x)"
    "e = SpecError (UnresolvedReference p)" "\<not> is_ok (lookup_ref p scope)"
    using "2.IH" [OF x] by blast
  moreover then have "p \<in> set (refs_of (JArr xs))" using x(1) by auto
  ultimately show ?case by blast
next
  case (3 fr scope s)
  show ?case
  proof (cases "\<exists>b. match_ref (strip s) = Some (b, [])")
    case True
    then show ?thesis using "3.prems" lookup_parts_error
      by (fastforce simp: resolve_string_def string_refs_def lookup_ref_def)
  next
    case False
    then have "rtraverse (subst_seg fr scope) (segments s) = Inl e"
      and r: "string_refs s = concat (map seg_refs (segments s))"
      using "3.prems"
      by (auto simp: resolve_string_def string_refs_def result_simps split: option.splits list.splits)
    from rtraverse_Inl [OF this(1)]
    obtain x where x: "x \<in> set (segments s)" "subst_seg fr scope x = Inl e" by auto
    from x(2) obtain b where "x = Ref b" "lookup_ref (strip b) scope = Inl e"
      by (cases x) (auto simp: result_simps)
    then show ?thesis using x(1) lookup_parts_error [of "strip b"]
      by (auto simp: r lookup_ref_def intro!: bexI [of _ "Ref b"])
  qed
qed auto


section \<open>Addressing a value by its path\<close>

fun get_path :: "string list \<Rightarrow> json \<Rightarrow> json option" where
  "get_path [] v = Some v"
| "get_path (k # ks) (JObj kvs) = (case dget kvs k of None \<Rightarrow> None | Some v \<Rightarrow> get_path ks v)"
| "get_path (k # ks) _ = None"

definition plain_key :: "string \<Rightarrow> bool" where
  "plain_key k \<longleftrightarrow> (\<forall>c \<in> set k. c \<noteq> CHR ''.'' \<and> c \<noteq> CHR ''}'' \<and> \<not> is_space c)"

definition reference :: "string list \<Rightarrow> string" where
  "reference ks = ''${'' @ join ''.'' ks @ ''}''"

lemma split_join: "ks \<noteq> [] \<Longrightarrow> \<forall>k \<in> set ks. CHR ''.'' \<notin> set k \<Longrightarrow> split_on CHR ''.'' (join ''.'' ks) = ks"
proof (induction ks)
  case (Cons k ks)
  show ?case
  proof (cases ks)
    case Nil
    then show ?thesis using Cons.prems by (simp add: join_def split_on_no_sep)
  next
    case (Cons k' ks')
    then have "join ''.'' (k # ks) = k @ CHR ''.'' # join ''.'' ks" by (simp add: join_def)
    then show ?thesis using Cons.IH Cons Cons.prems by (simp add: split_on_append)
  qed
qed simp

lemma lookup_parts_get_path:
  "lookup_parts path ks v =
     (case get_path ks v of None \<Rightarrow> Inl (SpecError (UnresolvedReference path)) | Some u \<Rightarrow> Inr u)"
  by (induction ks v rule: get_path.induct) (auto split: option.splits)

lemma set_join: "set (join [c] ks) \<subseteq> insert c (\<Union> (set ` set ks))"
  by (auto simp: join_def split: list.splits)

lemma strip_ends: "s \<noteq> [] \<Longrightarrow> \<not> is_space (hd s) \<Longrightarrow> \<not> is_space (last s) \<Longrightarrow> strip s = s"
proof -
  assume a: "s \<noteq> []" "\<not> is_space (hd s)" "\<not> is_space (last s)"
  then have "dropWhile is_space s = s" by (cases s) auto
  moreover have "dropWhile is_space (rev s) = rev s" using a by (cases s rule: rev_cases) auto
  ultimately show ?thesis by (simp add: strip_def)
qed

lemma not_space [simp]: "\<not> is_space CHR ''$''" "\<not> is_space CHR ''}''" "\<not> is_space CHR ''.''"
  by (simp_all add: is_space_def code_def)

text \<open>A string that is exactly one reference resolves to the value at its path, with its
  type; a path that leads nowhere is an error that names it.\<close>

lemma resolve_reference:
  assumes "ks \<noteq> []" and "hd ks \<noteq> []" and "\<forall>k \<in> set ks. plain_key k"
  shows "resolve_template fr scope (JStr (reference ks)) =
    (case get_path ks (JObj scope) of
       None \<Rightarrow> Inl (SpecError (UnresolvedReference (join ''.'' ks))) | Some v \<Rightarrow> Inr v)"
proof -
  let ?p = "join ''.'' ks"
  have c: "\<forall>c \<in> set ?p. c \<noteq> CHR ''}'' \<and> \<not> is_space c"
    using set_join [of "CHR ''.''" ks] assms(3) by (fastforce simp: plain_key_def)
  have n: "?p \<noteq> []" using assms(1,2) by (cases ks) (auto simp: join_def)
  have "strip (reference ks) = reference ks"
    by (rule strip_ends) (auto simp: reference_def)
  then have "match_ref (strip (reference ks)) = Some (?p, [])"
    using c n by (simp add: match_ref_eq reference_def) blast
  moreover have "strip ?p = ?p" using c by (intro strip_no_space) blast
  moreover have "split_on CHR ''.'' ?p = ks"
    by (rule split_join [OF assms(1)]) (use assms(3) in \<open>auto simp: plain_key_def\<close>)
  ultimately show ?thesis
    by (simp add: resolve_string_def lookup_ref_def lookup_parts_get_path split: option.split)
qed

text \<open>C24. Resolution succeeds exactly when every reference of the value resolves; otherwise the
  error names one that does not.\<close>

theorem resolve_exact:
  "(is_ok (resolve_template fr scope v) \<longleftrightarrow> list_all (\<lambda>p. is_ok (lookup_ref p scope)) (refs_of v))
   \<and> (\<forall>e. resolve_template fr scope v = Inl e \<longrightarrow>
        (\<exists>p \<in> set (refs_of v). e = SpecError (UnresolvedReference p) \<and> \<not> is_ok (lookup_ref p scope)))"
  using resolve_ok_iff resolve_error by (auto simp: list_all_iff)

theorem resolve_exact_witness:
  "resolve_template (\<lambda>r. []) [] (JStr ''x ${a.output} y'') = Inl (SpecError (UnresolvedReference ''a.output''))"
proof -
  have r: "refs_of (JStr ''x ${a.output} y'') = [''a.output'']" by code_simp
  have "\<not> is_ok (lookup_ref ''a.output'' [])" by code_simp
  then have "\<not> is_ok (resolve_template (\<lambda>r. []) [] (JStr ''x ${a.output} y''))"
    using resolve_exact [of "\<lambda>r. []" "[]" "JStr ''x ${a.output} y''"] r by simp
  then obtain e where e: "resolve_template (\<lambda>r. []) [] (JStr ''x ${a.output} y'') = Inl e"
    by (cases "resolve_template (\<lambda>r. []) [] (JStr ''x ${a.output} y'')") auto
  then show ?thesis using resolve_exact [of "\<lambda>r. []" "[]" "JStr ''x ${a.output} y''"] r by auto
qed

end
