(* ===== verification/Llm_Providers.thy ===== *)
theory Llm_Providers
  imports Py_Values
begin

text \<open>
  \<open>sdk-python/orchestrator/llm.py\<close>: the provider interface, the deterministic mock and the
  adapters. The vendors' client libraries are parameters: whether the import succeeds, and
  the function from the request to the response object or an exception. What an adapter
  does is build the request and map the response to an \<open>LlmResult\<close>; both are modelled.
\<close>

record llm_result =
  lr_text :: string
  lr_tool_calls :: "json list"
  lr_tokens_in :: int
  lr_tokens_out :: int
  lr_stop_reason :: string
  lr_model :: string
  lr_provider :: string

text \<open>The arguments of \<open>complete(messages, tools, model, **opts)\<close>.\<close>

record llm_request =
  rq_messages :: "json list"
  rq_tools :: "json list option"
  rq_model :: "string option"
  rq_opts :: "(string, json) dict"

text \<open>The attributes of an adapter object.\<close>

record llm_self =
  ls_model :: string
  ls_api_key :: json

text \<open>The constructors, with the default model of each class.\<close>

definition new_self :: "string \<Rightarrow> string option \<Rightarrow> json \<Rightarrow> llm_self" where
  "new_self dflt model key = \<lparr>ls_model = (case model of None \<Rightarrow> dflt | Some m \<Rightarrow> m), ls_api_key = key\<rparr>"

definition new_mock :: "string option \<Rightarrow> llm_self" where
  "new_mock model = new_self ''mock-1'' model JNull"

definition new_anthropic :: "string option \<Rightarrow> json \<Rightarrow> llm_self" where
  "new_anthropic = new_self ''claude-opus-4-8''"

definition new_openai :: "string option \<Rightarrow> json \<Rightarrow> llm_self" where
  "new_openai = new_self ''gpt-4''"

definition new_gemini :: "string option \<Rightarrow> json \<Rightarrow> llm_self" where
  "new_gemini = new_self ''gemini-1.5-pro''"

definition new_xai :: "string option \<Rightarrow> json \<Rightarrow> llm_self" where
  "new_xai = new_self ''grok-beta''"

definition new_huggingface :: "string option \<Rightarrow> json \<Rightarrow> llm_self" where
  "new_huggingface = new_self ''meta-llama/Llama-2-7b-chat-hf''"

definition opt_or :: "string option \<Rightarrow> string \<Rightarrow> string" where
  "opt_or m dflt = (case m of Some (c # cs) \<Rightarrow> c # cs | _ \<Rightarrow> dflt)"

definition max_tokens :: "llm_request \<Rightarrow> json" where
  "max_tokens rq = (case dget (rq_opts rq) ''max_tokens'' of None \<Rightarrow> JInt 1024 | Some v \<Rightarrow> v)"

definition tools_given :: "llm_request \<Rightarrow> json list" where
  "tools_given rq = (case rq_tools rq of None \<Rightarrow> [] | Some ts \<Rightarrow> ts)"

text \<open>\<open>str(v)\<close>; the rendering of values other than strings is the parameter \<open>ps\<close>.\<close>

definition py_str :: "(json \<Rightarrow> string) \<Rightarrow> json \<Rightarrow> string" where
  "py_str ps v = (case v of JStr s \<Rightarrow> s | _ \<Rightarrow> ps v)"

section \<open>The interface\<close>

locale llm_provider =
  fixes complete :: "llm_request \<Rightarrow> llm_result res"
    and name :: string
  assumes complete_names: "complete rq = Inr r \<Longrightarrow> lr_provider r = name"
begin

lemma all_named:
  "rtraverse complete rqs = Inr rs \<Longrightarrow> r \<in> set rs \<Longrightarrow> lr_provider r = name"
  by (auto simp: rtraverse_Inr_iff list_all2_conv_all_nth in_set_conv_nth dest: complete_names)

end

section \<open>MockLLM\<close>

definition negative_words :: "string list" where
  "negative_words = [''cut'', ''miss'', ''down'', ''loss'', ''negative'', ''fall'']"

definition mock_text :: "(json \<Rightarrow> string) \<Rightarrow> llm_request \<Rightarrow> string res" where
  "mock_text ps rq =
     (if rq_messages rq = [] then Inr []
      else rmap (py_str ps) (py_index (last (rq_messages rq)) ''content''))"

definition mock_negative :: "string \<Rightarrow> bool" where
  "mock_negative text = (let lowered = lower text in list_ex (\<lambda>w. contains w lowered) negative_words)"

definition mock_complete :: "(json \<Rightarrow> string) \<Rightarrow> string \<Rightarrow> llm_request \<Rightarrow> llm_result res" where
  "mock_complete ps self_model rq =
     rbind (mock_text ps rq) (\<lambda>text.
     let verdict = (if mock_negative text then ''net-negative'' else ''net-positive'');
         n = max 1 (int (length (words_of text)))
     in Inr \<lparr>lr_text = ''{\"label\": \"'' @ verdict @ ''\", \"confidence\": 0.81}'',
             lr_tool_calls = [], lr_tokens_in = n, lr_tokens_out = 12,
             lr_stop_reason = ''stop'', lr_model = opt_or (rq_model rq) self_model,
             lr_provider = ''mock''\<rparr>)"

section \<open>Anthropic\<close>

record anthropic_block =
  ab_type :: string
  ab_text :: string
  ab_name :: json
  ab_input :: json
  ab_id :: json

record anthropic_response =
  ar_content :: "anthropic_block list"
  ar_input_tokens :: int
  ar_output_tokens :: int
  ar_stop_reason :: "string option"
  ar_model :: string

definition anthropic_kwargs :: "llm_self \<Rightarrow> llm_request \<Rightarrow> (string, json) dict" where
  "anthropic_kwargs self rq =
     [(''model'', JStr (opt_or (rq_model rq) (ls_model self))), (''max_tokens'', max_tokens rq),
      (''messages'', JArr (rq_messages rq))]
     @ (if tools_given rq \<noteq> [] then [(''tools'', JArr (tools_given rq))] else [])"

definition anthropic_complete ::
  "bool \<Rightarrow> (json \<Rightarrow> (string, json) dict \<Rightarrow> anthropic_response res) \<Rightarrow> llm_self \<Rightarrow> llm_request \<Rightarrow> llm_result res"
where
  "anthropic_complete installed create self rq =
     (if \<not> installed then Inl (RuntimeError ''pip install 'anthropic>=0.7.0' to use AnthropicProvider'')
      else rbind (create (ls_api_key self) (anthropic_kwargs self rq)) (\<lambda>resp.
        Inr \<lparr>lr_text = concat (map ab_text (filter (\<lambda>b. ab_type b = ''text'') (ar_content resp))),
             lr_tool_calls = map (\<lambda>b. JObj [(''name'', ab_name b), (''input'', ab_input b), (''id'', ab_id b)])
               (filter (\<lambda>b. ab_type b = ''tool_use'') (ar_content resp)),
             lr_tokens_in = ar_input_tokens resp, lr_tokens_out = ar_output_tokens resp,
             lr_stop_reason = opt_or (ar_stop_reason resp) ''stop'', lr_model = ar_model resp,
             lr_provider = ''anthropic''\<rparr>))"

section \<open>OpenAI and the compatible APIs\<close>

record chat_tool_call =
  tc_name :: json
  tc_arguments :: json
  tc_id :: json

record chat_choice =
  ch_content :: "string option"
  ch_tool_calls :: "chat_tool_call list option"
  ch_finish_reason :: "string option"

record chat_response =
  cr_choices :: "chat_choice list"
  cr_prompt_tokens :: int
  cr_completion_tokens :: int
  cr_model :: string

definition function_tools :: "llm_request \<Rightarrow> (string, json) dict" where
  "function_tools rq =
     (if tools_given rq \<noteq> []
      then [(''tools'', JArr (map (\<lambda>t. JObj [(''type'', JStr ''function''), (''function'', t)]) (tools_given rq)))]
      else [])"

definition chat_kwargs :: "llm_self \<Rightarrow> llm_request \<Rightarrow> (string, json) dict" where
  "chat_kwargs self rq =
     [(''model'', JStr (opt_or (rq_model rq) (ls_model self))), (''max_tokens'', max_tokens rq),
      (''messages'', JArr (rq_messages rq))] @ function_tools rq"

text \<open>The response mapping the three adapters repeat; \<open>resp.choices[0]\<close> raises on an empty
  list.\<close>

definition chat_result :: "chat_response \<Rightarrow> string \<Rightarrow> string \<Rightarrow> llm_result res" where
  "chat_result resp model provider =
     (case cr_choices resp of
        [] \<Rightarrow> Inl IndexError
      | c # _ \<Rightarrow> Inr
          \<lparr>lr_text = opt_or (ch_content c) [],
           lr_tool_calls = (case ch_tool_calls c of None \<Rightarrow> []
             | Some tcs \<Rightarrow> map (\<lambda>tc. JObj [(''name'', tc_name tc), (''input'', tc_arguments tc), (''id'', tc_id tc)]) tcs),
           lr_tokens_in = cr_prompt_tokens resp, lr_tokens_out = cr_completion_tokens resp,
           lr_stop_reason = opt_or (ch_finish_reason c) ''stop'', lr_model = model,
           lr_provider = provider\<rparr>)"

type_synonym chat_api = "(string, json) dict \<Rightarrow> (string, json) dict \<Rightarrow> chat_response res"

definition openai_complete :: "bool \<Rightarrow> chat_api \<Rightarrow> llm_self \<Rightarrow> llm_request \<Rightarrow> llm_result res" where
  "openai_complete installed create self rq =
     (if \<not> installed then Inl (RuntimeError ''pip install 'openai>=1.0.0' to use OpenAIProvider'')
      else rbind (create [(''api_key'', ls_api_key self)] (chat_kwargs self rq)) (\<lambda>resp.
        chat_result resp (cr_model resp) ''openai''))"

definition xai_complete :: "bool \<Rightarrow> chat_api \<Rightarrow> llm_self \<Rightarrow> llm_request \<Rightarrow> llm_result res" where
  "xai_complete installed create self rq =
     (if \<not> installed then Inl (RuntimeError ''pip install 'openai>=1.0.0' to use XAIProvider'')
      else rbind (create [(''api_key'', ls_api_key self), (''base_url'', JStr ''https://api.x.ai/v1'')]
             (chat_kwargs self rq)) (\<lambda>resp.
        chat_result resp (cr_model resp) ''xai''))"

record azure_self =
  az_deployment :: string
  az_api_key :: json
  az_api_version :: json
  az_endpoint :: json

definition azure_kwargs :: "azure_self \<Rightarrow> llm_request \<Rightarrow> (string, json) dict" where
  "azure_kwargs self rq =
     [(''deployment_id'', JStr (az_deployment self)), (''max_tokens'', max_tokens rq),
      (''messages'', JArr (rq_messages rq))] @ function_tools rq"

definition azure_complete :: "bool \<Rightarrow> chat_api \<Rightarrow> azure_self \<Rightarrow> llm_request \<Rightarrow> llm_result res" where
  "azure_complete installed create self rq =
     (if \<not> installed then Inl (RuntimeError ''pip install 'openai>=1.0.0' to use AzureOpenAIProvider'')
      else rbind (create [(''api_key'', az_api_key self), (''azure_endpoint'', az_endpoint self),
                          (''api_version'', az_api_version self)] (azure_kwargs self rq)) (\<lambda>resp.
        chat_result resp (az_deployment self) ''azure''))"

section \<open>Gemini\<close>

record gemini_response =
  gr_text :: "string option"
  gr_prompt_tokens :: int
  gr_candidates_tokens :: int
  gr_finish_reasons :: "string list"

text \<open>The conversion of one message: every role but \<open>user\<close> becomes \<open>model\<close>.\<close>

definition gemini_message :: "json \<Rightarrow> json res" where
  "gemini_message msg =
     rbind (py_index msg ''role'') (\<lambda>r.
     rbind (py_index msg ''content'') (\<lambda>c.
     Inr (JObj [(''role'', JStr (if r = JStr ''user'' then ''user'' else ''model'')),
                (''parts'', JArr [c])])))"

definition gemini_complete ::
  "bool \<Rightarrow> (json \<Rightarrow> string \<Rightarrow> json list \<Rightarrow> json \<Rightarrow> gemini_response res) \<Rightarrow> llm_self \<Rightarrow> llm_request \<Rightarrow> llm_result res"
where
  "gemini_complete installed generate self rq =
     (if \<not> installed then Inl (RuntimeError ''pip install 'google-generativeai>=0.3.0' to use GeminiProvider'')
      else rbind (rtraverse gemini_message (rq_messages rq)) (\<lambda>msgs.
           rbind (generate (ls_api_key self) (opt_or (rq_model rq) (ls_model self)) msgs (max_tokens rq)) (\<lambda>resp.
           Inr \<lparr>lr_text = opt_or (gr_text resp) [], lr_tool_calls = [],
                lr_tokens_in = gr_prompt_tokens resp, lr_tokens_out = gr_candidates_tokens resp,
                lr_stop_reason = (case gr_finish_reasons resp of [] \<Rightarrow> ''stop'' | f # _ \<Rightarrow> f),
                lr_model = opt_or (rq_model rq) (ls_model self), lr_provider = ''gemini''\<rparr>)))"

section \<open>Hugging Face\<close>

definition hf_line :: "(json \<Rightarrow> string) \<Rightarrow> json \<Rightarrow> string res" where
  "hf_line ps m =
     rbind (py_index m ''role'') (\<lambda>r.
     rbind (py_index m ''content'') (\<lambda>c.
     Inr (py_str ps r @ '': '' @ py_str ps c)))"

text \<open>The generated texts of the pipeline are the parameter \<open>pipe\<close>; each adapter result
  counts words.\<close>

definition hf_complete ::
  "(json \<Rightarrow> string) \<Rightarrow> bool \<Rightarrow> (string \<Rightarrow> string \<Rightarrow> json \<Rightarrow> string list res) \<Rightarrow> llm_self \<Rightarrow> llm_request \<Rightarrow> llm_result res"
where
  "hf_complete ps installed pipe self rq =
     (if \<not> installed then Inl (RuntimeError ''pip install 'transformers>=4.30.0' to use HuggingFaceProvider'')
      else rbind (rtraverse (hf_line ps) (rq_messages rq)) (\<lambda>ls.
        let text_input = join [char_of (10::nat)] ls in
        rbind (pipe (opt_or (rq_model rq) (ls_model self)) text_input (max_tokens rq)) (\<lambda>resp.
        let text = (case resp of [] \<Rightarrow> [] | t # _ \<Rightarrow> t) in
        Inr \<lparr>lr_text = text, lr_tool_calls = [],
             lr_tokens_in = int (length (words_of text_input)),
             lr_tokens_out = int (length (words_of text)),
             lr_stop_reason = ''stop'', lr_model = opt_or (rq_model rq) (ls_model self),
             lr_provider = ''huggingface''\<rparr>)))"

section \<open>The adapters provide the interface\<close>

lemma chat_result_provider: "chat_result resp m p = Inr r \<Longrightarrow> lr_provider r = p \<and> lr_model r = m"
  by (auto simp: chat_result_def split: list.splits)

interpretation mock: llm_provider "mock_complete ps model" "''mock''" for ps model
  by unfold_locales (auto simp: mock_complete_def Let_def result_simps)

interpretation anthropic: llm_provider "anthropic_complete installed create self" "''anthropic''"
  for installed create self
  by unfold_locales (auto simp: anthropic_complete_def result_simps split: if_splits)

interpretation openai: llm_provider "openai_complete installed create self" "''openai''"
  for installed create self
  by unfold_locales (auto simp: openai_complete_def result_simps dest: chat_result_provider split: if_splits)

interpretation xai: llm_provider "xai_complete installed create self" "''xai''"
  for installed create self
  by unfold_locales (auto simp: xai_complete_def result_simps dest: chat_result_provider split: if_splits)

interpretation azure: llm_provider "azure_complete installed create self" "''azure''"
  for installed create self
  by unfold_locales (auto simp: azure_complete_def result_simps dest: chat_result_provider split: if_splits)

interpretation gemini: llm_provider "gemini_complete installed generate self" "''gemini''"
  for installed generate self
  by unfold_locales (auto simp: gemini_complete_def result_simps split: if_splits)

interpretation hf: llm_provider "hf_complete ps installed pipe self" "''huggingface''"
  for ps installed pipe self
  by unfold_locales (auto simp: hf_complete_def Let_def result_simps split: if_splits)

text \<open>The mock is deterministic: its verdict is negative exactly when the lower-cased text of
  the last message contains one of the six words; it counts at least one input token and
  reports the requested model, or its own.\<close>

lemma mock_verdict:
  assumes "mock_complete ps m rq = Inr r"
  shows "\<exists>msg. mock_text ps rq = Inr msg
    \<and> lr_text r = (if \<exists>w \<in> set negative_words. \<exists>a b. lower msg = a @ w @ b
         then ''{\"label\": \"net-negative\", \"confidence\": 0.81}''
         else ''{\"label\": \"net-positive\", \"confidence\": 0.81}'')
    \<and> lr_tokens_in r = max 1 (int (length (words_of msg))) \<and> lr_tokens_out r = 12
    \<and> lr_model r = opt_or (rq_model rq) m \<and> lr_provider r = ''mock''"
proof -
  obtain msg where t: "mock_text ps rq = Inr msg"
    using assms by (cases "mock_text ps rq") (auto simp: mock_complete_def)
  have n: "mock_negative msg \<longleftrightarrow> (\<exists>w \<in> set negative_words. \<exists>a b. lower msg = a @ w @ b)"
    by (simp add: mock_negative_def list_ex_iff contains_iff)
  show ?thesis
    using assms by (intro exI [of _ msg]) (auto simp: mock_complete_def Let_def t n [symmetric])
qed

text \<open>xAI answers as OpenAI does, but for the provider name, when the two endpoints give the
  same responses.\<close>

lemma xai_openai:
  assumes "\<And>kw. create_x [(''api_key'', ls_api_key self), (''base_url'', JStr ''https://api.x.ai/v1'')] kw
      = create_o [(''api_key'', ls_api_key self)] kw"
  shows "xai_complete True create_x self rq =
     rmap (\<lambda>r. r\<lparr>lr_provider := ''xai''\<rparr>) (openai_complete True create_o self rq)"
  by (cases "create_o [(''api_key'', ls_api_key self)] (chat_kwargs self rq)")
     (auto simp: assms xai_complete_def openai_complete_def chat_result_def split: list.splits)

text \<open>Accounting of the chat adapters: a result of any of the three carries the token counts of
  the response, the text of its first choice and the name of the adapter; the model is the
  one the response names, for Azure the deployment.\<close>

lemma chat_accounting:
  assumes "openai_complete True create self rq = Inr r \<or> xai_complete True create self rq = Inr r
     \<or> azure_complete True create az rq = Inr r"
  shows "\<exists>client kw resp c cs. create client kw = Inr resp \<and> cr_choices resp = c # cs
    \<and> lr_tokens_in r = cr_prompt_tokens resp \<and> lr_tokens_out r = cr_completion_tokens resp
    \<and> lr_text r = opt_or (ch_content c) []
    \<and> (lr_provider r, lr_model r) \<in> {(''openai'', cr_model resp), (''xai'', cr_model resp), (''azure'', az_deployment az)}"
proof -
  have c: "\<exists>c cs. cr_choices resp = c # cs \<and> lr_tokens_in r = cr_prompt_tokens resp
      \<and> lr_tokens_out r = cr_completion_tokens resp \<and> lr_text r = opt_or (ch_content c) []
      \<and> lr_provider r = p \<and> lr_model r = m" if "chat_result resp m p = Inr r" for resp m p
    using that by (auto simp: chat_result_def split: list.splits)
  show ?thesis
    using assms
    by (elim disjE)
       (fastforce simp: openai_complete_def xai_complete_def azure_complete_def result_simps dest!: c)+
qed

end
