(* ===== verification/Run_Report.thy ===== *)
theory Run_Report
  imports Py_Values
begin

text \<open>
  \<open>sdk-python/orchestrator/report.py\<close>, the data model of a run report and its conversion
  to and from a dictionary. The critical path is in theory \<open>Critical_Path\<close>. Totals form
  a commutative monoid, so that sums of totals do not depend on the completion order.
\<close>

section \<open>Data\<close>

record decision =
  dc_at_ms :: int
  dc_summary :: string
  dc_rationale :: "string option"
  dc_data :: json

record llm_usage =
  lu_provider :: string
  lu_model :: string
  lu_tokens_in :: int
  lu_tokens_out :: int

datatype status = Succeeded | Failed | Skipped

text \<open>\<open>ts_tool_calls\<close> is the attribute \<open>_tool_calls\<close> the engine adds to a span; it may be
  absent.\<close>

record task_span =
  ts_id :: string
  ts_status :: status
  ts_duration_ms :: int
  ts_attempts :: int
  ts_llm :: "llm_usage option"
  ts_decisions :: "decision list"
  ts_error :: "string option"
  ts_output :: json
  ts_tool_calls :: "int option"

record totals =
  tt_llm_tokens_in :: int
  tt_llm_tokens_out :: int
  tt_tool_calls :: int
  tt_retries :: int

record report =
  rp_workflow :: json
  rp_run_id :: string
  rp_status :: status
  rp_started_at :: string
  rp_duration_ms :: int
  rp_tasks :: "task_span list"
  rp_critical_path :: "string list"
  rp_totals :: totals
  rp_errors :: "string list"
  rp_output :: json

text \<open>\<open>TaskSpan(id=i, status=s)\<close>: the dataclass defaults.\<close>

definition new_span :: "string \<Rightarrow> status \<Rightarrow> task_span" where
  "new_span i s = \<lparr>ts_id = i, ts_status = s, ts_duration_ms = 0, ts_attempts = 0, ts_llm = None,
     ts_decisions = [], ts_error = None, ts_output = JNull, ts_tool_calls = None\<rparr>"

text \<open>The extension slot of a plain record is the unit type.\<close>

instantiation unit :: comm_monoid_add
begin

definition zero_unit :: unit where
  "zero_unit = ()"

definition plus_unit :: "unit \<Rightarrow> unit \<Rightarrow> unit" where
  "plus_unit a b = ()"

instance
  by intro_classes (simp_all add: zero_unit_def plus_unit_def)

end

instantiation totals_ext :: (comm_monoid_add) comm_monoid_add
begin

definition zero_totals_ext :: "'a totals_ext" where
  "zero_totals_ext = \<lparr>tt_llm_tokens_in = 0, tt_llm_tokens_out = 0, tt_tool_calls = 0, tt_retries = 0, \<dots> = 0\<rparr>"

definition plus_totals_ext :: "'a totals_ext \<Rightarrow> 'a totals_ext \<Rightarrow> 'a totals_ext" where
  "plus_totals_ext a b =
     \<lparr>tt_llm_tokens_in = tt_llm_tokens_in a + tt_llm_tokens_in b,
      tt_llm_tokens_out = tt_llm_tokens_out a + tt_llm_tokens_out b,
      tt_tool_calls = tt_tool_calls a + tt_tool_calls b,
      tt_retries = tt_retries a + tt_retries b,
      \<dots> = totals.more a + totals.more b\<rparr>"

instance
  by intro_classes (simp_all add: zero_totals_ext_def plus_totals_ext_def algebra_simps)

end

text \<open>\<open>Totals()\<close> and the four additions the run loop makes for a finished span.\<close>

definition new_totals :: totals where
  "new_totals = \<lparr>tt_llm_tokens_in = 0, tt_llm_tokens_out = 0, tt_tool_calls = 0, tt_retries = 0\<rparr>"

definition add_span_totals :: "task_span \<Rightarrow> totals \<Rightarrow> totals" where
  "add_span_totals s t =
     (let t1 = t\<lparr>tt_retries := tt_retries t + max 0 (ts_attempts s - 1)\<rparr>;
          t2 = (case ts_llm s of
                  None \<Rightarrow> t1
                | Some u \<Rightarrow> t1\<lparr>tt_llm_tokens_in := tt_llm_tokens_in t1 + lu_tokens_in u,
                               tt_llm_tokens_out := tt_llm_tokens_out t1 + lu_tokens_out u\<rparr>)
      in t2\<lparr>tt_tool_calls := tt_tool_calls t2 + (case ts_tool_calls s of None \<Rightarrow> 0 | Some n \<Rightarrow> n)\<rparr>)"

definition span_totals :: "task_span \<Rightarrow> totals" where
  "span_totals s = add_span_totals s 0"

lemma new_totals_0: "new_totals = 0"
  by (simp add: new_totals_def zero_totals_ext_def zero_unit_def)

lemma add_span_totals: "add_span_totals s t = t + span_totals s"
  by (cases t) (auto simp: add_span_totals_def span_totals_def Let_def plus_totals_ext_def
      zero_totals_ext_def plus_unit_def zero_unit_def split: option.splits)

section \<open>Report.to_dict\<close>

fun status_str :: "status \<Rightarrow> string" where
  "status_str Succeeded = ''succeeded''"
| "status_str Failed = ''failed''"
| "status_str Skipped = ''skipped''"

fun opt_str :: "string option \<Rightarrow> json" where
  "opt_str None = JNull"
| "opt_str (Some s) = JStr s"

definition usage_dict :: "llm_usage \<Rightarrow> json" where
  "usage_dict u = JObj [(''provider'', JStr (lu_provider u)), (''model'', JStr (lu_model u)),
     (''tokens_in'', JInt (lu_tokens_in u)), (''tokens_out'', JInt (lu_tokens_out u))]"

definition decision_dict :: "decision \<Rightarrow> json" where
  "decision_dict d = JObj [(''at_ms'', JInt (dc_at_ms d)), (''summary'', JStr (dc_summary d)),
     (''rationale'', opt_str (dc_rationale d)), (''data'', dc_data d)]"

definition totals_dict :: "totals \<Rightarrow> json" where
  "totals_dict t = JObj [(''llm_tokens_in'', JInt (tt_llm_tokens_in t)),
     (''llm_tokens_out'', JInt (tt_llm_tokens_out t)),
     (''tool_calls'', JInt (tt_tool_calls t)), (''retries'', JInt (tt_retries t))]"

definition span_dict :: "task_span \<Rightarrow> json" where
  "span_dict t = JObj
     ([(''id'', JStr (ts_id t)), (''status'', JStr (status_str (ts_status t))),
       (''duration_ms'', JInt (ts_duration_ms t)), (''attempts'', JInt (ts_attempts t))]
      @ (case ts_llm t of None \<Rightarrow> [] | Some u \<Rightarrow> [(''llm'', usage_dict u)])
      @ (if ts_decisions t \<noteq> [] then [(''decisions'', JArr (map decision_dict (ts_decisions t)))] else [])
      @ (case ts_error t of None \<Rightarrow> [] | Some e \<Rightarrow> if e \<noteq> [] then [(''error'', JStr e)] else []))"

definition report_to_dict :: "report \<Rightarrow> json" where
  "report_to_dict r = JObj
     [(''workflow'', rp_workflow r), (''run_id'', JStr (rp_run_id r)),
      (''status'', JStr (status_str (rp_status r))), (''started_at'', JStr (rp_started_at r)),
      (''duration_ms'', JInt (rp_duration_ms r)),
      (''tasks'', JArr (map span_dict (rp_tasks r))),
      (''critical_path'', JArr (map JStr (rp_critical_path r))),
      (''totals'', totals_dict (rp_totals r)),
      (''errors'', JArr (map JStr (rp_errors r))),
      (''output'', rp_output r)]"

text \<open>\<open>Report.to_json\<close>; every value of the dictionary is a JSON value, so \<open>default=str\<close> is
  never called.\<close>

definition report_to_json :: "(rat \<Rightarrow> string) \<Rightarrow> nat \<Rightarrow> report \<Rightarrow> string" where
  "report_to_json fr indent r = json_render fr (Some indent) 0 (report_to_dict r)"

section \<open>Report.from_dict\<close>

definition as_str :: "string \<Rightarrow> json \<Rightarrow> string res" where
  "as_str f v = (case v of JStr s \<Rightarrow> Inr s | _ \<Rightarrow> Inl (Ill_typed f))"

definition as_int :: "string \<Rightarrow> json \<Rightarrow> int res" where
  "as_int f v = (case v of JInt i \<Rightarrow> Inr i | _ \<Rightarrow> Inl (Ill_typed f))"

definition as_opt_str :: "string \<Rightarrow> json \<Rightarrow> string option res" where
  "as_opt_str f v = (case v of JNull \<Rightarrow> Inr None | JStr s \<Rightarrow> Inr (Some s) | _ \<Rightarrow> Inl (Ill_typed f))"

definition as_strs :: "string \<Rightarrow> json \<Rightarrow> string list res" where
  "as_strs f v = (case v of JArr xs \<Rightarrow> rtraverse (as_str f) xs | _ \<Rightarrow> Inl (Ill_typed f))"

definition as_status :: "json \<Rightarrow> status res" where
  "as_status v =
     (if v = JStr ''succeeded'' then Inr Succeeded
      else if v = JStr ''failed'' then Inr Failed
      else if v = JStr ''skipped'' then Inr Skipped
      else Inl (Ill_typed ''status''))"

text \<open>\<open>f(**v)\<close>: \<open>v\<close> must be a dictionary, with every required keyword and no other than
  the parameters.\<close>

definition py_kwargs :: "string list \<Rightarrow> string list \<Rightarrow> json \<Rightarrow> (string, json) dict res" where
  "py_kwargs required optional v =
     (case v of
        JObj kvs \<Rightarrow>
          if list_all (\<lambda>k. k \<in> set (dkeys kvs)) required
             \<and> list_all (\<lambda>k. k \<in> set (required @ optional)) (dkeys kvs)
          then Inr kvs else Inl TypeError
      | _ \<Rightarrow> Inl TypeError)"

text \<open>\<open>k in v\<close>\<close>

fun py_in :: "string \<Rightarrow> json \<Rightarrow> bool res" where
  "py_in k (JObj kvs) = Inr (k \<in> set (dkeys kvs))"
| "py_in k (JArr xs) = Inr (JStr k \<in> set xs)"
| "py_in k (JStr s) = Inr (contains k s)"
| "py_in k _ = Inl TypeError"

definition usage_from_dict :: "json \<Rightarrow> llm_usage res" where
  "usage_from_dict v =
     rbind (py_kwargs [''provider'', ''model'', ''tokens_in'', ''tokens_out''] [] v) (\<lambda>kvs.
     rbind (rbind (py_index v ''provider'') (as_str ''provider'')) (\<lambda>p.
     rbind (rbind (py_index v ''model'') (as_str ''model'')) (\<lambda>m.
     rbind (rbind (py_index v ''tokens_in'') (as_int ''tokens_in'')) (\<lambda>i.
     rbind (rbind (py_index v ''tokens_out'') (as_int ''tokens_out'')) (\<lambda>out.
     Inr \<lparr>lu_provider = p, lu_model = m, lu_tokens_in = i, lu_tokens_out = out\<rparr>)))))"

definition decision_from_dict :: "json \<Rightarrow> decision res" where
  "decision_from_dict v =
     rbind (py_kwargs [''at_ms'', ''summary''] [''rationale'', ''data''] v) (\<lambda>kvs.
     rbind (rbind (py_index v ''at_ms'') (as_int ''at_ms'')) (\<lambda>a.
     rbind (rbind (py_index v ''summary'') (as_str ''summary'')) (\<lambda>s.
     rbind (rbind (py_get v ''rationale'' JNull) (as_opt_str ''rationale'')) (\<lambda>r.
     rbind (py_get v ''data'' JNull) (\<lambda>d.
     Inr \<lparr>dc_at_ms = a, dc_summary = s, dc_rationale = r, dc_data = d\<rparr>)))))"

definition span_from_dict :: "json \<Rightarrow> task_span res" where
  "span_from_dict t =
     rbind (py_in ''llm'' t) (\<lambda>has_llm.
     rbind (if has_llm then rbind (py_index t ''llm'') (\<lambda>v. rmap Some (usage_from_dict v)) else Inr None) (\<lambda>llm.
     rbind (py_get t ''decisions'' (JArr [])) (\<lambda>dj.
     rbind (py_iter dj) (\<lambda>ds.
     rbind (rtraverse decision_from_dict ds) (\<lambda>decisions.
     rbind (rbind (py_index t ''id'') (as_str ''id'')) (\<lambda>i.
     rbind (rbind (py_index t ''status'') as_status) (\<lambda>st.
     rbind (rbind (py_get t ''duration_ms'' (JInt 0)) (as_int ''duration_ms'')) (\<lambda>dur.
     rbind (rbind (py_get t ''attempts'' (JInt 0)) (as_int ''attempts'')) (\<lambda>att.
     rbind (rbind (py_get t ''error'' JNull) (as_opt_str ''error'')) (\<lambda>err.
     Inr \<lparr>ts_id = i, ts_status = st, ts_duration_ms = dur, ts_attempts = att, ts_llm = llm,
          ts_decisions = decisions, ts_error = err, ts_output = JNull, ts_tool_calls = None\<rparr>))))))))))"

definition totals_from_dict :: "json \<Rightarrow> totals res" where
  "totals_from_dict d =
     rbind (rbind (py_get d ''llm_tokens_in'' (JInt 0)) (as_int ''llm_tokens_in'')) (\<lambda>a.
     rbind (rbind (py_get d ''llm_tokens_out'' (JInt 0)) (as_int ''llm_tokens_out'')) (\<lambda>b.
     rbind (rbind (py_get d ''tool_calls'' (JInt 0)) (as_int ''tool_calls'')) (\<lambda>c.
     rbind (rbind (py_get d ''retries'' (JInt 0)) (as_int ''retries'')) (\<lambda>e.
     Inr \<lparr>tt_llm_tokens_in = a, tt_llm_tokens_out = b, tt_tool_calls = c, tt_retries = e\<rparr>))))"

definition report_from_dict :: "json \<Rightarrow> report res" where
  "report_from_dict d =
     rbind (py_get d ''tasks'' (JArr [])) (\<lambda>tj.
     rbind (py_iter tj) (\<lambda>ts.
     rbind (rtraverse span_from_dict ts) (\<lambda>tasks.
     rbind (py_get d ''totals'' (JObj [])) (\<lambda>td.
     rbind (totals_from_dict td) (\<lambda>totals.
     rbind (py_index d ''workflow'') (\<lambda>w.
     rbind (rbind (py_index d ''run_id'') (as_str ''run_id'')) (\<lambda>rid.
     rbind (rbind (py_index d ''status'') as_status) (\<lambda>st.
     rbind (rbind (py_index d ''started_at'') (as_str ''started_at'')) (\<lambda>sa.
     rbind (rbind (py_index d ''duration_ms'') (as_int ''duration_ms'')) (\<lambda>dur.
     rbind (rbind (py_get d ''critical_path'' (JArr [])) (as_strs ''critical_path'')) (\<lambda>cp.
     rbind (rbind (py_get d ''errors'' (JArr [])) (as_strs ''errors'')) (\<lambda>errs.
     rbind (py_get d ''output'' JNull) (\<lambda>out.
     Inr \<lparr>rp_workflow = w, rp_run_id = rid, rp_status = st, rp_started_at = sa,
          rp_duration_ms = dur, rp_tasks = tasks, rp_critical_path = cp, rp_totals = totals,
          rp_errors = errs, rp_output = out\<rparr>)))))))))))))"

section \<open>Round trip\<close>

text \<open>What the dictionary of a span keeps: everything but the output, the tool-call
  attribute and an empty error text.\<close>

definition public_span :: "task_span \<Rightarrow> task_span" where
  "public_span t = t\<lparr>ts_output := JNull, ts_tool_calls := None,
     ts_error := (if ts_error t = Some [] then None else ts_error t)\<rparr>"

definition public_report :: "report \<Rightarrow> report" where
  "public_report r = r\<lparr>rp_tasks := map public_span (rp_tasks r)\<rparr>"

lemma usage_round_trip: "usage_from_dict (usage_dict u) = Inr u"
  by (simp add: usage_from_dict_def usage_dict_def py_kwargs_def as_str_def as_int_def)

lemma decision_round_trip: "decision_from_dict (decision_dict d) = Inr d"
  by (cases "dc_rationale d")
     (simp_all add: decision_from_dict_def decision_dict_def py_kwargs_def as_str_def as_int_def as_opt_str_def)

lemma status_round_trip: "as_status (JStr (status_str s)) = Inr s"
  by (cases s) (simp_all add: as_status_def)

lemma totals_round_trip: "totals_from_dict (totals_dict t) = Inr t"
  by (simp add: totals_from_dict_def totals_dict_def as_int_def)

lemma decisions_round_trip: "rtraverse decision_from_dict (map decision_dict ds) = Inr ds"
  by (induction ds) (simp_all add: decision_round_trip)

lemma strs_round_trip: "rtraverse (as_str f) (map JStr ss) = Inr ss"
  by (induction ss) (simp_all add: as_str_def)

lemma span_round_trip: "span_from_dict (span_dict t) = Inr (public_span t)"
  by (cases "ts_llm t"; cases "ts_error t"; cases "ts_decisions t = []")
     (simp_all add: span_from_dict_def span_dict_def public_span_def usage_round_trip
        status_round_trip decisions_round_trip as_str_def as_int_def as_opt_str_def)

lemma spans_round_trip: "rtraverse span_from_dict (map span_dict ts) = Inr (map public_span ts)"
  by (induction ts) (simp_all add: span_round_trip)

lemmas report_round_trips = spans_round_trip status_round_trip totals_round_trip strs_round_trip

lemma report_dict_round_trip: "report_from_dict (report_to_dict r) = Inr (public_report r)"
  by (simp add: report_from_dict_def report_to_dict_def public_report_def report_round_trips
      as_str_def as_int_def as_strs_def)

end
