(* ===== verification/Skill_Registry.thy ===== *)
theory Skill_Registry
  imports Llm_Providers Run_Report
begin

text \<open>
  \<open>sdk-python/orchestrator/registry.py\<close>: the registry of skills and tools, and the context
  object a handler works with. A handler acts on the engine only through the context, so a
  run of a handler is described by the context operations it performs (\<open>ctx_op\<close>).
\<close>

section \<open>The registry\<close>

type_synonym tool_fn = "(string, json) dict \<Rightarrow> json res"

record 'h registry =
  rg_skills :: "(string, 'h) dict"
  rg_tools :: "(string, tool_fn) dict"

definition new_registry :: "'h registry" where
  "new_registry = \<lparr>rg_skills = [], rg_tools = []\<rparr>"

definition add_skill :: "string \<Rightarrow> 'h \<Rightarrow> 'h registry \<Rightarrow> 'h registry" where
  "add_skill name fn r = r\<lparr>rg_skills := dset name fn (rg_skills r)\<rparr>"

definition add_tool :: "string \<Rightarrow> tool_fn \<Rightarrow> 'h registry \<Rightarrow> 'h registry" where
  "add_tool name fn r = r\<lparr>rg_tools := dset name fn (rg_tools r)\<rparr>"

text \<open>The decorators store the function and return it.\<close>

definition skill_deco :: "string \<Rightarrow> 'h \<Rightarrow> 'h registry \<Rightarrow> 'h \<times> 'h registry" where
  "skill_deco name fn r = (fn, r\<lparr>rg_skills := dset name fn (rg_skills r)\<rparr>)"

definition tool_deco :: "string \<Rightarrow> tool_fn \<Rightarrow> 'h registry \<Rightarrow> tool_fn \<times> 'h registry" where
  "tool_deco name fn r = (fn, r\<lparr>rg_tools := dset name fn (rg_tools r)\<rparr>)"

text \<open>\<open>get_skill(name)\<close>: the name comes from the document; a list or dictionary is
  unhashable, any other value that is no string is no key.\<close>

definition get_skill :: "'h registry \<Rightarrow> json \<Rightarrow> 'h res" where
  "get_skill r name =
     (case name of
        JStr s \<Rightarrow> (case dget (rg_skills r) s of None \<Rightarrow> Inl (KeyError s) | Some h \<Rightarrow> Inr h)
      | JArr _ \<Rightarrow> Inl TypeError
      | JObj _ \<Rightarrow> Inl TypeError
      | _ \<Rightarrow> Inl (KeyError []))"

definition get_tool :: "'h registry \<Rightarrow> string \<Rightarrow> tool_fn res" where
  "get_tool r name = (case dget (rg_tools r) name of None \<Rightarrow> Inl (KeyError name) | Some f \<Rightarrow> Inr f)"

definition has_skill :: "'h registry \<Rightarrow> string \<Rightarrow> bool" where
  "has_skill r name \<longleftrightarrow> name \<in> set (dkeys (rg_skills r))"

interpretation skills: keyed_store "\<lambda>r. dget (rg_skills r)" add_skill
  by unfold_locales (simp_all add: add_skill_def)

interpretation tools: keyed_store "\<lambda>r. dget (rg_tools r)" add_tool
  by unfold_locales (simp_all add: add_tool_def)

text \<open>Registration: after any sequence of registrations, a skill name yields the handler
  registered last under it, and a name that was never registered is a \<open>KeyError\<close>;
  \<open>has_skill\<close> tells the two apart.\<close>

lemma registry_lookup:
  "get_skill (fold (\<lambda>(n, h). add_skill n h) kvs new_registry) (JStr s) =
     (case map_of (rev kvs) s of None \<Rightarrow> Inl (KeyError s) | Some h \<Rightarrow> Inr h)
   \<and> (has_skill (fold (\<lambda>(n, h). add_skill n h) kvs new_registry) s \<longleftrightarrow> s \<in> fst ` set kvs)"
proof -
  let ?r = "fold (\<lambda>(n, h). add_skill n h) kvs new_registry"
  have l: "dget (rg_skills ?r) = map_of (rev kvs)"
    by (simp add: skills.lookup_fold_store new_registry_def)
  have "has_skill ?r s \<longleftrightarrow> dget (rg_skills ?r) s \<noteq> None"
    by (simp add: has_skill_def map_of_eq_None_iff)
  also have "\<dots> \<longleftrightarrow> s \<in> fst ` set kvs" by (simp add: l map_of_eq_None_iff)
  finally show ?thesis by (simp add: get_skill_def l)
qed

section \<open>The context\<close>

record skill_ctx =
  cx_run_id :: string
  cx_task_id :: string
  cx_inputs :: json
  cx_attempt :: int
  cx_cancelled :: bool
  cx_start :: rat
  cx_decisions :: "decision list"
  cx_llm_usage :: "llm_usage option"
  cx_tool_calls :: int
  cx_logs :: "string list"

definition new_ctx :: "string \<Rightarrow> string \<Rightarrow> json \<Rightarrow> int \<Rightarrow> rat \<Rightarrow> skill_ctx" where
  "new_ctx run_id task_id inputs attempt now =
     \<lparr>cx_run_id = run_id, cx_task_id = task_id, cx_inputs = inputs, cx_attempt = attempt,
      cx_cancelled = False, cx_start = now, cx_decisions = [], cx_llm_usage = None,
      cx_tool_calls = 0, cx_logs = []\<rparr>"

text \<open>\<open>int((t1 - t0) * 1000)\<close>\<close>

definition millis :: "(rat \<Rightarrow> rat) \<Rightarrow> rat \<Rightarrow> rat \<Rightarrow> int" where
  "millis fl t0 t1 = trunc_rat (fl (fl (t1 - t0) * 1000))"

definition ctx_log :: "string \<Rightarrow> skill_ctx \<Rightarrow> skill_ctx" where
  "ctx_log message c = c\<lparr>cx_logs := cx_logs c @ [message]\<rparr>"

definition record_decision ::
  "(rat \<Rightarrow> rat) \<Rightarrow> rat \<Rightarrow> string \<Rightarrow> string option \<Rightarrow> json \<Rightarrow> skill_ctx \<Rightarrow> skill_ctx" where
  "record_decision fl now summary rationale data c =
     c\<lparr>cx_decisions := cx_decisions c @
        [\<lparr>dc_at_ms = millis fl (cx_start c) now, dc_summary = summary, dc_rationale = rationale,
          dc_data = data\<rparr>]\<rparr>"

text \<open>\<open>call_tool(self, name, **kwargs)\<close>: a keyword that repeats a parameter is a \<open>TypeError\<close> of
  the call; otherwise the counter is increased before the tool is looked up.\<close>

definition kwargs_clash :: "(string, json) dict \<Rightarrow> bool" where
  "kwargs_clash kwargs \<longleftrightarrow> ''self'' \<in> set (dkeys kwargs) \<or> ''name'' \<in> set (dkeys kwargs)"

definition call_tool :: "'h registry \<Rightarrow> string \<Rightarrow> (string, json) dict \<Rightarrow> skill_ctx \<Rightarrow> skill_ctx \<times> json res" where
  "call_tool r name kwargs c =
     (if kwargs_clash kwargs then (c, Inl TypeError)
      else (c\<lparr>cx_tool_calls := cx_tool_calls c + 1\<rparr>, rbind (get_tool r name) (\<lambda>f. f kwargs)))"

definition ctx_llm ::
  "(llm_request \<Rightarrow> llm_result res) option \<Rightarrow> llm_request \<Rightarrow> skill_ctx \<Rightarrow> skill_ctx \<times> llm_result res" where
  "ctx_llm llm rq c =
     (case llm of
        None \<Rightarrow> (c, Inl (RuntimeError ''no LLM provider configured on the Orchestrator''))
      | Some call \<Rightarrow>
          (case call rq of
             Inl e \<Rightarrow> (c, Inl e)
           | Inr result \<Rightarrow>
               let prev_in = (case cx_llm_usage c of None \<Rightarrow> 0 | Some u \<Rightarrow> lu_tokens_in u);
                   prev_out = (case cx_llm_usage c of None \<Rightarrow> 0 | Some u \<Rightarrow> lu_tokens_out u)
               in (c\<lparr>cx_llm_usage := Some \<lparr>lu_provider = lr_provider result, lu_model = lr_model result,
                      lu_tokens_in = prev_in + lr_tokens_in result,
                      lu_tokens_out = prev_out + lr_tokens_out result\<rparr>\<rparr>, Inr result)))"

section \<open>Runs of a handler\<close>

datatype ctx_op =
    OpLog string
  | OpDecision rat string "string option" json
  | OpTool string "(string, json) dict"
  | OpLlm llm_request

fun apply_op :: "(rat \<Rightarrow> rat) \<Rightarrow> 'h registry \<Rightarrow> (llm_request \<Rightarrow> llm_result res) option
    \<Rightarrow> ctx_op \<Rightarrow> skill_ctx \<Rightarrow> skill_ctx" where
  "apply_op fl r llm (OpLog m) c = ctx_log m c"
| "apply_op fl r llm (OpDecision now s ra d) c = record_decision fl now s ra d c"
| "apply_op fl r llm (OpTool n kw) c = fst (call_tool r n kw c)"
| "apply_op fl r llm (OpLlm rq) c = fst (ctx_llm llm rq c)"

definition run_ops :: "(rat \<Rightarrow> rat) \<Rightarrow> 'h registry \<Rightarrow> (llm_request \<Rightarrow> llm_result res) option
    \<Rightarrow> ctx_op list \<Rightarrow> skill_ctx \<Rightarrow> skill_ctx" where
  "run_ops fl r llm ops c = fold (apply_op fl r llm) ops c"

text \<open>The results of the completed LLM calls among the operations.\<close>

fun llm_results :: "(llm_request \<Rightarrow> llm_result res) option \<Rightarrow> ctx_op list \<Rightarrow> llm_result list" where
  "llm_results llm [] = []"
| "llm_results llm (OpLlm rq # ops) =
     (case llm of
        None \<Rightarrow> llm_results llm ops
      | Some call \<Rightarrow>
          (case call rq of
             Inl e \<Rightarrow> llm_results llm ops
           | Inr result \<Rightarrow> result # llm_results llm ops))"
| "llm_results llm (_ # ops) = llm_results llm ops"

fun is_tool_op :: "ctx_op \<Rightarrow> bool" where
  "is_tool_op (OpTool n kw) = (\<not> kwargs_clash kw)"
| "is_tool_op _ = False"

fun is_decision_op :: "ctx_op \<Rightarrow> bool" where
  "is_decision_op (OpDecision t s r d) = True"
| "is_decision_op _ = False"

definition usage_in :: "llm_usage option \<Rightarrow> int" where
  "usage_in u = (case u of None \<Rightarrow> 0 | Some v \<Rightarrow> lu_tokens_in v)"

definition usage_out :: "llm_usage option \<Rightarrow> int" where
  "usage_out u = (case u of None \<Rightarrow> 0 | Some v \<Rightarrow> lu_tokens_out v)"

lemma apply_op_frame:
  "cx_run_id (apply_op fl r llm op c) = cx_run_id c"
  "cx_task_id (apply_op fl r llm op c) = cx_task_id c"
  "cx_inputs (apply_op fl r llm op c) = cx_inputs c"
  "cx_attempt (apply_op fl r llm op c) = cx_attempt c"
  "cx_start (apply_op fl r llm op c) = cx_start c"
  by (cases op; auto simp: ctx_log_def record_decision_def call_tool_def ctx_llm_def Let_def
      split: option.splits sum.splits)+

lemma run_ops_frame:
  "cx_run_id (run_ops fl r llm ops c) = cx_run_id c"
  "cx_task_id (run_ops fl r llm ops c) = cx_task_id c"
  "cx_inputs (run_ops fl r llm ops c) = cx_inputs c"
  "cx_attempt (run_ops fl r llm ops c) = cx_attempt c"
  "cx_start (run_ops fl r llm ops c) = cx_start c"
  by (induction ops arbitrary: c) (simp_all add: run_ops_def apply_op_frame)

lemma run_ops_tool_calls:
  "cx_tool_calls (run_ops fl r llm ops c) = cx_tool_calls c + int (length (filter is_tool_op ops))"
proof (induction ops arbitrary: c)
  case (Cons op ops)
  have "cx_tool_calls (apply_op fl r llm op c) = cx_tool_calls c + (if is_tool_op op then 1 else 0)"
    by (cases op) (auto simp: ctx_log_def record_decision_def call_tool_def ctx_llm_def Let_def
        split: option.splits sum.splits)
  then show ?case using Cons.IH [of "apply_op fl r llm op c"] by (simp add: run_ops_def)
qed (simp add: run_ops_def)

lemma run_ops_decisions:
  "length (cx_decisions (run_ops fl r llm ops c)) =
     length (cx_decisions c) + length (filter is_decision_op ops)"
proof (induction ops arbitrary: c)
  case (Cons op ops)
  have "length (cx_decisions (apply_op fl r llm op c)) =
      length (cx_decisions c) + (if is_decision_op op then 1 else 0)"
    by (cases op) (auto simp: ctx_log_def record_decision_def call_tool_def ctx_llm_def Let_def
        split: option.splits sum.splits)
  then show ?case using Cons.IH [of "apply_op fl r llm op c"] by (simp add: run_ops_def)
qed (simp add: run_ops_def)

lemma run_ops_usage:
  "usage_in (cx_llm_usage (run_ops fl r llm ops c)) =
     usage_in (cx_llm_usage c) + sum_list (map lr_tokens_in (llm_results llm ops))
   \<and> usage_out (cx_llm_usage (run_ops fl r llm ops c)) =
     usage_out (cx_llm_usage c) + sum_list (map lr_tokens_out (llm_results llm ops))"
proof (induction ops arbitrary: c)
  case (Cons op ops)
  have "usage_in (cx_llm_usage (apply_op fl r llm op c)) =
      usage_in (cx_llm_usage c) + sum_list (map lr_tokens_in (llm_results llm [op]))
    \<and> usage_out (cx_llm_usage (apply_op fl r llm op c)) =
      usage_out (cx_llm_usage c) + sum_list (map lr_tokens_out (llm_results llm [op]))"
    by (cases op) (auto simp: ctx_log_def record_decision_def call_tool_def ctx_llm_def Let_def
        usage_in_def usage_out_def split: option.splits sum.splits)
  moreover have "llm_results llm (op # ops) = llm_results llm [op] @ llm_results llm ops"
    by (cases op) (auto split: option.splits sum.splits)
  ultimately show ?case using Cons.IH [of "apply_op fl r llm op c"] by (simp add: run_ops_def)
qed (simp add: run_ops_def)

text \<open>C26. Accounting of a skill: whatever a handler does with its context, the tool-call counter
  rises by the calls made (failed look-ups included, but not calls whose keywords clash), one decision is kept for each recorded,
  the token usage is the sum over the completed LLM calls, and the identity of the context
  does not change.\<close>

theorem context_accounting:
  "cx_tool_calls (run_ops fl r llm ops c) = cx_tool_calls c + int (length (filter is_tool_op ops))
   \<and> length (cx_decisions (run_ops fl r llm ops c)) = length (cx_decisions c) + length (filter is_decision_op ops)
   \<and> usage_in (cx_llm_usage (run_ops fl r llm ops c)) =
       usage_in (cx_llm_usage c) + sum_list (map lr_tokens_in (llm_results llm ops))
   \<and> usage_out (cx_llm_usage (run_ops fl r llm ops c)) =
       usage_out (cx_llm_usage c) + sum_list (map lr_tokens_out (llm_results llm ops))
   \<and> cx_task_id (run_ops fl r llm ops c) = cx_task_id c \<and> cx_inputs (run_ops fl r llm ops c) = cx_inputs c"
  by (simp add: run_ops_tool_calls run_ops_decisions run_ops_usage run_ops_frame)

end
