(* ===== verification/Task_Execution.thy ===== *)
theory Task_Execution
  imports Workflow_Validation Template Skill_Registry
begin

text \<open>
  \<open>Orchestrator._execute_task\<close>, \<open>_invoke\<close> and \<open>_backoff\<close> of
  \<open>sdk-python/orchestrator/engine.py\<close>: one task from the resolution of its inputs to its
  span. The surroundings of a run (\<open>run_env\<close>) are arguments: the registry, the LLM
  provider, the clock readings, the random numbers. A handler is a function from the context
  to what it does: the context operations it has performed when the attempt ends, the time
  it takes, and its outcome. Waiting for the semaphore and the buckets takes time only.
\<close>

section \<open>Handlers and the surroundings of a run\<close>

datatype outcome =
    Returns json
  | Raises string string
  | RaisesTimeout
  | RaisesCancelled

record handler_run =
  hr_ops :: "ctx_op list"
  hr_elapsed :: rat
  hr_outcome :: outcome

type_synonym handler = "skill_ctx \<Rightarrow> handler_run"

text \<open>\<open>ev_clock tid k\<close> is the monotonic clock when attempt \<open>k\<close> of task \<open>tid\<close> begins
  (\<open>k = 0\<close>: the task itself), \<open>ev_end\<close> when its span is finished; \<open>ev_str_exn\<close> is
  \<open>str(exc)\<close>, \<open>ev_random\<close> the value of \<open>random.random()\<close> for the pause after an attempt.\<close>

record run_env =
  ev_fl :: "rat \<Rightarrow> rat"
  ev_fr :: "rat \<Rightarrow> string"
  ev_registry :: "handler registry"
  ev_llm :: "(llm_request \<Rightarrow> llm_result res) option"
  ev_run_id :: string
  ev_clock :: "string \<Rightarrow> int \<Rightarrow> rat"
  ev_end :: "string \<Rightarrow> rat"
  ev_random :: "string \<Rightarrow> int \<Rightarrow> rat"
  ev_str_exn :: "py_error \<Rightarrow> string"

section \<open>Backoff\<close>

definition backoff :: "(rat \<Rightarrow> rat) \<Rightarrow> rat \<Rightarrow> retry \<Rightarrow> int \<Rightarrow> rat res" where
  "backoff fl rnd r attempt =
     rbind (if rt_backoff r = JStr ''none'' then Inr 0
            else case rt_base r of
                   None \<Rightarrow> Inl TypeError
                 | Some b \<Rightarrow>
                     if rt_backoff r = JStr ''fixed'' then Inr b
                     else Inr (fl (b * 2 ^ nat (attempt - 1)))) (\<lambda>base.
     Inr (if rt_jitter r \<and> 0 < base then fl (base * fl (1 / 2 + fl (rnd / 2))) else base))"

section \<open>One attempt\<close>

datatype attempt_result =
    AOutput json
  | ATimeout
  | ACancelled
  | AError string

fun outcome_result :: "outcome \<Rightarrow> attempt_result" where
  "outcome_result (Returns v) = AOutput v"
| "outcome_result (Raises name msg) = AError (name @ '': '' @ msg)"
| "outcome_result RaisesTimeout = ATimeout"
| "outcome_result RaisesCancelled = ACancelled"

text \<open>\<open>_invoke\<close>: a handler that takes longer than the timeout is cut off.\<close>

definition invoke :: "run_env \<Rightarrow> task \<Rightarrow> skill_ctx \<Rightarrow> rat option \<Rightarrow> skill_ctx \<times> attempt_result" where
  "invoke env t ctx timeout =
     (case get_skill (ev_registry env) (tk_skill t) of
        Inl e \<Rightarrow> (ctx, AError (exn_name e @ '': '' @ ev_str_exn env e))
      | Inr handler \<Rightarrow>
          (let r = handler ctx;
               ctx' = run_ops (ev_fl env) (ev_registry env) (ev_llm env) (hr_ops r) ctx
           in (ctx', case timeout of
                       None \<Rightarrow> outcome_result (hr_outcome r)
                     | Some limit \<Rightarrow> if limit < hr_elapsed r then ATimeout
                                   else outcome_result (hr_outcome r))))"

text \<open>\<open>f"timeout after {timeout}s"\<close>\<close>

definition timeout_text :: "run_env \<Rightarrow> rat option \<Rightarrow> string" where
  "timeout_text env timeout =
     ''timeout after '' @ (case timeout of None \<Rightarrow> ''None'' | Some r \<Rightarrow> ev_fr env r) @ ''s''"

definition finish_span :: "run_env \<Rightarrow> task_span \<Rightarrow> task_span" where
  "finish_span env s =
     s\<lparr>ts_duration_ms := millis (ev_fl env) (ev_clock env (ts_id s) 0) (ev_end env (ts_id s))\<rparr>"

text \<open>What the engine copies from the context into the span.\<close>

definition copy_ctx :: "skill_ctx \<Rightarrow> task_span \<Rightarrow> task_span" where
  "copy_ctx c s = s\<lparr>ts_decisions := cx_decisions c, ts_llm := cx_llm_usage c,
     ts_tool_calls := Some (cx_tool_calls c)\<rparr>"

definition attempt_ctx :: "run_env \<Rightarrow> task \<Rightarrow> json \<Rightarrow> int \<Rightarrow> skill_ctx" where
  "attempt_ctx env t inputs k =
     new_ctx (ev_run_id env) (tk_id t) inputs k (ev_clock env (tk_id t) k)"

section \<open>The attempt loop\<close>

text \<open>\<open>for attempt in range(1, retry.max + 2)\<close>, over the list of attempt numbers. An
  exception of \<open>_backoff\<close> is outside the \<open>try\<close> and leaves the function.\<close>

fun attempts :: "run_env \<Rightarrow> task \<Rightarrow> retry \<Rightarrow> rat option \<Rightarrow> json \<Rightarrow> int list \<Rightarrow> task_span \<Rightarrow> string \<Rightarrow> task_span res" where
  "attempts env t r timeout inputs [] sp last_err =
     Inr (finish_span env (sp\<lparr>ts_status := Failed, ts_error := Some last_err\<rparr>))"
| "attempts env t r timeout inputs (k # ks) sp last_err =
     (let sp1 = sp\<lparr>ts_attempts := k\<rparr>;
          (ctx, res) = invoke env t (attempt_ctx env t inputs k) timeout;
          again = (\<lambda>err. let sp2 = copy_ctx ctx sp1 in
            if k \<le> rt_max r
            then rbind (backoff (ev_fl env) (ev_random env (tk_id t) k) r k) (\<lambda>pause.
                 attempts env t r timeout inputs ks sp2 err)
            else attempts env t r timeout inputs ks sp2 err)
      in case res of
           AOutput v \<Rightarrow> Inr (finish_span env (copy_ctx ctx
             (sp1\<lparr>ts_status := Succeeded, ts_output := v\<rparr>)))
         | ATimeout \<Rightarrow> again (timeout_text env timeout)
         | ACancelled \<Rightarrow> Inr (finish_span env (sp1\<lparr>ts_status := Skipped, ts_error := Some ''cancelled''\<rparr>))
         | AError e \<Rightarrow> again e)"

definition task_retry :: "workflow \<Rightarrow> task \<Rightarrow> retry" where
  "task_retry w t =
     (case tk_retry t of Some r \<Rightarrow> r
      | None \<Rightarrow> (case wf_default_retry w of Some r \<Rightarrow> r | None \<Rightarrow> default_retry))"

definition task_timeout :: "workflow \<Rightarrow> task \<Rightarrow> rat option" where
  "task_timeout w t = (case tk_timeout t of Some x \<Rightarrow> Some x | None \<Rightarrow> wf_default_timeout w)"

text \<open>\<open>{"input": inputs, **{tid: {"output": out} ...}}\<close>\<close>

definition run_scope :: "(string, json) dict \<Rightarrow> (string, json) dict \<Rightarrow> (string, json) dict" where
  "run_scope inputs results =
     dict_of ((''input'', JObj inputs) # map (\<lambda>(tid, out). (tid, JObj [(''output'', out)])) results)"

definition execute_task ::
  "run_env \<Rightarrow> workflow \<Rightarrow> task \<Rightarrow> (string, json) dict \<Rightarrow> (string, json) dict \<Rightarrow> task_span res" where
  "execute_task env w t inputs results =
     (let r = task_retry w t; timeout = task_timeout w t in
      rbind (resolve_template (ev_fr env) (run_scope inputs results) (JObj (tk_inputs t))) (\<lambda>resolved.
      attempts env t r timeout resolved [1..rt_max r + 1] (new_span (tk_id t) Failed) ''unknown error''))"

text \<open>Whether the coroutine ever waits for the semaphore: it does in its first attempt, unless
  the inputs raise or the loop has no attempt.\<close>

definition needs_slot :: "run_env \<Rightarrow> workflow \<Rightarrow> task \<Rightarrow> (string, json) dict \<Rightarrow> (string, json) dict \<Rightarrow> bool" where
  "needs_slot env w t inputs results \<longleftrightarrow>
     is_ok (resolve_template (ev_fr env) (run_scope inputs results) (JObj (tk_inputs t)))
   \<and> 0 \<le> rt_max (task_retry w t)"

section \<open>What a span says about the attempts\<close>

abbreviation result_of :: "run_env \<Rightarrow> task \<Rightarrow> rat option \<Rightarrow> json \<Rightarrow> int \<Rightarrow> attempt_result" where
  "result_of env t timeout inputs k \<equiv> snd (invoke env t (attempt_ctx env t inputs k) timeout)"

fun retryable :: "attempt_result \<Rightarrow> bool" where
  "retryable (AOutput v) = False"
| "retryable ACancelled = False"
| "retryable _ = True"

fun error_text :: "run_env \<Rightarrow> rat option \<Rightarrow> attempt_result \<Rightarrow> string" where
  "error_text env timeout (AError e) = e"
| "error_text env timeout _ = timeout_text env timeout"

lemma finish_span_simps [simp]:
  "ts_id (finish_span env s) = ts_id s" "ts_status (finish_span env s) = ts_status s"
  "ts_attempts (finish_span env s) = ts_attempts s" "ts_error (finish_span env s) = ts_error s"
  "ts_output (finish_span env s) = ts_output s" "ts_llm (finish_span env s) = ts_llm s"
  "ts_tool_calls (finish_span env s) = ts_tool_calls s" "ts_decisions (finish_span env s) = ts_decisions s"
  by (simp_all add: finish_span_def)

lemma copy_ctx_simps [simp]:
  "ts_id (copy_ctx c s) = ts_id s" "ts_status (copy_ctx c s) = ts_status s"
  "ts_attempts (copy_ctx c s) = ts_attempts s" "ts_error (copy_ctx c s) = ts_error s"
  "ts_output (copy_ctx c s) = ts_output s" "ts_llm (copy_ctx c s) = cx_llm_usage c"
  "ts_tool_calls (copy_ctx c s) = Some (cx_tool_calls c)" "ts_decisions (copy_ctx c s) = cx_decisions c"
  by (simp_all add: copy_ctx_def)

text \<open>One round of the loop: a retryable result goes on, the others end it.\<close>

lemma attempts_again:
  assumes "retryable (result_of env t timeout inputs k)"
    and "attempts env t r timeout inputs (k # ks) sp e = Inr s"
  shows "attempts env t r timeout inputs ks
    (copy_ctx (fst (invoke env t (attempt_ctx env t inputs k) timeout)) (sp\<lparr>ts_attempts := k\<rparr>))
    (error_text env timeout (result_of env t timeout inputs k)) = Inr s"
proof -
  obtain c res where i: "invoke env t (attempt_ctx env t inputs k) timeout = (c, res)"
    by (cases "invoke env t (attempt_ctx env t inputs k) timeout")
  show ?thesis using assms
    by (cases res) (auto simp: i Let_def result_simps split: if_splits)
qed

lemma attempts_stop:
  assumes "\<not> retryable (result_of env t timeout inputs k)"
    and "attempts env t r timeout inputs (k # ks) sp e = Inr s"
  shows "ts_id s = ts_id sp \<and> ts_attempts s = k
     \<and> (\<forall>v. result_of env t timeout inputs k = AOutput v \<longrightarrow> ts_status s = Succeeded \<and> ts_output s = v
          \<and> ts_llm s = cx_llm_usage (fst (invoke env t (attempt_ctx env t inputs k) timeout)))
     \<and> (result_of env t timeout inputs k = ACancelled \<longrightarrow> ts_status s = Skipped \<and> ts_error s = Some ''cancelled'')"
proof -
  obtain c res where i: "invoke env t (attempt_ctx env t inputs k) timeout = (c, res)"
    by (cases "invoke env t (attempt_ctx env t inputs k) timeout")
  show ?thesis using assms by (cases res) (auto simp: i Let_def)
qed

text \<open>The loop ends with the first attempt that is not retried, or fails with the error of
  the last one.\<close>

lemma attempts_spec:
  "attempts env t r timeout inputs ks sp e = Inr s \<Longrightarrow>
     (\<exists>xs k ys. ks = xs @ k # ys \<and> (\<forall>x \<in> set xs. retryable (result_of env t timeout inputs x))
        \<and> \<not> retryable (result_of env t timeout inputs k) \<and> ts_attempts s = k
        \<and> (\<forall>v. result_of env t timeout inputs k = AOutput v \<longrightarrow> ts_status s = Succeeded \<and> ts_output s = v)
        \<and> (result_of env t timeout inputs k = ACancelled \<longrightarrow> ts_status s = Skipped))
     \<or> (\<forall>x \<in> set ks. retryable (result_of env t timeout inputs x)) \<and> ts_status s = Failed
        \<and> (if ks = [] then ts_attempts s = ts_attempts sp \<and> ts_error s = Some e
           else ts_attempts s = last ks
             \<and> ts_error s = Some (error_text env timeout (result_of env t timeout inputs (last ks))))"
proof (induction ks arbitrary: sp e)
  case Nil
  then show ?case by auto
next
  case (Cons k ks)
  show ?case
  proof (cases "retryable (result_of env t timeout inputs k)")
    case False
    note f = attempts_stop [OF False Cons.prems]
    show ?thesis
      by (rule disjI1, rule exI [of _ "[]"], rule exI [of _ k], rule exI [of _ ks])
        (use f False in simp)
  next
    case True
    define sp' where "sp' = copy_ctx (fst (invoke env t (attempt_ctx env t inputs k) timeout)) (sp\<lparr>ts_attempts := k\<rparr>)"
    have s: "ts_attempts sp' = k" "attempts env t r timeout inputs ks sp'
        (error_text env timeout (result_of env t timeout inputs k)) = Inr s"
      using attempts_again [OF True Cons.prems] by (simp_all add: sp'_def)
    from Cons.IH [OF s(2)] show ?thesis
    proof (elim disjE exE conjE)
      fix xs k' ys
      assume a: "ks = xs @ k' # ys" "\<forall>x \<in> set xs. retryable (result_of env t timeout inputs x)"
      assume b: "\<not> retryable (result_of env t timeout inputs k')" "ts_attempts s = k'"
        "\<forall>v. result_of env t timeout inputs k' = AOutput v \<longrightarrow> ts_status s = Succeeded \<and> ts_output s = v"
        "result_of env t timeout inputs k' = ACancelled \<longrightarrow> ts_status s = Skipped"
      show ?thesis
        by (rule disjI1, rule exI [of _ "k # xs"], rule exI [of _ k'], rule exI [of _ ys])
          (use a b True in simp)
    qed (use True s(1) in auto)
  qed
qed

lemma attempts_id: "attempts env t r timeout inputs ks sp e = Inr s \<Longrightarrow> ts_id s = ts_id sp"
proof (induction ks arbitrary: sp e)
  case (Cons k ks)
  show ?case
  proof (cases "retryable (result_of env t timeout inputs k)")
    case True
    from Cons.IH [OF attempts_again [OF True Cons.prems]] show ?thesis by simp
  qed (use attempts_stop Cons.prems in blast)
qed auto

lemma execute_task_id: "execute_task env w t inputs results = Inr s \<Longrightarrow> ts_id s = tk_id t"
  by (auto simp: execute_task_def Let_def result_simps new_span_def dest!: attempts_id)

text \<open>No error text is empty.\<close>

lemma invoke_error: "snd (invoke env t c timeout) = AError e \<Longrightarrow> e \<noteq> []"
proof (cases "get_skill (ev_registry env) (tk_skill t)")
  case (Inr h)
  assume "snd (invoke env t c timeout) = AError e"
  then have "outcome_result (hr_outcome (h c)) = AError e"
    by (auto simp: invoke_def Inr Let_def split: option.splits if_splits)
  then show ?thesis by (cases "hr_outcome (h c)") auto
qed (auto simp: invoke_def)

lemma error_text_nonempty: "retryable (result_of env t timeout inputs k) \<Longrightarrow> error_text env timeout (result_of env t timeout inputs k) \<noteq> []"
  using invoke_error [of env t "attempt_ctx env t inputs k" timeout]
  by (cases "result_of env t timeout inputs k") (auto simp: timeout_text_def)

lemma attempts_error_nonempty:
  "attempts env t r timeout inputs ks sp e = Inr s \<Longrightarrow> e \<noteq> [] \<Longrightarrow> ts_error sp = None \<Longrightarrow> ts_error s \<noteq> Some []"
proof (induction ks arbitrary: sp e)
  case (Cons k ks)
  show ?case
  proof (cases "retryable (result_of env t timeout inputs k)")
    case True
    show ?thesis
      by (rule Cons.IH [OF attempts_again [OF True Cons.prems(1)] error_text_nonempty [OF True]])
         (use Cons.prems(3) in simp)
  next
    case False
    obtain c res where i: "invoke env t (attempt_ctx env t inputs k) timeout = (c, res)"
      by (cases "invoke env t (attempt_ctx env t inputs k) timeout")
    show ?thesis using False Cons.prems by (cases res) (auto simp: i Let_def)
  qed
qed auto

lemma execute_task_error_nonempty: "execute_task env w t inputs results = Inr s \<Longrightarrow> ts_error s \<noteq> Some []"
  unfolding execute_task_def Let_def rbind_eq_Inr
  by (elim exE conjE, drule attempts_error_nonempty) (simp_all add: new_span_def)

lemma backoff_ok: "rt_base r \<noteq> None \<Longrightarrow> is_ok (backoff fl rnd r k)"
  by (cases "rt_backoff r = JStr ''fixed''") (auto simp: backoff_def)

lemma attempts_ok: "rt_base r \<noteq> None \<Longrightarrow> is_ok (attempts env t r timeout inputs ks sp e)"
proof (induction ks arbitrary: sp e)
  case (Cons k ks)
  obtain b where b: "backoff (ev_fl env) (ev_random env (tk_id t) k) r k = Inr b"
    using backoff_ok [OF Cons.prems] by (metis sum.collapse(2))
  show ?case using Cons by (auto simp: Let_def b split: prod.splits attempt_result.splits)
qed simp

text \<open>With a backoff base, resolving the inputs is the only thing that can raise.\<close>

lemma execute_task_raises:
  "rt_base (task_retry w t) \<noteq> None \<Longrightarrow>
     is_ok (execute_task env w t inputs results) \<longleftrightarrow>
     is_ok (resolve_template (ev_fr env) (run_scope inputs results) (JObj (tk_inputs t)))"
  using attempts_ok
  by (cases "resolve_template (ev_fr env) (run_scope inputs results) (JObj (tk_inputs t))")
     (auto simp: execute_task_def Let_def)

section \<open>The pauses\<close>

text \<open>C23. The pause after an attempt lies, in exact arithmetic, between half of the nominal pause and the
  nominal pause: nothing, the base, or the base doubled with each attempt, as the policy says.\<close>

theorem backoff_bounds:
  assumes "rt_base r = Some b" and "0 \<le> b" and "0 \<le> rnd" and "rnd < 1"
    and "backoff (\<lambda>x. x) rnd r k = Inr p"
  shows "0 \<le> p \<and> p \<le> (if rt_backoff r = JStr ''none'' then 0
      else if rt_backoff r = JStr ''fixed'' then b else b * 2 ^ nat (k - 1))
    \<and> (if rt_backoff r = JStr ''none'' then 0
      else if rt_backoff r = JStr ''fixed'' then b else b * 2 ^ nat (k - 1)) \<le> 2 * p"
proof -
  define n where "n = (if rt_backoff r = JStr ''none'' then 0
      else if rt_backoff r = JStr ''fixed'' then b else b * 2 ^ nat (k - 1))"
  have n: "0 \<le> n" using assms(2) by (simp add: n_def)
  have p: "p = (if rt_jitter r \<and> 0 < n then n * (1 / 2 + rnd / 2) else n)"
    using assms(1,5) by (auto simp: backoff_def n_def split: if_splits)
  have "n * (1 / 2 + rnd / 2) \<le> n * 1" "n * (1 / 2) \<le> n * (1 / 2 + rnd / 2)"
    using n assms(3,4) by (intro mult_left_mono; simp)+
  then show ?thesis using n p unfolding n_def [symmetric] by auto
qed

theorem backoff_bounds_witness:
  "\<exists>p. backoff (\<lambda>x. x) (1/2) \<lparr>rt_max = 3, rt_backoff = JStr ''exponential'', rt_base = Some 1, rt_jitter = True\<rparr> 3 = Inr p
     \<and> 2 \<le> p \<and> p \<le> 4"
proof -
  let ?r = "\<lparr>rt_max = 3, rt_backoff = JStr ''exponential'', rt_base = Some 1, rt_jitter = True\<rparr>"
  have e: "backoff (\<lambda>x. x) (1/2) ?r 3 = Inr 3" by (simp add: backoff_def)
  from backoff_bounds [OF _ _ _ _ e, of 1] show ?thesis using e by simp
qed

section \<open>The outcome of a task\<close>

lemma upto_split_at:
  assumes "[1..n] = xs @ k # ys"
  shows "1 \<le> k \<and> k \<le> n \<and> xs = [1..k - 1]"
proof -
  have "k \<in> set [1..n]" by (simp only: assms) simp
  then have k: "1 \<le> k" "k \<le> n" by simp_all
  have first: "takeWhile (\<lambda>x. x \<noteq> k) (as @ k # bs) = as" if "distinct (as @ k # bs)" for as bs
    using that by (induction as) auto
  have "[1..n] = [1..k - 1] @ k # [k + 1..n]" by (rule upto_split3 [OF k])
  then have "takeWhile (\<lambda>x. x \<noteq> k) [1..n] = [1..k - 1]" using first by (metis distinct_upto)
  moreover have "takeWhile (\<lambda>x. x \<noteq> k) [1..n] = xs" using first assms by (metis distinct_upto)
  ultimately show ?thesis using k by simp
qed

text \<open>C22. Retries: a task makes at most \<open>max + 1\<close> attempts. It stops at the first attempt that
  neither fails nor times out and reports its number and its result; when all attempts fail,
  the span is failed and carries the error of the last one.\<close>

theorem execute_task_outcome:
  fixes w t
  defines "n \<equiv> rt_max (task_retry w t) + 1" and "limit \<equiv> task_timeout w t"
  assumes "resolve_template (ev_fr env) (run_scope inputs results) (JObj (tk_inputs t)) = Inr ins"
    and "execute_task env w t inputs results = Inr s"
  shows "(\<exists>k. 1 \<le> k \<and> k \<le> n \<and> list_all (\<lambda>j. retryable (result_of env t limit ins j)) [1..k - 1]
        \<and> \<not> retryable (result_of env t limit ins k) \<and> ts_attempts s = k
        \<and> (\<forall>v. result_of env t limit ins k = AOutput v \<longrightarrow> ts_status s = Succeeded \<and> ts_output s = v)
        \<and> (result_of env t limit ins k = ACancelled \<longrightarrow> ts_status s = Skipped))
    \<or> (list_all (\<lambda>j. retryable (result_of env t limit ins j)) [1..n] \<and> ts_status s = Failed
        \<and> ts_attempts s = max 0 n
        \<and> ts_error s = Some (if n < 1 then ''unknown error'' else error_text env limit (result_of env t limit ins n)))"
proof -
  have a: "attempts env t (task_retry w t) limit ins [1..n] (new_span (tk_id t) Failed) ''unknown error'' = Inr s"
    using assms(3,4) by (simp add: execute_task_def Let_def n_def limit_def del: resolve_template.simps)
  from attempts_spec [OF a] show ?thesis
  proof (elim disjE exE conjE)
    fix xs k ys assume "[1..n] = xs @ k # ys"
    note k = upto_split_at [OF this]
    assume "\<forall>x \<in> set xs. retryable (result_of env t limit ins x)" "\<not> retryable (result_of env t limit ins k)"
      "ts_attempts s = k" "\<forall>v. result_of env t limit ins k = AOutput v \<longrightarrow> ts_status s = Succeeded \<and> ts_output s = v"
      "result_of env t limit ins k = ACancelled \<longrightarrow> ts_status s = Skipped"
    then show ?thesis using k by (intro disjI1 exI [of _ k]) (simp add: list_all_iff)
  next
    assume f: "\<forall>x \<in> set [1..n]. retryable (result_of env t limit ins x)" "ts_status s = Failed"
      "if [1..n] = [] then ts_attempts s = ts_attempts (new_span (tk_id t) Failed) \<and> ts_error s = Some ''unknown error''
       else ts_attempts s = last [1..n] \<and> ts_error s = Some (error_text env limit (result_of env t limit ins (last [1..n])))"
    have "1 \<le> n \<Longrightarrow> last [1..n] = n" by (simp add: upto_rec2)
    then show ?thesis using f by (intro disjI2) (auto simp: list_all_iff new_span_def split: if_splits)
  qed
qed

definition sample_task :: task where
  "sample_task = \<lparr>tk_id = ''t'', tk_skill = JStr ''none'', tk_provider = JNull, tk_depends_on = [], tk_inputs = [],
     tk_retry = Some \<lparr>rt_max = 2, rt_backoff = JStr ''none'', rt_base = Some 1, rt_jitter = False\<rparr>,
     tk_timeout = None, tk_on_error = JNull, tk_idempotent = False\<rparr>"

definition sample_workflow :: workflow where
  "sample_workflow = \<lparr>wf_name = JStr ''w'', wf_tasks = [sample_task], wf_version = 1, wf_max_parallel = 1,
     wf_rate_limit = None, wf_providers = [], wf_default_retry = None, wf_default_timeout = None,
     wf_default_on_error = JStr ''fail_fast'', wf_inputs_schema = JObj [], wf_output = JNull\<rparr>"

definition sample_env :: run_env where
  "sample_env = \<lparr>ev_fl = (\<lambda>r. r), ev_fr = (\<lambda>r. []), ev_registry = new_registry, ev_llm = None, ev_run_id = ''r'',
     ev_clock = (\<lambda>tid k. 0), ev_end = (\<lambda>tid. 1), ev_random = (\<lambda>tid k. 0), ev_str_exn = exn_name\<rparr>"

text \<open>The skill is not registered: every one of the three attempts fails.\<close>

theorem execute_task_outcome_witness:
  "\<exists>s. execute_task sample_env sample_workflow sample_task [] [] = Inr s \<and> ts_status s = Failed
     \<and> ts_attempts s = 3 \<and> ts_error s = Some ''KeyError: KeyError''"
proof -
  have i: "result_of sample_env sample_task None (JObj []) k = AError ''KeyError: KeyError''" for k
    by (simp add: invoke_def sample_env_def sample_task_def get_skill_def new_registry_def)
  have r: "resolve_template (ev_fr sample_env) (run_scope [] []) (JObj (tk_inputs sample_task)) = Inr (JObj [])"
    by (simp add: sample_task_def)
  have "is_ok (execute_task sample_env sample_workflow sample_task [] [])"
    by (subst execute_task_raises) (simp_all add: r task_retry_def sample_task_def)
  then obtain s where s: "execute_task sample_env sample_workflow sample_task [] [] = Inr s"
    by (cases "execute_task sample_env sample_workflow sample_task [] []") auto
  have n: "task_timeout sample_workflow sample_task = None" "rt_max (task_retry sample_workflow sample_task) + 1 = 3"
    by (simp_all add: task_timeout_def task_retry_def sample_task_def sample_workflow_def)
  from execute_task_outcome [OF r s] show ?thesis using s unfolding n i by auto
qed

end
