(* ===== verification/Critical_Path.thy ===== *)
theory Critical_Path
  imports Run_Report Workflow_Validation
begin

text \<open>
  \<open>compute_critical_path\<close> of \<open>sdk-python/orchestrator/report.py\<close>: the memoised recursion
  over the succeeded tasks, with its two dictionaries passed along, and the proof that the
  chain it returns is a longest one. The recursion of the code ends in a
  \<open>RecursionError\<close> on cyclic dependencies; here it spends fuel, \<open>None\<close> is fuel that ran
  out, and the number of spans plus one is enough when the dependencies are acyclic.
\<close>

type_synonym spans = "(string, task_span) dict"
type_synonym dep_dict = "(string, string list) dict"
type_synonym memo = "(string, int) dict \<times> (string, string option) dict"

definition succeeded :: "spans \<Rightarrow> string \<Rightarrow> bool" where
  "succeeded spans n = (case dget spans n of None \<Rightarrow> False | Some s \<Rightarrow> ts_status s = Succeeded)"

definition own_cost :: "spans \<Rightarrow> string \<Rightarrow> int" where
  "own_cost spans n =
     (case dget spans n of None \<Rightarrow> 0 | Some s \<Rightarrow> if ts_status s = Succeeded then ts_duration_ms s else 0)"

definition deps_in :: "dep_dict \<Rightarrow> string \<Rightarrow> string list" where
  "deps_in deps n = (case dget deps n of None \<Rightarrow> [] | Some ds \<Rightarrow> ds)"

section \<open>The recursion\<close>

function cost :: "nat \<Rightarrow> spans \<Rightarrow> dep_dict \<Rightarrow> string \<Rightarrow> memo \<Rightarrow> (int \<times> memo) option"
  and cost_deps :: "nat \<Rightarrow> spans \<Rightarrow> dep_dict \<Rightarrow> string list \<Rightarrow> int \<Rightarrow> string option \<Rightarrow> memo
    \<Rightarrow> (int \<times> string option \<times> memo) option"
where
  "cost 0 spans deps node memo = None"
| "cost (Suc fuel) spans deps node memo =
     (case dget (fst memo) node of
        Some c \<Rightarrow> Some (c, memo)
      | None \<Rightarrow>
          (case cost_deps fuel spans deps (deps_in deps node) 0 None memo of
             None \<Rightarrow> None
           | Some (prev_best, prev_node, best_cost, best_prev) \<Rightarrow>
               let c = own_cost spans node + prev_best in
               Some (c, dset node c best_cost, dset node prev_node best_prev)))"
| "cost_deps fuel spans deps [] prev_best prev_node memo = Some (prev_best, prev_node, memo)"
| "cost_deps fuel spans deps (dep # ds) prev_best prev_node memo =
     (if succeeded spans dep then
        (case cost fuel spans deps dep memo of
           None \<Rightarrow> None
         | Some (c, memo') \<Rightarrow>
             if prev_best < c then cost_deps fuel spans deps ds c (Some dep) memo'
             else cost_deps fuel spans deps ds prev_best prev_node memo')
      else cost_deps fuel spans deps ds prev_best prev_node memo)"
  by pat_completeness auto

termination
  by (relation "measures
    [case_sum (\<lambda>(fuel, _). fuel) (\<lambda>(fuel, _). fuel),
     case_sum (\<lambda>_. 0) (\<lambda>_. 1),
     case_sum (\<lambda>_. 0) (\<lambda>(_, _, _, ds, _). length ds)]") auto

text \<open>\<open>max(succeeded, key=cost)\<close>: the first element of maximal cost.\<close>

fun max_cost :: "nat \<Rightarrow> spans \<Rightarrow> dep_dict \<Rightarrow> string list \<Rightarrow> (string \<times> int) option \<Rightarrow> memo
    \<Rightarrow> ((string \<times> int) option \<times> memo) option" where
  "max_cost fuel spans deps [] best memo = Some (best, memo)"
| "max_cost fuel spans deps (n # ns) best memo =
     (case cost fuel spans deps n memo of
        None \<Rightarrow> None
      | Some (c, memo') \<Rightarrow>
          (case best of
             None \<Rightarrow> max_cost fuel spans deps ns (Some (n, c)) memo'
           | Some (m, b) \<Rightarrow>
               if b < c then max_cost fuel spans deps ns (Some (n, c)) memo'
               else max_cost fuel spans deps ns best memo'))"

text \<open>The \<open>while\<close> loop over \<open>best_prev\<close>; a node without an entry ends it.\<close>

fun follow :: "nat \<Rightarrow> (string, string option) dict \<Rightarrow> string option \<Rightarrow> string list option" where
  "follow fuel best_prev None = Some []"
| "follow 0 best_prev (Some n) = None"
| "follow (Suc fuel) best_prev (Some n) =
     map_option ((#) n)
       (follow fuel best_prev (case dget best_prev n of None \<Rightarrow> None | Some p \<Rightarrow> p))"

definition compute_critical_path :: "nat \<Rightarrow> spans \<Rightarrow> dep_dict \<Rightarrow> string list option" where
  "compute_critical_path fuel spans deps =
     (let ids = map fst (filter (\<lambda>(tid, s). ts_status s = Succeeded) spans) in
      if ids = [] then Some []
      else case max_cost fuel spans deps ids None ([], []) of
             None \<Rightarrow> None
           | Some (None, _) \<Rightarrow> Some []
           | Some (Some (end', _), best_cost, best_prev) \<Rightarrow>
               map_option rev (follow fuel best_prev (Some end')))"


section \<open>Chains and their cost\<close>

definition live_deps :: "spans \<times> dep_dict \<Rightarrow> string \<Rightarrow> string list" where
  "live_deps sd n = (if succeeded (fst sd) n then filter (succeeded (fst sd)) (deps_in (snd sd) n) else [])"

definition live_nodes :: "spans \<times> dep_dict \<Rightarrow> string list" where
  "live_nodes sd = filter (succeeded (fst sd)) (dkeys (fst sd))"

definition live_acyclic :: "spans \<times> dep_dict \<Rightarrow> bool" where
  "live_acyclic sd \<longleftrightarrow> acyclic {(d, n). d \<in> set (live_deps sd n)}"

text \<open>A chain of succeeded tasks, each a dependency of the next.\<close>

definition dep_chain :: "spans \<Rightarrow> dep_dict \<Rightarrow> string list \<Rightarrow> bool" where
  "dep_chain spans deps p \<longleftrightarrow>
     list_all (succeeded spans) p \<and> successively (\<lambda>a b. a \<in> set (deps_in deps b)) p"

definition chain_cost :: "spans \<Rightarrow> string list \<Rightarrow> int" where
  "chain_cost spans p = sum_list (map (own_cost spans) p)"

lemma succeeded_key: "succeeded spans n \<Longrightarrow> n \<in> set (dkeys spans)"
  by (auto simp: succeeded_def split: option.splits dest: dget_Some_key)

interpretation live: task_dag live_acyclic live_nodes live_deps
  by unfold_locales
     (auto simp: live_deps_def live_nodes_def live_acyclic_def dest: succeeded_key)

abbreviation live_rel :: "spans \<times> dep_dict \<Rightarrow> (string \<times> string) set" where
  "live_rel sd \<equiv> {(d, n). d \<in> set (live_deps sd n)}"

abbreviation live_rank :: "spans \<times> dep_dict \<Rightarrow> string \<Rightarrow> nat" where
  "live_rank sd n \<equiv> card {m. (m, n) \<in> (live_rel sd)\<^sup>+}"

section \<open>The memo\<close>

text \<open>An entry of the memo bounds the entries of its dependencies, and its predecessor, if
  any, attains the bound.\<close>

definition entry_ok :: "spans \<times> dep_dict \<Rightarrow> memo \<Rightarrow> string \<Rightarrow> int \<Rightarrow> string option \<Rightarrow> bool" where
  "entry_ok sd m n c prev \<longleftrightarrow>
     succeeded (fst sd) n \<and> own_cost (fst sd) n \<le> c
     \<and> (\<forall>d \<in> set (live_deps sd n). \<exists>cd. dget (fst m) d = Some cd \<and> cd \<le> c - own_cost (fst sd) n)
     \<and> (case prev of
          None \<Rightarrow> c = own_cost (fst sd) n
        | Some d \<Rightarrow> d \<in> set (live_deps sd n) \<and> dget (fst m) d = Some (c - own_cost (fst sd) n))"

definition memo_ok :: "spans \<times> dep_dict \<Rightarrow> memo \<Rightarrow> bool" where
  "memo_ok sd m \<longleftrightarrow>
     (\<forall>n c. dget (fst m) n = Some c \<longrightarrow> (\<exists>prev. dget (snd m) n = Some prev \<and> entry_ok sd m n c prev))"

lemma memo_ok_empty: "memo_ok sd ([], [])"
  by (simp add: memo_ok_def)

lemma memo_entry:
  "memo_ok sd m \<Longrightarrow> dget (fst m) n = Some c \<Longrightarrow> \<exists>prev. dget (snd m) n = Some prev \<and> entry_ok sd m n c prev"
  by (simp add: memo_ok_def)

lemma entry_ok_mono: "entry_ok sd m n c prev \<Longrightarrow> dget (fst m) \<subseteq>\<^sub>m dget (fst m') \<Longrightarrow> entry_ok sd m' n c prev"
  by (auto simp: entry_ok_def map_le_def dom_def split: option.splits)

lemma memo_ok_insert:
  assumes m: "memo_ok sd (bc, bp)" and new: "n \<notin> dom (dget bc)" and e: "entry_ok sd (bc, bp) n c prev"
  shows "memo_ok sd (dset n c bc, dset n prev bp)"
proof -
  have le: "dget bc \<subseteq>\<^sub>m dget (dset n c bc)" using new by (auto simp: map_le_def)
  show ?thesis
    unfolding memo_ok_def
  proof (intro allI impI)
    fix x cx assume x: "dget (fst (dset n c bc, dset n prev bp)) x = Some cx"
    show "\<exists>p. dget (snd (dset n c bc, dset n prev bp)) x = Some p
        \<and> entry_ok sd (dset n c bc, dset n prev bp) x cx p"
    proof (cases "x = n")
      case True
      then show ?thesis using x entry_ok_mono [OF e, of "(dset n c bc, dset n prev bp)"] le by auto
    next
      case False
      then obtain p where "dget bp x = Some p" "entry_ok sd (bc, bp) x cx p"
        using m x by (auto simp: memo_ok_def)
      then show ?thesis using False entry_ok_mono [of sd "(bc, bp)" x cx p "(dset n c bc, dset n prev bp)"] le
        by auto
    qed
  qed
qed

lemma map_le_Some: "m \<subseteq>\<^sub>m m' \<Longrightarrow> m x = Some y \<Longrightarrow> m' x = Some y"
  by (metis domI map_le_def)

text \<open>What a call adds: entries of the node and its ancestors only.\<close>

definition grows :: "spans \<times> dep_dict \<Rightarrow> string set \<Rightarrow> memo \<Rightarrow> memo \<Rightarrow> bool" where
  "grows sd A m m' \<longleftrightarrow> dget (fst m) \<subseteq>\<^sub>m dget (fst m')
     \<and> dom (dget (fst m')) \<subseteq> dom (dget (fst m)) \<union> {x. \<exists>a \<in> A. (x, a) \<in> (live_rel sd)\<^sup>*}"

lemma grows_refl [simp]: "grows sd A m m"
  by (simp add: grows_def)

lemma grows_trans: "grows sd A m m1 \<Longrightarrow> grows sd B m1 m2 \<Longrightarrow> A \<union> B \<subseteq> C \<Longrightarrow> grows sd C m m2"
  unfolding grows_def by (blast intro: map_le_trans)

lemma cost_spec:
  "cost fuel spans deps n m = Some (c, m') \<Longrightarrow> live_acyclic (spans, deps) \<Longrightarrow>
     memo_ok (spans, deps) m \<Longrightarrow> succeeded spans n \<Longrightarrow>
     memo_ok (spans, deps) m' \<and> dget (fst m') n = Some c \<and> grows (spans, deps) {n} m m'"
  "cost_deps fuel spans deps ds pb pn m = Some (pb', pn', m') \<Longrightarrow> live_acyclic (spans, deps) \<Longrightarrow>
     memo_ok (spans, deps) m \<Longrightarrow>
     memo_ok (spans, deps) m' \<and> grows (spans, deps) (set (filter (succeeded spans) ds)) m m' \<and> pb \<le> pb'
     \<and> (\<forall>d \<in> set (filter (succeeded spans) ds). \<exists>cd. dget (fst m') d = Some cd \<and> cd \<le> pb')
     \<and> (pn' = pn \<and> pb' = pb
        \<or> (\<exists>d \<in> set (filter (succeeded spans) ds). pn' = Some d \<and> dget (fst m') d = Some pb'))"
proof (induction fuel spans deps n m and fuel spans deps ds pb pn m
    arbitrary: c m' and pb' pn' m' rule: cost_cost_deps.induct)
  case (1 spans deps node memo)
  then show ?case by simp
next
  case (2 fuel spans deps node memo)
  show ?case
  proof (cases "dget (fst memo) node")
    case (Some c')
    then show ?thesis using 2 by simp
  next
    case None
    let ?sd = "(spans, deps)"
    obtain pb pn bc bp where d: "cost_deps fuel spans deps (deps_in deps node) 0 None memo = Some (pb, pn, bc, bp)"
      and c: "c = own_cost spans node + pb" and m': "m' = (dset node c bc, dset node pn bp)"
      using "2.prems"(1) None by (auto simp: Let_def split: option.splits)
    note ih = "2.IH" [OF None d "2.prems"(2,3)]
    have live: "live_deps ?sd node = filter (succeeded spans) (deps_in deps node)"
      using "2.prems"(4) by (simp add: live_deps_def)
    have "(node, d) \<notin> (live_rel ?sd)\<^sup>*" if "d \<in> set (filter (succeeded spans) (deps_in deps node))" for d
      using that acyclic_no_cycle [of "live_rel ?sd" d node] "2.prems"(2) live
      by (simp add: live_acyclic_def)
    then have new: "node \<notin> dom (dget bc)"
      using ih None by (auto simp: grows_def)
    have "entry_ok ?sd (bc, bp) node c pn"
      using ih "2.prems"(4) by (auto simp: entry_ok_def live c)
    then have "memo_ok ?sd m'" unfolding m' using ih new by (intro memo_ok_insert) auto
    moreover have "dget bc \<subseteq>\<^sub>m dget (dset node c bc)" using new by (auto simp: map_le_def)
    moreover have "(x, node) \<in> (live_rel ?sd)\<^sup>*"
      if "a \<in> set (filter (succeeded spans) (deps_in deps node))" "(x, a) \<in> (live_rel ?sd)\<^sup>*" for x a
      using that live by (auto intro: rtrancl_into_rtrancl)
    moreover have "dget (fst memo) \<subseteq>\<^sub>m dget bc"
      "dom (dget bc) \<subseteq> dom (dget (fst memo)) \<union>
        {x. \<exists>a \<in> set (filter (succeeded spans) (deps_in deps node)). (x, a) \<in> (live_rel ?sd)\<^sup>*}"
      using ih by (simp_all add: grows_def)
    ultimately have "grows ?sd {node} memo m'"
      unfolding m' grows_def by (auto intro: map_le_trans)
    with \<open>memo_ok ?sd m'\<close> show ?thesis by (simp add: m')
  qed
next
  case (3 fuel spans deps pb pn memo)
  then show ?case by simp
next
  case (4 fuel spans deps dep ds pb pn memo)
  show ?case
  proof (cases "succeeded spans dep")
    case False
    then show ?thesis using "4.IH"(4) [OF False] "4.prems" by simp
  next
    case True
    then obtain c m1 where c: "cost fuel spans deps dep memo = Some (c, m1)"
      using "4.prems"(1) by (auto split: option.splits)
    note ih1 = "4.IH"(1) [OF True c "4.prems"(2,3) True]
    show ?thesis
    proof (cases "pb < c")
      case lt: True
      then have r: "cost_deps fuel spans deps ds c (Some dep) m1 = Some (pb', pn', m')"
        using "4.prems"(1) True c by simp
      note ih2 = "4.IH"(2) [OF True c refl lt r "4.prems"(2)]
      have g: "grows (spans, deps) (set (filter (succeeded spans) (dep # ds))) memo m'"
        using ih1 ih2 True by (auto intro: grows_trans)
      have "dget (fst m') dep = Some c" using ih1 ih2 map_le_Some by (auto simp: grows_def)
      then show ?thesis using ih1 ih2 g True lt by auto
    next
      case False
      then have r: "cost_deps fuel spans deps ds pb pn m1 = Some (pb', pn', m')"
        using "4.prems"(1) True c by simp
      note ih2 = "4.IH"(3) [OF True c refl False r "4.prems"(2)]
      have g: "grows (spans, deps) (set (filter (succeeded spans) (dep # ds))) memo m'"
        using ih1 ih2 True by (auto intro: grows_trans)
      have "dget (fst m') dep = Some c" using ih1 ih2 map_le_Some by (auto simp: grows_def)
      then show ?thesis using ih1 ih2 g True False by auto
    qed
  qed
qed


lemma cost_enough_fuel:
  "live_acyclic (spans, deps) \<Longrightarrow> succeeded spans n \<Longrightarrow> live_rank (spans, deps) n < fuel \<Longrightarrow>
     cost fuel spans deps n m \<noteq> None"
  "live_acyclic (spans, deps) \<Longrightarrow>
     (\<forall>d \<in> set (filter (succeeded spans) ds). live_rank (spans, deps) d < fuel) \<Longrightarrow>
     cost_deps fuel spans deps ds pb pn m \<noteq> None"
proof (induction fuel spans deps n m and fuel spans deps ds pb pn m rule: cost_cost_deps.induct)
  case (2 fuel spans deps node memo)
  show ?case
  proof (cases "dget (fst memo) node")
    case None
    have "\<forall>d \<in> set (filter (succeeded spans) (deps_in deps node)). live_rank (spans, deps) d < fuel"
    proof
      fix d assume "d \<in> set (filter (succeeded spans) (deps_in deps node))"
      then have "d \<in> set (live_deps (spans, deps) node)" using "2.prems"(2) by (simp add: live_deps_def)
      from live.rank_dep [OF "2.prems"(1) this] "2.prems"(3)
      show "live_rank (spans, deps) d < fuel" by simp
    qed
    from "2.IH" [OF None "2.prems"(1) this] None show ?thesis by (auto simp: Let_def)
  qed simp
next
  case (4 fuel spans deps dep ds pb pn memo)
  show ?case
  proof (cases "succeeded spans dep")
    case False
    then show ?thesis using "4.IH"(4) [OF False] "4.prems" by simp
  next
    case True
    then have "cost fuel spans deps dep memo \<noteq> None"
      using "4.IH"(1) [OF True "4.prems"(1) True] "4.prems"(2) by simp
    then obtain c m1 where c: "cost fuel spans deps dep memo = Some (c, m1)" by auto
    show ?thesis
      using "4.IH"(2,3) [OF True c refl _ "4.prems"(1)] "4.prems"(2) True c by simp
  qed
qed auto

lemma max_cost_spec:
  "max_cost fuel spans deps ns best m = Some (best', m') \<Longrightarrow> live_acyclic (spans, deps) \<Longrightarrow>
     memo_ok (spans, deps) m \<Longrightarrow> \<forall>n \<in> set ns. succeeded spans n \<Longrightarrow>
     (\<forall>e b. best = Some (e, b) \<longrightarrow> dget (fst m) e = Some b) \<Longrightarrow>
     memo_ok (spans, deps) m' \<and> (best' = None \<longrightarrow> best = None \<and> ns = [])
     \<and> dget (fst m) \<subseteq>\<^sub>m dget (fst m')
     \<and> (\<forall>e b. best' = Some (e, b) \<longrightarrow> dget (fst m') e = Some b
          \<and> (\<forall>e0 b0. best = Some (e0, b0) \<longrightarrow> b0 \<le> b)
          \<and> (\<forall>n \<in> set ns. \<exists>c. dget (fst m') n = Some c \<and> c \<le> b))"
proof (induction ns arbitrary: best m)
  case (Cons n ns)
  then obtain c m1 where c: "cost fuel spans deps n m = Some (c, m1)"
    by (auto split: option.splits)
  define best1 where "best1 = (case best of None \<Rightarrow> Some (n, c)
    | Some (e, b) \<Rightarrow> if b < c then Some (n, c) else best)"
  have r: "max_cost fuel spans deps ns best1 m1 = Some (best', m')"
    using Cons.prems(1) c by (auto simp: best1_def split: option.splits if_splits)
  have s: "memo_ok (spans, deps) m1" "dget (fst m1) n = Some c" "dget (fst m) \<subseteq>\<^sub>m dget (fst m1)"
    using cost_spec(1) [OF c Cons.prems(2,3)] Cons.prems(4) by (auto simp: grows_def)
  have b: "\<forall>e b. best1 = Some (e, b) \<longrightarrow> dget (fst m1) e = Some b"
    using Cons.prems(5) s(2) map_le_Some [OF s(3)] by (auto simp: best1_def split: option.splits)
  have ih: "memo_ok (spans, deps) m' \<and> (best' = None \<longrightarrow> best1 = None \<and> ns = [])
     \<and> dget (fst m1) \<subseteq>\<^sub>m dget (fst m')
     \<and> (\<forall>e b. best' = Some (e, b) \<longrightarrow> dget (fst m') e = Some b
          \<and> (\<forall>e0 b0. best1 = Some (e0, b0) \<longrightarrow> b0 \<le> b)
          \<and> (\<forall>n \<in> set ns. \<exists>c. dget (fst m') n = Some c \<and> c \<le> b))"
    by (rule Cons.IH [OF r Cons.prems(2) s(1) _ b]) (use Cons.prems(4) in simp)
  have le: "dget (fst m) \<subseteq>\<^sub>m dget (fst m')" using ih s(3) by (blast intro: map_le_trans)
  have n: "dget (fst m') n = Some c" by (rule map_le_Some [of "dget (fst m1)", OF _ s(2)]) (use ih in blast)
  obtain e1 b1 where e1: "best1 = Some (e1, b1)" "c \<le> b1"
    "\<And>e0 b0. best = Some (e0, b0) \<Longrightarrow> b0 \<le> b1"
  proof (cases best)
    case (Some eb)
    then show ?thesis
      by (cases eb; cases "snd eb < c") (use that in \<open>auto simp: best1_def not_less\<close>)
  qed (use that in \<open>auto simp: best1_def\<close>)
  then have "best' \<noteq> None" using ih by auto
  moreover have "dget (fst m') e = Some b \<and> (\<forall>e0 b0. best = Some (e0, b0) \<longrightarrow> b0 \<le> b)
      \<and> (\<forall>x \<in> set (n # ns). \<exists>c. dget (fst m') x = Some c \<and> c \<le> b)" if "best' = Some (e, b)" for e b
  proof -
    have "b1 \<le> b" using ih that e1(1) by blast
    then show ?thesis using ih that n e1(2,3) by (auto dest: order_trans)
  qed
  ultimately show ?case using ih le by blast
qed auto

lemma max_cost_enough_fuel:
  "live_acyclic (spans, deps) \<Longrightarrow> \<forall>n \<in> set ns. succeeded spans n \<and> live_rank (spans, deps) n < fuel \<Longrightarrow>
     max_cost fuel spans deps ns best m \<noteq> None"
proof (induction ns arbitrary: best m)
  case (Cons n ns)
  then obtain c m1 where "cost fuel spans deps n m = Some (c, m1)"
    using cost_enough_fuel(1) [of spans deps n fuel m] by auto
  then show ?case using Cons by (auto split: option.splits)
qed simp

text \<open>No chain costs more than the memo's entry of its end; the chain of predecessors costs
  exactly that.\<close>

lemma chain_bound:
  "dep_chain spans deps p \<Longrightarrow> p \<noteq> [] \<Longrightarrow> memo_ok (spans, deps) m \<Longrightarrow>
     dget (fst m) (last p) = Some c \<Longrightarrow> chain_cost spans p \<le> c"
proof (induction p arbitrary: c rule: rev_induct)
  case (snoc n p)
  then obtain prev where e: "entry_ok (spans, deps) m n c prev"
    using memo_entry [of "(spans, deps)" m n c] by auto
  show ?case
  proof (cases "p = []")
    case True
    then show ?thesis using e by (simp add: chain_cost_def entry_ok_def)
  next
    case False
    have ch: "dep_chain spans deps p" and l: "last p \<in> set (live_deps (spans, deps) n)"
      using snoc.prems(1) False
      by (auto simp: dep_chain_def successively_append_iff live_deps_def list_all_iff)
    then obtain cd where cd: "dget (fst m) (last p) = Some cd" "cd \<le> c - own_cost spans n"
      using e by (auto simp: entry_ok_def)
    have "chain_cost spans p \<le> cd" by (rule snoc.IH [OF ch False snoc.prems(3) cd(1)])
    then show ?thesis using cd(2) by (simp add: chain_cost_def)
  qed
qed simp

lemma follow_chain:
  "memo_ok (spans, deps) m \<Longrightarrow> live_acyclic (spans, deps) \<Longrightarrow> dget (fst m) n = Some c \<Longrightarrow>
     live_rank (spans, deps) n < fuel \<Longrightarrow>
     \<exists>p. follow fuel (snd m) (Some n) = Some p \<and> p \<noteq> [] \<and> hd p = n
       \<and> dep_chain spans deps (rev p) \<and> chain_cost spans (rev p) = c"
proof (induction fuel arbitrary: n c)
  case (Suc fuel)
  then obtain prev where p: "dget (snd m) n = Some prev" "entry_ok (spans, deps) m n c prev"
    using memo_entry [of "(spans, deps)" m n c] by auto
  show ?case
  proof (cases prev)
    case None
    then show ?thesis using p by (auto simp: entry_ok_def dep_chain_def chain_cost_def)
  next
    case (Some d)
    then have d: "d \<in> set (live_deps (spans, deps) n)" "dget (fst m) d = Some (c - own_cost spans n)"
      using p(2) by (auto simp: entry_ok_def)
    have "live_rank (spans, deps) d < fuel"
      using live.rank_dep [OF Suc.prems(2) d(1)] Suc.prems(4) by simp
    from Suc.IH [OF Suc.prems(1,2) d(2) this]
    obtain q where q: "follow fuel (snd m) (Some d) = Some q" "q \<noteq> []" "hd q = d"
      "dep_chain spans deps (rev q)" "chain_cost spans (rev q) = c - own_cost spans n" by auto
    have "d \<in> set (deps_in deps n)" "succeeded spans n"
      using d(1) by (auto simp: live_deps_def split: if_splits)
    then have "dep_chain spans deps (rev (n # q))"
      using q(2,3,4) by (auto simp: dep_chain_def successively_append_iff last_rev)
    then show ?thesis using q p(1) Some by (auto simp: chain_cost_def)
  qed
qed simp

lemma critical_path_longest:
  assumes "live_acyclic (spans, deps)" and "distinct (dkeys spans)" and "length spans \<le> fuel"
  shows "\<exists>p. compute_critical_path fuel spans deps = Some p
    \<and> dep_chain spans deps p \<and> (p = [] \<longleftrightarrow> (\<forall>n. \<not> succeeded spans n))
    \<and> (\<forall>q. q \<noteq> [] \<longrightarrow> dep_chain spans deps q \<longrightarrow> chain_cost spans q \<le> chain_cost spans p)"
proof -
  define ids where "ids = map fst (filter (\<lambda>(tid, s). ts_status s = Succeeded) spans)"
  have ids: "set ids = {n. succeeded spans n}"
  proof -
    have "succeeded spans n \<longleftrightarrow> (\<exists>s. dget spans n = Some s \<and> ts_status s = Succeeded)" for n
      by (auto simp: succeeded_def split: option.splits)
    then show ?thesis by (force simp: ids_def map_of_eq_Some_iff [OF assms(2)])
  qed
  have rank: "live_rank (spans, deps) n < fuel" if "succeeded spans n" for n
  proof -
    have "n \<in> set (live_nodes (spans, deps))"
      using that succeeded_key [OF that] by (auto simp: live_nodes_def)
    from live.rank_bound [OF assms(1) this]
    have "live_rank (spans, deps) n < length (live_nodes (spans, deps))" .
    also have "\<dots> \<le> length spans" by (auto simp: live_nodes_def intro: order_trans [OF length_filter_le])
    finally show ?thesis using assms(3) by simp
  qed
  show ?thesis
  proof (cases "ids = []")
    case True
    then have "\<not> succeeded spans n" for n using ids by auto
    then show ?thesis using True
      by (auto simp: compute_critical_path_def ids_def [symmetric] dep_chain_def list_all_iff neq_Nil_conv)
  next
    case False
    have "max_cost fuel spans deps ids None ([], []) \<noteq> None"
      using assms(1) ids rank by (intro max_cost_enough_fuel) blast+
    then obtain best bc bp where mc: "max_cost fuel spans deps ids None ([], []) = Some (best, bc, bp)"
      by auto
    have sp: "memo_ok (spans, deps) (bc, bp) \<and> best \<noteq> None
        \<and> (\<forall>e b. best = Some (e, b) \<longrightarrow> dget bc e = Some b
          \<and> (\<forall>n \<in> set ids. \<exists>c. dget bc n = Some c \<and> c \<le> b))"
      using max_cost_spec [OF mc assms(1) memo_ok_empty] ids False by auto
    then obtain e b where e: "best = Some (e, b)" "dget bc e = Some b" by auto
    have m: "memo_ok (spans, deps) (bc, bp)" using sp by blast
    then have "succeeded spans e" using e(2) memo_entry [OF m, of e b] by (auto simp: entry_ok_def)
    then obtain p where p: "follow fuel bp (Some e) = Some p" "p \<noteq> []"
      "dep_chain spans deps (rev p)" "chain_cost spans (rev p) = b"
      using follow_chain [OF m assms(1), of e b fuel] e(2) rank by auto
    have "chain_cost spans q \<le> b" if q: "q \<noteq> []" "dep_chain spans deps q" for q
    proof -
      have "succeeded spans (last q)" using q by (auto simp: dep_chain_def list_all_iff)
      then obtain c where "dget bc (last q) = Some c" "c \<le> b" using sp e(1) ids by blast
      then show ?thesis using chain_bound [OF q(2,1) m, of c] by simp
    qed
    then show ?thesis
      using p False mc e(1) \<open>succeeded spans e\<close> by (auto simp: compute_critical_path_def ids_def [symmetric])
  qed
qed

end
