(* ===== verification/Scheduler.thy ===== *)
theory Scheduler
  imports Task_Execution Critical_Path
begin

text \<open>
  The run loop of \<open>Orchestrator.run\<close> in \<open>sdk-python/orchestrator/engine.py\<close>. The state
  \<open>sched\<close> holds the local variables of the loop. A future is named by its task; what its
  coroutine will return is fixed when it is dispatched, from the results present at that
  moment (the coroutine reads \<open>results\<close> before the loop can change it again). Which futures
  \<open>asyncio.wait\<close> reports, and in which order the set \<open>done\<close> is walked, is the batch of a
  turn: any nonempty list of running tasks.
\<close>

section \<open>The dependency counters\<close>

text \<open>\<open>children[dep].append(t.id)\<close> on a \<open>defaultdict(list)\<close>: a missing key reads as the
  empty list.\<close>

definition child_list :: "graph \<Rightarrow> string \<Rightarrow> string list" where
  "child_list ch d = (case dget ch d of None \<Rightarrow> [] | Some cs \<Rightarrow> cs)"

fun add_children :: "string \<Rightarrow> string list \<Rightarrow> graph \<Rightarrow> graph" where
  "add_children tid [] ch = ch"
| "add_children tid (dep # deps) ch = add_children tid deps (dset dep (child_list ch dep @ [tid]) ch)"

fun build_graph :: "task list \<Rightarrow> graph \<Rightarrow> (string, int) dict \<Rightarrow> graph \<times> (string, int) dict" where
  "build_graph [] ch indeg = (ch, indeg)"
| "build_graph (t # ts) ch indeg =
     build_graph ts (add_children (tk_id t) (tk_depends_on t) ch)
       (dset (tk_id t) (int (length (tk_depends_on t))) indeg)"

definition children :: "workflow \<Rightarrow> graph" where
  "children w = fst (build_graph (wf_tasks w) [] [])"

definition indegrees :: "workflow \<Rightarrow> (string, int) dict" where
  "indegrees w = snd (build_graph (wf_tasks w) [] [])"

section \<open>The state of the loop\<close>

record sched =
  sc_indeg :: "(string, int) dict"
  sc_ready :: "string list"
  sc_running :: "(string, task_span res) dict"
  sc_skipped :: "string list"
  sc_spans :: spans
  sc_results :: "(string, json) dict"
  sc_totals :: totals
  sc_failed :: bool
  sc_first_error :: "string option"

definition init_sched :: "workflow \<Rightarrow> sched" where
  "init_sched w =
     \<lparr>sc_indeg = indegrees w,
      sc_ready = map tk_id (filter (\<lambda>t. dget (indegrees w) (tk_id t) = Some 0) (wf_tasks w)),
      sc_running = [], sc_skipped = [], sc_spans = [], sc_results = [],
      sc_totals = new_totals, sc_failed = False, sc_first_error = None\<rparr>"

section \<open>Skipping the descendants of a failed task\<close>

text \<open>The stack of \<open>mark_descendants_skipped\<close> with its top in front: \<open>pop\<close> takes the last
  element of the Python list, \<open>extend\<close> leaves the last child on top.\<close>

definition skippable :: "graph \<Rightarrow> string list \<Rightarrow> string set" where
  "skippable ch stack = set stack \<union> \<Union> (set ` snd ` set ch)"

lemma child_list_skippable: "set (child_list ch c) \<subseteq> skippable ch stack"
proof (cases "dget ch c")
  case (Some cs)
  then have "(c, cs) \<in> set ch" by (rule map_of_SomeD)
  then show ?thesis using Some by (force simp: child_list_def skippable_def)
qed (simp add: child_list_def)

function mark_skipped :: "graph \<Rightarrow> string list \<Rightarrow> string list \<Rightarrow> spans \<Rightarrow> string list \<times> spans" where
  "mark_skipped ch [] skipped spans = (skipped, spans)"
| "mark_skipped ch (cid # stack) skipped spans =
     (if cid \<in> set skipped \<or> cid \<in> set (dkeys spans) then mark_skipped ch stack skipped spans
      else mark_skipped ch (rev (child_list ch cid) @ stack) (cid # skipped)
             (dset cid (new_span cid Skipped) spans))"
  by pat_completeness auto

termination
proof (relation "measures [\<lambda>(ch, stack, skipped, spans). card (skippable ch stack - set (dkeys spans)),
    \<lambda>(ch, stack, skipped, spans). length stack]")
  fix ch :: graph and cid and stack skipped :: "string list" and spans :: spans
  let ?K = "set (dkeys spans)"
  have fin: "finite (skippable ch st)" for st by (simp add: skippable_def)
  show "((ch, stack, skipped, spans), (ch, cid # stack, skipped, spans))
    \<in> measures [\<lambda>(ch, stack, skipped, spans). card (skippable ch stack - set (dkeys spans)),
        \<lambda>(ch, stack, skipped, spans). length stack]"
    using card_mono [of "skippable ch (cid # stack) - ?K" "skippable ch stack - ?K"] fin
    by (auto simp: skippable_def le_less)
  assume "\<not> (cid \<in> set skipped \<or> cid \<in> ?K)"
  then have "cid \<in> skippable ch (cid # stack) - ?K" by (simp add: skippable_def)
  moreover have "skippable ch (rev (child_list ch cid) @ stack) - insert cid ?K
      \<subseteq> skippable ch (cid # stack) - ?K - {cid}"
    using child_list_skippable [of ch cid "cid # stack"] by (auto simp: skippable_def)
  ultimately have "card (skippable ch (rev (child_list ch cid) @ stack) - insert cid ?K)
      < card (skippable ch (cid # stack) - ?K)"
    by (intro psubset_card_mono) (use fin in auto)
  then show "((ch, rev (child_list ch cid) @ stack, cid # skipped, dset cid (new_span cid Skipped) spans),
      (ch, cid # stack, skipped, spans))
    \<in> measures [\<lambda>(ch, stack, skipped, spans). card (skippable ch stack - set (dkeys spans)),
        \<lambda>(ch, stack, skipped, spans). length stack]"
    by simp
qed simp

declare mark_skipped.simps [simp del]

definition mark_descendants_skipped :: "workflow \<Rightarrow> string \<Rightarrow> sched \<Rightarrow> sched" where
  "mark_descendants_skipped w start s =
     (let (skipped, spans) = mark_skipped (children w) (rev (child_list (children w) start))
            (sc_skipped s) (sc_spans s)
      in s\<lparr>sc_skipped := skipped, sc_spans := spans\<rparr>)"

section \<open>One finished future\<close>

text \<open>\<open>for c in children[tid]: indeg[c] -= 1 ...\<close>\<close>

fun release :: "string list \<Rightarrow> sched \<Rightarrow> sched res" where
  "release [] s = Inr s"
| "release (c # cs) s =
     (case dget (sc_indeg s) c of
        None \<Rightarrow> Inl (KeyError c)
      | Some n \<Rightarrow>
          (let s1 = s\<lparr>sc_indeg := dset c (n - 1) (sc_indeg s)\<rparr>
           in release cs (if n - 1 = 0 \<and> c \<notin> set (sc_skipped s)
                          then s1\<lparr>sc_ready := sc_ready s @ [c]\<rparr> else s1)))"

definition on_error_of :: "workflow \<Rightarrow> task \<Rightarrow> json" where
  "on_error_of w t = py_or (tk_on_error t) (wf_default_on_error w)"

text \<open>The fail-fast branch: the other futures are cancelled and awaited, their results
  dropped; every task without a span is skipped.\<close>

definition skip_rest :: "string list \<Rightarrow> spans \<Rightarrow> spans" where
  "skip_rest ids spans =
     fold (\<lambda>other sp. if other \<in> set (dkeys sp) then sp else dset other (new_span other Skipped) sp) ids spans"

definition fail_fast :: "workflow \<Rightarrow> sched \<Rightarrow> sched" where
  "fail_fast w s = s\<lparr>sc_failed := True, sc_running := [], sc_ready := [],
     sc_spans := skip_rest (dkeys (task_map w)) (sc_spans s)\<rparr>"

definition finish_task :: "workflow \<Rightarrow> string \<Rightarrow> task_span \<Rightarrow> sched \<Rightarrow> sched res" where
  "finish_task w tid sp s =
     (let s1 = s\<lparr>sc_spans := dset tid sp (sc_spans s), sc_totals := add_span_totals sp (sc_totals s)\<rparr>
      in if ts_status sp = Succeeded then
           release (child_list (children w) tid) (s1\<lparr>sc_results := dset tid (ts_output sp) (sc_results s1)\<rparr>)
         else
           (let s2 = s1\<lparr>sc_first_error :=
                  (case sc_first_error s1 of None \<Rightarrow> ts_error sp | Some e \<Rightarrow> Some e)\<rparr>
            in case dget (task_map w) tid of
                 None \<Rightarrow> Inl (KeyError tid)
               | Some t \<Rightarrow>
                   if on_error_of w t = JStr ''fail_fast'' then Inr (fail_fast w s2)
                   else Inr (mark_descendants_skipped w tid s2)))"

text \<open>\<open>for fut in done\<close>: \<open>fut.result()\<close> raises what the coroutine raised; \<open>break\<close> after a
  fail-fast.\<close>

fun process_batch :: "workflow \<Rightarrow> string list \<Rightarrow> sched \<Rightarrow> sched res" where
  "process_batch w [] s = Inr s"
| "process_batch w (tid # tids) s =
     (case dget (sc_running s) tid of
        None \<Rightarrow> Inl (KeyError tid)
      | Some result \<Rightarrow>
          rbind result (\<lambda>sp.
          rbind (finish_task w tid sp (s\<lparr>sc_running := ddel tid (sc_running s)\<rparr>)) (\<lambda>s'.
          if sc_failed s' then Inr s' else process_batch w tids s')))"

section \<open>One turn of the loop\<close>

text \<open>\<open>while ready\<close>: the argument list is the list \<open>sc_ready\<close> still to be popped.\<close>

fun dispatch :: "run_env \<Rightarrow> workflow \<Rightarrow> (string, json) dict \<Rightarrow> string list \<Rightarrow> sched \<Rightarrow> sched res" where
  "dispatch env w inputs [] s = Inr (s\<lparr>sc_ready := []\<rparr>)"
| "dispatch env w inputs (tid # tids) s =
     (if tid \<in> set (sc_skipped s) then dispatch env w inputs tids (s\<lparr>sc_ready := tids\<rparr>)
      else case dget (task_map w) tid of
             None \<Rightarrow> Inl (KeyError tid)
           | Some t \<Rightarrow> dispatch env w inputs tids
               (s\<lparr>sc_ready := tids,
                  sc_running := sc_running s @ [(tid, execute_task env w t inputs (sc_results s))]\<rparr>))"

datatype config =
    Loop sched
  | Finished sched
  | Raised py_error

definition turn :: "run_env \<Rightarrow> workflow \<Rightarrow> (string, json) dict \<Rightarrow> string list \<Rightarrow> sched \<Rightarrow> config" where
  "turn env w inputs batch s =
     (case dispatch env w inputs (sc_ready s) s of
        Inl e \<Rightarrow> Raised e
      | Inr s1 \<Rightarrow>
          if sc_running s1 = [] then Finished s1
          else case process_batch w batch s1 of
                 Inl e \<Rightarrow> Raised e
               | Inr s2 \<Rightarrow> if sc_failed s2 then Finished s2 else Loop s2)"

text \<open>What \<open>asyncio.wait(..., return_when=FIRST_COMPLETED)\<close> may report: at least one of
  the running futures, and none that waits for a semaphore of value 0 (with such a semaphore
  no task ever has a result, so the results are those of its dispatch).\<close>

definition slot_free :: "run_env \<Rightarrow> workflow \<Rightarrow> (string, json) dict \<Rightarrow> sched \<Rightarrow> string \<Rightarrow> bool" where
  "slot_free env w inputs s tid \<longleftrightarrow> 0 < wf_max_parallel w
     \<or> (case dget (task_map w) tid of None \<Rightarrow> False
        | Some t \<Rightarrow> \<not> needs_slot env w t inputs (sc_results s))"

definition batch_ok :: "run_env \<Rightarrow> workflow \<Rightarrow> (string, json) dict \<Rightarrow> string list \<Rightarrow> sched \<Rightarrow> bool" where
  "batch_ok env w inputs batch s =
     (case dispatch env w inputs (sc_ready s) s of
        Inl e \<Rightarrow> True
      | Inr s1 \<Rightarrow> sc_running s1 = []
          \<or> (batch \<noteq> [] \<and> distinct batch \<and> set batch \<subseteq> set (dkeys (sc_running s1))
             \<and> list_all (slot_free env w inputs s1) batch))"

inductive sched_step :: "run_env \<Rightarrow> workflow \<Rightarrow> (string, json) dict \<Rightarrow> config \<Rightarrow> config \<Rightarrow> bool"
  for env w inputs where
  "batch_ok env w inputs batch s \<Longrightarrow> sched_step env w inputs (Loop s) (turn env w inputs batch s)"

inductive_simps step_Loop [simp]: "sched_step env w inputs (Loop s) c"
inductive_simps step_Finished [simp]: "sched_step env w inputs (Finished s) c"
inductive_simps step_Raised [simp]: "sched_step env w inputs (Raised e) c"
inductive_cases stepE: "sched_step env w inputs c c'"

abbreviation sched_steps :: "run_env \<Rightarrow> workflow \<Rightarrow> (string, json) dict \<Rightarrow> config \<Rightarrow> config \<Rightarrow> bool" where
  "sched_steps env w inputs \<equiv> (sched_step env w inputs)\<^sup>*\<^sup>*"

text \<open>A run under a given list of batches, for evaluation.\<close>

fun run_turns :: "run_env \<Rightarrow> workflow \<Rightarrow> (string, json) dict \<Rightarrow> string list list \<Rightarrow> config \<Rightarrow> config option" where
  "run_turns env w inputs [] c = Some c"
| "run_turns env w inputs (b # bs) (Loop s) =
     (if batch_ok env w inputs b s then run_turns env w inputs bs (turn env w inputs b s) else None)"
| "run_turns env w inputs (b # bs) c = None"

lemma run_turns_steps: "run_turns env w inputs bs c = Some c' \<Longrightarrow> sched_steps env w inputs c c'"
proof (induction env w inputs bs c rule: run_turns.induct)
  case (2 env w inputs b bs s)
  then have "sched_step env w inputs (Loop s) (turn env w inputs b s)"
    by (auto split: if_splits)
  moreover have "sched_steps env w inputs (turn env w inputs b s) c'"
    using 2 by (auto split: if_splits)
  ultimately show ?case by (rule converse_rtranclp_into_rtranclp)
qed auto

section \<open>Facts about the operations\<close>

lemma child_list_dset: "child_list (dset d cs ch) x = (if x = d then cs else child_list ch x)"
  by (simp add: child_list_def)

lemma child_list_add:
  "child_list (add_children tid deps ch) d = child_list ch d @ replicate (count_list deps d) tid"
  by (induction tid deps ch rule: add_children.induct)
     (auto simp: child_list_dset replicate_app_Cons_same)

lemma child_list_empty [simp]: "child_list [] d = []"
  by (simp add: child_list_def)

lemma child_list_build:
  "child_list (fst (build_graph ts ch indeg)) d =
     child_list ch d @ concat (map (\<lambda>t. replicate (count_list (tk_depends_on t) d) (tk_id t)) ts)"
  by (induction ts ch indeg rule: build_graph.induct) (auto simp: child_list_add)

lemma dget_indeg_build:
  "dget (snd (build_graph ts ch indeg)) =
     dget indeg ++ map_of (rev (map (\<lambda>t. (tk_id t, int (length (tk_depends_on t)))) ts))"
  by (induction ts ch indeg rule: build_graph.induct)
     (auto simp: fun_eq_iff map_add_def split: option.splits)

lemma count_list_replicate: "count_list (replicate n x) y = (if x = y then n else 0)"
  by (induction n) auto

lemma count_parents_other:
  "c \<notin> tk_id ` set ts \<Longrightarrow>
     count_list (concat (map (\<lambda>t. replicate (count_list (tk_depends_on t) d) (tk_id t)) ts)) c = 0"
  by (induction ts) (auto simp: count_list_replicate)

lemma count_parents:
  "distinct (map tk_id ts) \<Longrightarrow> t \<in> set ts \<Longrightarrow>
     count_list (concat (map (\<lambda>t. replicate (count_list (tk_depends_on t) d) (tk_id t)) ts)) (tk_id t)
       = count_list (tk_depends_on t) d"
proof (induction ts)
  case (Cons u ts)
  show ?case
  proof (cases "t = u")
    case True
    then show ?thesis
      using Cons.prems(1) count_parents_other [of "tk_id u" ts d] by (simp add: count_list_replicate)
  next
    case False
    then have "t \<in> set ts" using Cons.prems by auto
    moreover then have "tk_id t \<noteq> tk_id u" using Cons.prems(1) by (metis distinct.simps(2) imageI list.set_map list.simps(9))
    ultimately
    show ?thesis using Cons by (simp add: count_list_replicate)
  qed
qed simp

lemma count_children:
  assumes "distinct (task_ids w)"
  shows "count_list (child_list (children w) d) c = count_list (deps_of w c) d"
proof (cases "c \<in> set (task_ids w)")
  case True
  then obtain t where t: "t \<in> set (wf_tasks w)" "c = tk_id t" by auto
  then show ?thesis
    using count_parents [of "wf_tasks w" t d] assms deps_of_task [OF assms t(1)]
    by (simp add: children_def child_list_build)
next
  case False
  then show ?thesis
    using count_parents_other [of c "wf_tasks w" d] deps_of_unknown [of c w]
    by (simp add: children_def child_list_build)
qed

lemma child_iff: "distinct (task_ids w) \<Longrightarrow> c \<in> set (child_list (children w) d) \<longleftrightarrow> d \<in> set (deps_of w c)"
  by (metis count_children count_list_0_iff)

lemma dget_indegrees:
  assumes "distinct (task_ids w)" and "c \<in> set (task_ids w)"
  shows "dget (indegrees w) c = Some (int (length (deps_of w c)))"
proof -
  obtain t where t: "t \<in> set (wf_tasks w)" "c = tk_id t" using assms(2) by auto
  have d: "distinct (dkeys (rev (map (\<lambda>t. (tk_id t, int (length (tk_depends_on t)))) (wf_tasks w))))"
    using assms(1) by (simp add: comp_def rev_map [symmetric])
  have "dget (rev (map (\<lambda>t. (tk_id t, int (length (tk_depends_on t)))) (wf_tasks w))) c
      = Some (int (length (tk_depends_on t)))"
    using t d by (simp del: rev_map distinct_map)
  then show ?thesis
    using t deps_of_task [OF assms(1) t(1)] by (simp add: indegrees_def dget_indeg_build)
qed

text \<open>\<open>release\<close> lowers the counters by the number of occurrences and releases what reaches
  zero, each task once.\<close>

lemma release_spec:
  "\<forall>c \<in> set cs. \<exists>n. dget (sc_indeg s) c = Some n \<and> int (count_list cs c) \<le> n \<Longrightarrow>
     \<exists>indeg xs. release cs s = Inr (s\<lparr>sc_indeg := indeg, sc_ready := sc_ready s @ xs\<rparr>)
       \<and> distinct xs
       \<and> set xs = {c \<in> set cs. dget (sc_indeg s) c = Some (int (count_list cs c)) \<and> c \<notin> set (sc_skipped s)}
       \<and> (\<forall>c. dget indeg c = map_option (\<lambda>n. n - int (count_list cs c)) (dget (sc_indeg s) c))"
proof (induction cs arbitrary: s)
  case Nil
  have "s = s\<lparr>sc_indeg := sc_indeg s, sc_ready := sc_ready s @ []\<rparr>" by simp
  moreover have "\<forall>c. dget (sc_indeg s) c = map_option (\<lambda>n. n - int (count_list [] c)) (dget (sc_indeg s) c)"
    by (simp add: option.map_ident)
  ultimately show ?case by (intro exI [of _ "sc_indeg s"] exI [of _ "[]"]) simp
next
  case (Cons c cs)
  obtain n where n: "dget (sc_indeg s) c = Some n" "int (count_list cs c) + 1 \<le> n"
    using Cons.prems by fastforce
  define s1 where "s1 = (if n - 1 = 0 \<and> c \<notin> set (sc_skipped s)
     then s\<lparr>sc_indeg := dset c (n - 1) (sc_indeg s), sc_ready := sc_ready s @ [c]\<rparr>
     else s\<lparr>sc_indeg := dset c (n - 1) (sc_indeg s)\<rparr>)"
  define new where "new = (if n - 1 = 0 \<and> c \<notin> set (sc_skipped s) then [c] else [])"
  have s1: "sc_indeg s1 = dset c (n - 1) (sc_indeg s)" "sc_skipped s1 = sc_skipped s"
    "sc_ready s1 = sc_ready s @ new"
    "s1\<lparr>sc_indeg := i, sc_ready := r\<rparr> = s\<lparr>sc_indeg := i, sc_ready := r\<rparr>" for i r
    by (simp_all add: s1_def new_def)
  have r: "release (c # cs) s = release cs s1"
    by (simp add: n(1) s1_def Let_def)
  have "\<forall>c \<in> set cs. \<exists>n. dget (sc_indeg s1) c = Some n \<and> int (count_list cs c) \<le> n"
    using Cons.prems n by (auto simp: s1(1))
  from Cons.IH [OF this] obtain indeg xs where ih:
    "release cs s1 = Inr (s1\<lparr>sc_indeg := indeg, sc_ready := sc_ready s1 @ xs\<rparr>)" "distinct xs"
    "set xs = {c \<in> set cs. dget (sc_indeg s1) c = Some (int (count_list cs c)) \<and> c \<notin> set (sc_skipped s1)}"
    "\<forall>c. dget indeg c = map_option (\<lambda>n. n - int (count_list cs c)) (dget (sc_indeg s1) c)"
    by blast
  have c0: "n = 1 \<Longrightarrow> c \<notin> set cs" using n(2) by (auto simp: count_list_0_iff [symmetric])
  have x: "set (new @ xs) = {x \<in> set (c # cs). dget (sc_indeg s) x = Some (int (count_list (c # cs) x))
      \<and> x \<notin> set (sc_skipped s)}"
    using c0 n by (auto simp: ih(3) s1(1,2) new_def count_list_0_iff)
  have d: "distinct (new @ xs)" using ih(2,3) c0 by (auto simp: new_def)
  have i: "\<forall>x. dget indeg x = map_option (\<lambda>n. n - int (count_list (c # cs) x)) (dget (sc_indeg s) x)"
    using ih(4) n(1) by (auto simp: s1(1))
  show ?case
    by (intro exI [of _ indeg] exI [of _ "new @ xs"] conjI x d i)
       (simp add: r ih(1) s1(3,4) del: release.simps)
qed

text \<open>\<open>mark_skipped\<close> adds skipped spans for what it can reach from the stack, and is closed
  under children.\<close>

lemma mark_skipped_spec:
  "mark_skipped ch stack skipped spans = (skipped', spans') \<Longrightarrow>
     \<exists>new. skipped' = rev new @ skipped \<and> spans' = spans @ map (\<lambda>c. (c, new_span c Skipped)) new
       \<and> distinct new \<and> set new \<inter> (set skipped \<union> set (dkeys spans)) = {}
       \<and> (\<forall>c \<in> set new. c \<in> set stack \<or> (\<exists>p \<in> set new. c \<in> set (child_list ch p)))
       \<and> set stack \<subseteq> set skipped' \<union> set (dkeys spans')
       \<and> (\<forall>c \<in> set new. set (child_list ch c) \<subseteq> set skipped' \<union> set (dkeys spans'))"
proof (induction ch stack skipped spans rule: mark_skipped.induct)
  case (1 ch skipped spans)
  then show ?case by (intro exI [of _ "[]"]) (simp add: mark_skipped.simps)
next
  case (2 ch cid stack skipped spans)
  show ?case
  proof (cases "cid \<in> set skipped \<or> cid \<in> set (dkeys spans)")
    case True
    then have m: "mark_skipped ch stack skipped spans = (skipped', spans')"
      using "2.prems" by (simp add: mark_skipped.simps)
    from "2.IH"(1) [OF True m] obtain new where "skipped' = rev new @ skipped"
       "spans' = spans @ map (\<lambda>c. (c, new_span c Skipped)) new"
       "distinct new" "set new \<inter> (set skipped \<union> set (dkeys spans)) = {}"
       "\<forall>c \<in> set new. c \<in> set stack \<or> (\<exists>p \<in> set new. c \<in> set (child_list ch p))"
       "set stack \<subseteq> set skipped' \<union> set (dkeys spans')"
       "\<forall>c \<in> set new. set (child_list ch c) \<subseteq> set skipped' \<union> set (dkeys spans')" by blast
    then show ?thesis using True by (intro exI [of _ new]) auto
  next
    case False
    let ?sp = "dset cid (new_span cid Skipped) spans"
    have sp: "?sp = spans @ [(cid, new_span cid Skipped)]" using False by (simp add: dset_new)
    have m: "mark_skipped ch (rev (child_list ch cid) @ stack) (cid # skipped) ?sp = (skipped', spans')"
      using "2.prems" False by (simp add: mark_skipped.simps)
    from "2.IH"(2) [OF False m] obtain new where new: "skipped' = rev new @ cid # skipped"
       "spans' = ?sp @ map (\<lambda>c. (c, new_span c Skipped)) new"
       "distinct new" "set new \<inter> (set (cid # skipped) \<union> set (dkeys ?sp)) = {}"
       "\<forall>c \<in> set new. c \<in> set (rev (child_list ch cid) @ stack) \<or> (\<exists>p \<in> set new. c \<in> set (child_list ch p))"
       "set (rev (child_list ch cid) @ stack) \<subseteq> set skipped' \<union> set (dkeys spans')"
       "\<forall>c \<in> set new. set (child_list ch c) \<subseteq> set skipped' \<union> set (dkeys spans')" by blast
    show ?thesis
    proof (intro exI [of _ "cid # new"] conjI)
      show "\<forall>c \<in> set (cid # new). c \<in> set (cid # stack) \<or> (\<exists>p \<in> set (cid # new). c \<in> set (child_list ch p))"
        using new(5) by auto
      show "set (cid # stack) \<subseteq> set skipped' \<union> set (dkeys spans')" using new(1,6) by auto
      show "\<forall>c \<in> set (cid # new). set (child_list ch c) \<subseteq> set skipped' \<union> set (dkeys spans')"
        using new(6,7) by auto
    qed (use new(1-4) False sp in auto)
  qed
qed

lemma skip_rest_spec:
  "\<exists>new. skip_rest ids spans = spans @ map (\<lambda>c. (c, new_span c Skipped)) new
     \<and> distinct new \<and> set new = set ids - set (dkeys spans)"
proof (induction ids arbitrary: spans)
  case (Cons i ids)
  show ?case
  proof (cases "i \<in> set (dkeys spans)")
    case True
    then show ?thesis using Cons.IH [of spans] by (auto simp: skip_rest_def)
  next
    case False
    let ?sp = "spans @ [(i, new_span i Skipped)]"
    obtain new where "skip_rest ids ?sp = ?sp @ map (\<lambda>c. (c, new_span c Skipped)) new"
      "distinct new" "set new = set ids - set (dkeys ?sp)"
      using Cons.IH by blast
    then show ?thesis using False
      by (intro exI [of _ "i # new"]) (auto simp: skip_rest_def dset_new)
  qed
qed (simp add: skip_rest_def)

end
