(* ===== verification/Fixtures.thy ===== *)
theory Fixtures
  imports Scheduler
begin

text \<open>
  A small workflow and its surroundings, for evaluating the model on concrete input: \<open>a\<close>
  and \<open>b\<close> start at once, \<open>c\<close> needs both and reads the output of \<open>a\<close>. The handler of the
  skill \<open>copy\<close> returns its inputs and calls one tool, the one of \<open>boom\<close> raises.
\<close>

definition demo_task :: "string \<Rightarrow> string \<Rightarrow> string list \<Rightarrow> (string, json) dict \<Rightarrow> task" where
  "demo_task i skill deps ins =
     \<lparr>tk_id = i, tk_skill = JStr skill, tk_provider = JNull, tk_depends_on = deps, tk_inputs = ins,
      tk_retry = None, tk_timeout = None, tk_on_error = JNull, tk_idempotent = False\<rparr>"

definition demo_workflow :: "string \<Rightarrow> string \<Rightarrow> workflow" where
  "demo_workflow skill_a on_error =
     \<lparr>wf_name = JStr ''demo'',
      wf_tasks = [demo_task ''a'' skill_a [] [(''x'', JStr ''${input.x}'')],
                  demo_task ''b'' ''copy'' [] [],
                  demo_task ''c'' ''copy'' [''a'', ''b''] [(''y'', JStr ''${a.output.x}'')]],
      wf_version = 1, wf_max_parallel = 4, wf_rate_limit = None, wf_providers = [],
      wf_default_retry = Some \<lparr>rt_max = 1, rt_backoff = JStr ''none'', rt_base = Some 1, rt_jitter = False\<rparr>,
      wf_default_timeout = Some 5, wf_default_on_error = JStr on_error,
      wf_inputs_schema = JObj [(''x'', JObj [(''required'', JBool True)])],
      wf_output = JStr ''${c.output.y}''\<rparr>"

definition copy_handler :: handler where
  "copy_handler c = \<lparr>hr_ops = [], hr_elapsed = 1, hr_outcome = Returns (cx_inputs c)\<rparr>"

definition boom_handler :: handler where
  "boom_handler c = \<lparr>hr_ops = [], hr_elapsed = 1, hr_outcome = Raises ''ValueError'' ''boom''\<rparr>"

definition demo_env :: run_env where
  "demo_env =
     \<lparr>ev_fl = (\<lambda>r. r), ev_fr = (\<lambda>r. ''0.0''),
      ev_registry = add_skill ''copy'' copy_handler (add_skill ''boom'' boom_handler new_registry),
      ev_llm = None, ev_run_id = ''r_0'', ev_clock = (\<lambda>tid k. 0), ev_end = (\<lambda>tid. 1),
      ev_random = (\<lambda>tid k. 0), ev_str_exn = (\<lambda>e. '''')\<rparr>"

definition demo_inputs :: "(string, json) dict" where
  "demo_inputs = [(''x'', JInt 7)]"

abbreviation demo_start :: "string \<Rightarrow> string \<Rightarrow> config" where
  "demo_start skill_a on_error \<equiv> Loop (init_sched (demo_workflow skill_a on_error))"

abbreviation demo_run :: "string \<Rightarrow> string \<Rightarrow> string list list \<Rightarrow> config option" where
  "demo_run skill_a on_error bs \<equiv>
     run_turns demo_env (demo_workflow skill_a on_error) demo_inputs bs (demo_start skill_a on_error)"

lemma demo_valid:
  "validate (demo_workflow ''copy'' ''fail_fast'') = Inr (demo_workflow ''copy'' ''fail_fast'')"
  by code_simp

text \<open>Three ways a run ends: without a fail-fast, after one, and with an exception.\<close>

fun ends_clean :: "config option \<Rightarrow> bool" where
  "ends_clean (Some (Finished s)) = (\<not> sc_failed s)"
| "ends_clean _ = False"

fun ends_failed :: "config option \<Rightarrow> bool" where
  "ends_failed (Some (Finished s)) = sc_failed s"
| "ends_failed _ = False"

lemma demo_clean: "ends_clean (demo_run ''copy'' ''fail_fast'' [[''b'', ''a''], [''c''], []])"
  by code_simp

lemma demo_skip: "ends_clean (demo_run ''boom'' ''continue'' [[''b''], [''a''], []])"
  by code_simp

lemma demo_fail_fast: "ends_failed (demo_run ''boom'' ''fail_fast'' [[''a'']])"
  by code_simp

end
