(* ===== verification/Scheduler_Correct.thy ===== *)
theory Scheduler_Correct
  imports Scheduler Fixtures
begin

text \<open>
  The invariant of the run loop and what follows from it: a task is dispatched exactly when
  its dependencies have succeeded, skipped exactly when one of them has not, and a run ends
  after at most as many turns as there are tasks, plus one, with a span for every task. The
  loop is an instance of the machine of the prelude. The last section compares the loop with
  a sequential evaluation of the tasks.
\<close>

section \<open>The invariant\<close>

abbreviation span_ids :: "sched \<Rightarrow> string set" where
  "span_ids s \<equiv> set (dkeys (sc_spans s))"

abbreviation running_ids :: "sched \<Rightarrow> string set" where
  "running_ids s \<equiv> set (dkeys (sc_running s))"

abbreviation executed_ids :: "sched \<Rightarrow> string set" where
  "executed_ids s \<equiv> span_ids s - set (sc_skipped s)"

abbreviation result_ids :: "sched \<Rightarrow> string set" where
  "result_ids s \<equiv> dom (dget (sc_results s))"

text \<open>\<open>r\<close> is what the coroutine of \<open>tid\<close> returns, started when all the dependencies of
  \<open>tid\<close> had results.\<close>

definition produced :: "run_env \<Rightarrow> workflow \<Rightarrow> (string, json) dict \<Rightarrow> (string \<Rightarrow> json option) \<Rightarrow> string \<Rightarrow> task_span res \<Rightarrow> bool" where
  "produced env w inputs results tid r \<longleftrightarrow>
     (\<exists>t rs. dget (task_map w) tid = Some t \<and> distinct (dkeys rs) \<and> dget rs \<subseteq>\<^sub>m results
        \<and> set (tk_depends_on t) \<subseteq> dom (dget rs) \<and> r = execute_task env w t inputs rs)"

definition tidy :: "workflow \<Rightarrow> sched \<Rightarrow> bool" where
  "tidy w s \<longleftrightarrow> distinct (sc_ready s @ dkeys (sc_running s) @ dkeys (sc_spans s))
     \<and> set (sc_ready s) \<union> running_ids s \<union> span_ids s \<subseteq> set (task_ids w)
     \<and> set (sc_skipped s) \<subseteq> span_ids s"

definition counted :: "workflow \<Rightarrow> sched \<Rightarrow> bool" where
  "counted w s \<longleftrightarrow> (\<forall>c \<in> set (task_ids w).
     dget (sc_indeg s) c = Some (int (length (filter (\<lambda>d. d \<notin> result_ids s) (deps_of w c)))))"

definition stored :: "sched \<Rightarrow> bool" where
  "stored s \<longleftrightarrow> (\<forall>c. dget (sc_results s) c = (case dget (sc_spans s) c of None \<Rightarrow> None
     | Some sp \<Rightarrow> if ts_status sp = Succeeded then Some (ts_output sp) else None))
   \<and> sc_totals s = sum_list (map (span_totals \<circ> snd) (sc_spans s))
   \<and> distinct (dkeys (sc_results s))"

definition released :: "workflow \<Rightarrow> sched \<Rightarrow> bool" where
  "released w s \<longleftrightarrow> (\<forall>c \<in> set (task_ids w).
     c \<in> set (sc_ready s) \<union> running_ids s \<union> executed_ids s \<longleftrightarrow> set (deps_of w c) \<subseteq> result_ids s)"

definition blocked :: "workflow \<Rightarrow> sched \<Rightarrow> bool" where
  "blocked w s \<longleftrightarrow>
     (\<forall>c. c \<in> set (sc_skipped s) \<longleftrightarrow> (\<exists>d \<in> set (deps_of w c). d \<in> span_ids s - result_ids s))
   \<and> (\<forall>c \<in> set (sc_skipped s). dget (sc_spans s) c = Some (new_span c Skipped))"

definition originated :: "run_env \<Rightarrow> workflow \<Rightarrow> (string, json) dict \<Rightarrow> sched \<Rightarrow> bool" where
  "originated env w inputs s \<longleftrightarrow>
     (\<forall>tid r. dget (sc_running s) tid = Some r \<longrightarrow> produced env w inputs (dget (sc_results s)) tid r)
   \<and> (\<forall>tid \<in> executed_ids s. \<forall>sp. dget (sc_spans s) tid = Some sp \<longrightarrow>
        produced env w inputs (dget (sc_results s)) tid (Inr sp))"

text \<open>The recorded error is the one of an executed task that did not succeed.\<close>

definition first_error_ok :: "sched \<Rightarrow> bool" where
  "first_error_ok s \<longleftrightarrow>
     (case sc_first_error s of
        None \<Rightarrow> executed_ids s \<subseteq> result_ids s
      | Some e \<Rightarrow> (\<exists>tid \<in> executed_ids s. \<exists>sp. dget (sc_spans s) tid = Some sp
          \<and> ts_status sp \<noteq> Succeeded \<and> ts_error sp = Some e))"

definition sched_inv :: "run_env \<Rightarrow> workflow \<Rightarrow> (string, json) dict \<Rightarrow> sched \<Rightarrow> bool" where
  "sched_inv env w inputs s \<longleftrightarrow> tidy w s \<and> counted w s \<and> stored s \<and> released w s \<and> blocked w s
     \<and> originated env w inputs s \<and> first_error_ok s \<and> \<not> sc_failed s"

lemmas sched_inv_defs = tidy_def counted_def stored_def released_def blocked_def
  originated_def first_error_ok_def

text \<open>After a fail-fast: every task has a span, made by executing the task or by skipping it,
  and one of the tasks that failed asked for it.\<close>

definition aborted :: "run_env \<Rightarrow> workflow \<Rightarrow> (string, json) dict \<Rightarrow> sched \<Rightarrow> bool" where
  "aborted env w inputs s \<longleftrightarrow>
     sc_failed s \<and> sc_ready s = [] \<and> sc_running s = []
   \<and> distinct (dkeys (sc_spans s)) \<and> span_ids s = set (task_ids w) \<and> stored s
   \<and> (\<forall>tid sp. dget (sc_spans s) tid = Some sp \<longrightarrow>
        sp = new_span tid Skipped \<or> produced env w inputs (dget (sc_results s)) tid (Inr sp))
   \<and> (\<exists>tid t sp. dget (task_map w) tid = Some t \<and> on_error_of w t = JStr ''fail_fast''
        \<and> dget (sc_spans s) tid = Some sp \<and> ts_status sp \<noteq> Succeeded
        \<and> produced env w inputs (dget (sc_results s)) tid (Inr sp))
   \<and> (\<exists>e tid sp. sc_first_error s = Some e \<and> dget (sc_spans s) tid = Some sp
        \<and> ts_status sp \<noteq> Succeeded \<and> ts_error sp = Some e)"

fun config_inv :: "run_env \<Rightarrow> workflow \<Rightarrow> (string, json) dict \<Rightarrow> config \<Rightarrow> bool" where
  "config_inv env w inputs (Loop s) = (well_formed w \<and> sched_inv env w inputs s)"
| "config_inv env w inputs (Finished s) =
     (well_formed w \<and> (if sc_failed s then aborted env w inputs s
      else sched_inv env w inputs s \<and> sc_ready s = [] \<and> sc_running s = []))"
| "config_inv env w inputs (Raised e) =
     (well_formed w \<and> (\<exists>s tid. sched_inv env w inputs s \<and> produced env w inputs (dget (sc_results s)) tid (Inl e)))"

lemma produced_mono: "produced env w inputs m tid r \<Longrightarrow> m \<subseteq>\<^sub>m m' \<Longrightarrow> produced env w inputs m' tid r"
  unfolding produced_def by (blast intro: map_le_trans)

lemma attempts_error:
  "attempts env t r timeout inputs ks sp e = Inr s \<Longrightarrow> ts_status s = Succeeded \<or> ts_error s \<noteq> None"
  by (induction ks arbitrary: sp e)
     (auto simp: Let_def result_simps split: prod.splits attempt_result.splits if_splits)

lemma execute_task_error:
  "execute_task env w t inputs rs = Inr s \<Longrightarrow> ts_status s = Succeeded \<or> ts_error s \<noteq> None"
  unfolding execute_task_def Let_def rbind_eq_Inr by (elim exE conjE, drule attempts_error)

lemma produced_span:
  assumes "produced env w inputs m tid (Inr sp)" and "distinct (task_ids w)"
  shows "ts_id sp = tid \<and> (ts_status sp = Succeeded \<or> ts_error sp \<noteq> None)"
proof -
  obtain t rs where "dget (task_map w) tid = Some t" and e: "execute_task env w t inputs rs = Inr sp"
    using assms(1) by (auto simp: produced_def)
  then have "tk_id t = tid" using dget_task_map [OF assms(2)] by simp
  then show ?thesis using execute_task_id [OF e] execute_task_error [OF e] by simp
qed

lemma released_iff:
  "released w s \<Longrightarrow> c \<in> set (task_ids w) \<Longrightarrow>
     c \<in> set (sc_ready s) \<union> running_ids s \<union> executed_ids s \<longleftrightarrow> set (deps_of w c) \<subseteq> result_ids s"
  by (simp only: released_def)

section \<open>Dispatching\<close>

lemma dispatch_spec:
  "\<forall>tid \<in> set tids. tid \<notin> set (sc_skipped s) \<and> tid \<in> set (task_ids w) \<Longrightarrow>
     dispatch env w inputs tids s = Inr (s\<lparr>sc_ready := [], sc_running := sc_running s
       @ map (\<lambda>tid. (tid, execute_task env w (the (dget (task_map w) tid)) inputs (sc_results s))) tids\<rparr>)"
proof (induction tids arbitrary: s)
  case (Cons tid tids)
  obtain t where t: "dget (task_map w) tid = Some t"
    using Cons.prems dget_task_map_None [of w tid] by (cases "dget (task_map w) tid") auto
  show ?case using Cons by (simp add: t)
qed simp

lemma ready_not_skipped:
  "sched_inv env w inputs s \<Longrightarrow> tid \<in> set (sc_ready s) \<Longrightarrow> tid \<notin> set (sc_skipped s) \<and> tid \<in> set (task_ids w)"
  by (auto simp: sched_inv_def tidy_def)

lemma dget_map_pair: "dget (map (\<lambda>k. (k, f k)) ks) k = (if k \<in> set ks then Some (f k) else None)"
  by (induction ks) auto

lemma dispatch_inv:
  assumes "well_formed w" and "sched_inv env w inputs s"
  shows "\<exists>s1. dispatch env w inputs (sc_ready s) s = Inr s1 \<and> sched_inv env w inputs s1
    \<and> sc_ready s1 = [] \<and> sc_spans s1 = sc_spans s"
proof -
  let ?run = "\<lambda>tid. execute_task env w (the (dget (task_map w) tid)) inputs (sc_results s)"
  let ?s1 = "s\<lparr>sc_ready := [], sc_running := sc_running s @ map (\<lambda>tid. (tid, ?run tid)) (sc_ready s)\<rparr>"
  have d: "distinct (task_ids w)" using assms(1) by (simp add: well_formed_def)
  have p: "produced env w inputs (dget (sc_results s)) tid (?run tid)" if r: "tid \<in> set (sc_ready s)" for tid
  proof -
    have i: "tid \<in> set (task_ids w)" using ready_not_skipped [OF assms(2) r] by simp
    then obtain t where t: "dget (task_map w) tid = Some t"
      using dget_task_map_None [of w tid] by (cases "dget (task_map w) tid") auto
    have "set (deps_of w tid) \<subseteq> result_ids s"
      using assms(2) r released_iff [OF _ i, of s] by (simp add: sched_inv_def)
    moreover have "distinct (dkeys (sc_results s))" using assms(2) by (simp add: sched_inv_def stored_def)
    ultimately show ?thesis using t by (auto simp: produced_def deps_of_def intro!: exI [of _ "sc_results s"])
  qed
  have "tidy w ?s1" using assms(2) by (auto simp: sched_inv_def tidy_def comp_def)
  moreover have "released w ?s1"
    using assms(2) unfolding sched_inv_def released_def by (simp add: image_image comp_def) blast
  moreover have "originated env w inputs ?s1"
    using assms(2) p unfolding sched_inv_def originated_def
    by (auto simp: map_add_def dget_map_pair split: option.splits if_splits)
  moreover have "counted w ?s1 = counted w s" "stored ?s1 = stored s" "blocked w ?s1 = blocked w s"
    by (simp_all add: counted_def stored_def blocked_def)
  moreover have "first_error_ok ?s1 = first_error_ok s"
    by (cases "sc_first_error s") (simp_all add: first_error_ok_def)
  ultimately have "sched_inv env w inputs ?s1"
    using assms(2) by (simp add: sched_inv_def)
  moreover have "dispatch env w inputs (sc_ready s) s = Inr ?s1"
    by (rule dispatch_spec) (use ready_not_skipped [OF assms(2)] in blast)
  ultimately show ?thesis by auto
qed

section \<open>Finishing a task\<close>

lemma counted_get:
  "counted w s \<Longrightarrow> c \<in> set (task_ids w) \<Longrightarrow>
     dget (sc_indeg s) c = Some (int (length (filter (\<lambda>d. d \<notin> result_ids s) (deps_of w c))))"
  by (simp only: counted_def)

lemma stored_dom: "stored s \<Longrightarrow> result_ids s \<subseteq> span_ids s"
proof
  fix c assume s: "stored s" and c: "c \<in> result_ids s"
  from s have e: "dget (sc_results s) c = (case dget (sc_spans s) c of None \<Rightarrow> None
     | Some sp \<Rightarrow> if ts_status sp = Succeeded then Some (ts_output sp) else None)"
    by (simp add: stored_def)
  show "c \<in> span_ids s"
  proof (cases "dget (sc_spans s) c")
    case None
    then show ?thesis using c e by auto
  next
    case (Some sp)
    then show ?thesis by (auto dest: dget_Some_key)
  qed
qed

text \<open>What the invariant says of a running task.\<close>

lemma running_facts:
  assumes "sched_inv env w inputs s" and "dget (sc_running s) tid = Some r"
  shows "tid \<in> set (task_ids w)" "tid \<notin> span_ids s" "tid \<notin> set (sc_ready s)" "tid \<notin> set (sc_skipped s)"
    "tid \<notin> result_ids s" "set (deps_of w tid) \<subseteq> result_ids s" "result_ids s \<subseteq> span_ids s"
    "distinct (dkeys (sc_running s))" "produced env w inputs (dget (sc_results s)) tid r"
    "dset tid x (sc_spans s) = sc_spans s @ [(tid, x)]"
proof -
  have k: "tid \<in> running_ids s" using assms(2) by (metis dget_Some_key list.set_map)
  have t: "tidy w s" using assms(1) by (simp add: sched_inv_def)
  then show i: "tid \<in> set (task_ids w)" and f: "tid \<notin> span_ids s" and "tid \<notin> set (sc_ready s)"
    and "tid \<notin> set (sc_skipped s)" and "distinct (dkeys (sc_running s))"
    using k by (auto simp: tidy_def)
  show r: "result_ids s \<subseteq> span_ids s"
    using assms(1) stored_dom by (simp add: sched_inv_def)
  then show "tid \<notin> result_ids s" using f by blast
  show "set (deps_of w tid) \<subseteq> result_ids s"
    using released_iff [OF _ i, of s] assms(1) k by (auto simp: sched_inv_def)
  show "produced env w inputs (dget (sc_results s)) tid r"
    using assms by (simp add: sched_inv_def originated_def)
  show "dset tid x (sc_spans s) = sc_spans s @ [(tid, x)]" by (rule dset_new) (use f in simp)
qed

lemma filter_count: "a \<notin> A \<Longrightarrow> count_list xs a \<le> length (filter (\<lambda>d. d \<notin> A) xs)"
  using length_filter_remove [of a A xs] by linarith

text \<open>The counters after a success.\<close>

lemma release_children:
  assumes w: "well_formed w" and inv: "sched_inv env w inputs s" and run: "dget (sc_running s) tid = Some r"
    and s1: "sc_indeg s1 = sc_indeg s" "sc_skipped s1 = sc_skipped s"
  shows "\<exists>indeg xs. release (child_list (children w) tid) s1 = Inr (s1\<lparr>sc_indeg := indeg, sc_ready := sc_ready s1 @ xs\<rparr>)
    \<and> distinct xs
    \<and> set xs = {c. tid \<in> set (deps_of w c) \<and> set (deps_of w c) \<subseteq> insert tid (result_ids s) \<and> c \<notin> set (sc_skipped s)}
    \<and> (\<forall>c \<in> set (task_ids w). dget indeg c = Some (int (length (filter (\<lambda>d. d \<notin> insert tid (result_ids s)) (deps_of w c)))))"
proof -
  have d: "distinct (task_ids w)" using w by (simp add: well_formed_def)
  have cnt: "c \<in> set (task_ids w) \<Longrightarrow>
      dget (sc_indeg s1) c = Some (int (length (filter (\<lambda>d. d \<notin> result_ids s) (deps_of w c))))" for c
    using inv s1(1) counted_get [of w s c] by (simp add: sched_inv_def)
  have tr: "tid \<notin> result_ids s" by (rule running_facts [OF inv run])
  have node: "tid \<in> set (deps_of w c) \<Longrightarrow> c \<in> set (task_ids w)" for c
    using deps_of_unknown [of c w] by fastforce
  have pre: "\<forall>c \<in> set (child_list (children w) tid). \<exists>n. dget (sc_indeg s1) c = Some n
      \<and> int (count_list (child_list (children w) tid) c) \<le> n"
    using cnt node filter_count [OF tr] by (auto simp: child_iff [OF d] count_children [OF d] simp del: set_map)
  obtain indeg xs where r: "release (child_list (children w) tid) s1 = Inr (s1\<lparr>sc_indeg := indeg, sc_ready := sc_ready s1 @ xs\<rparr>)"
    "distinct xs"
    "set xs = {c \<in> set (child_list (children w) tid).
       dget (sc_indeg s1) c = Some (int (count_list (child_list (children w) tid) c)) \<and> c \<notin> set (sc_skipped s1)}"
    "\<forall>c. dget indeg c = map_option (\<lambda>n. n - int (count_list (child_list (children w) tid) c)) (dget (sc_indeg s1) c)"
    using release_spec [OF pre] by blast
  have eq: "length (filter (\<lambda>d. d \<notin> result_ids s) (deps_of w c)) = count_list (deps_of w c) tid
      \<longleftrightarrow> set (deps_of w c) \<subseteq> insert tid (result_ids s)" for c
    using length_filter_remove [OF tr, of "deps_of w c"]
      filter_in_set_length [of "\<lambda>d. d \<notin> insert tid (result_ids s)" "deps_of w c"] by auto
  have "set xs = {c. tid \<in> set (deps_of w c) \<and> set (deps_of w c) \<subseteq> insert tid (result_ids s) \<and> c \<notin> set (sc_skipped s)}"
    using cnt node eq by (auto simp: r(3) s1(2) child_iff [OF d] count_children [OF d] simp del: set_map)
  moreover have "dget indeg c = Some (int (length (filter (\<lambda>d. d \<notin> insert tid (result_ids s)) (deps_of w c))))"
    if "c \<in> set (task_ids w)" for c
    using r(4) cnt [OF that] length_filter_remove [OF tr, of "deps_of w c"]
    by (simp add: count_children [OF d])
  ultimately show ?thesis using r(1,2) by blast
qed

text \<open>Both outcomes of a task extend the spans by its own span and spans of skipped tasks.\<close>

definition extended :: "string \<Rightarrow> task_span \<Rightarrow> string list \<Rightarrow> sched \<Rightarrow> sched \<Rightarrow> bool" where
  "extended tid sp new s s' \<longleftrightarrow>
     sc_spans s' = sc_spans s @ (tid, sp) # map (\<lambda>c. (c, new_span c Skipped)) new
   \<and> sc_results s' = (if ts_status sp = Succeeded then dset tid (ts_output sp) (sc_results s) else sc_results s)
   \<and> sc_totals s' = add_span_totals sp (sc_totals s)
   \<and> tid \<notin> span_ids s \<and> tid \<notin> set new \<and> distinct new \<and> set new \<inter> span_ids s = {}"

lemma dget_extended:
  "extended tid sp new s s' \<Longrightarrow> dget (sc_spans s') c =
     (if c = tid then Some sp else if c \<in> set new then Some (new_span c Skipped) else dget (sc_spans s) c)"
proof -
  assume e: "extended tid sp new s s'"
  then have "dget (sc_spans s) tid = None" "c \<in> set new \<Longrightarrow> dget (sc_spans s) c = None"
    by (auto simp: extended_def map_of_eq_None_iff disjoint_iff image_iff)
  then show ?thesis
    using e by (auto simp: extended_def map_add_def dget_map_pair split: option.splits)
qed

lemma extended_ids:
  "extended tid sp new s s' \<Longrightarrow> span_ids s' = insert tid (span_ids s \<union> set new)
     \<and> result_ids s' = (if ts_status sp = Succeeded then insert tid (result_ids s) else result_ids s)"
  by (auto simp: extended_def image_image)

lemma extended_results:
  "extended tid sp new s s' \<Longrightarrow> stored s \<Longrightarrow> dget (sc_results s) \<subseteq>\<^sub>m dget (sc_results s')"
  using stored_dom [of s] by (auto simp: extended_def map_le_def)

lemma skipped_totals: "span_totals (new_span c Skipped) = 0"
  by (simp add: span_totals_def add_span_totals_def new_span_def zero_totals_ext_def)

lemma extended_stored:
  assumes e: "extended tid sp new s s'" and s: "stored s"
  shows "stored s'"
  unfolding stored_def
proof (intro conjI allI)
  have "sum_list (map (span_totals \<circ> snd) (map (\<lambda>c. (c, new_span c Skipped)) new)) = 0" for new
    by (induction new) (simp_all add: skipped_totals)
  then show "sc_totals s' = sum_list (map (span_totals \<circ> snd) (sc_spans s'))"
    using s e by (simp add: extended_def stored_def add_span_totals)
  show "distinct (dkeys (sc_results s'))" using s e by (simp add: extended_def stored_def)
  fix c show "dget (sc_results s') c = (case dget (sc_spans s') c of None \<Rightarrow> None
    | Some sp \<Rightarrow> if ts_status sp = Succeeded then Some (ts_output sp) else None)"
  proof (cases "c = tid \<or> c \<in> set new")
    case True
    then have "c \<notin> span_ids s" using e by (auto simp: extended_def)
    then have "dget (sc_results s) c = None" using stored_dom [OF s] by blast
    then show ?thesis using True e
      by (auto simp: dget_extended [OF e] new_span_def) (auto simp: extended_def)
  next
    case False
    then have "dget (sc_results s') c = dget (sc_results s) c" using e by (simp add: extended_def)
    then show ?thesis using False s by (simp add: dget_extended [OF e] stored_def)
  qed
qed

lemma extended_originated:
  assumes e: "extended tid sp new s s'" and s: "stored s" and o: "originated env w inputs s"
    and run: "dget (sc_running s) tid = Some (Inr sp)"
    and r: "\<And>c q. dget (sc_running s') c = Some q \<Longrightarrow> dget (sc_running s) c = Some q"
    and x: "executed_ids s' \<subseteq> insert tid (executed_ids s)"
  shows "originated env w inputs s'"
  unfolding originated_def
proof (intro conjI allI ballI impI)
  note le = extended_results [OF e s]
  have old: "dget (sc_running s) c = Some q \<Longrightarrow> produced env w inputs (dget (sc_results s')) c q" for c q
    using o by (intro produced_mono [OF _ le]) (simp add: originated_def)
  fix c q
  { assume "dget (sc_running s') c = Some q"
    then show "produced env w inputs (dget (sc_results s')) c q" by (rule old [OF r]) }
  assume c: "c \<in> executed_ids s'" and q: "dget (sc_spans s') c = Some q"
  show "produced env w inputs (dget (sc_results s')) c (Inr q)"
  proof (cases "c = tid")
    case True
    then show ?thesis using old [OF run] q by (simp add: dget_extended [OF e])
  next
    case False
    then have c: "c \<in> executed_ids s" using c x by blast
    then have "c \<notin> set new" using e by (auto simp: extended_def)
    then have "dget (sc_spans s) c = Some q" using q False by (simp add: dget_extended [OF e])
    then show ?thesis using o c by (intro produced_mono [OF _ le]) (simp add: originated_def)
  qed
qed

text \<open>A task that succeeded.\<close>

lemma finish_succeeded:
  assumes w: "well_formed w" and inv: "sched_inv env w inputs s"
    and run: "dget (sc_running s) tid = Some (Inr sp)" and ok: "ts_status sp = Succeeded"
  shows "\<exists>s'. finish_task w tid sp (s\<lparr>sc_running := ddel tid (sc_running s)\<rparr>) = Inr s'
    \<and> sched_inv env w inputs s' \<and> sc_running s' = ddel tid (sc_running s)
    \<and> length (sc_spans s) < length (sc_spans s')"
proof -
  note f = running_facts [OF inv run]
  define s1 where "s1 = s\<lparr>sc_running := ddel tid (sc_running s), sc_spans := sc_spans s @ [(tid, sp)],
    sc_totals := add_span_totals sp (sc_totals s), sc_results := dset tid (ts_output sp) (sc_results s)\<rparr>"
  have s1: "sc_indeg s1 = sc_indeg s" "sc_skipped s1 = sc_skipped s" by (simp_all add: s1_def)
  obtain indeg xs where r: "release (child_list (children w) tid) s1 = Inr (s1\<lparr>sc_indeg := indeg, sc_ready := sc_ready s1 @ xs\<rparr>)"
    "distinct xs"
    "set xs = {c. tid \<in> set (deps_of w c) \<and> set (deps_of w c) \<subseteq> insert tid (result_ids s) \<and> c \<notin> set (sc_skipped s)}"
    "\<forall>c \<in> set (task_ids w). dget indeg c = Some (int (length (filter (\<lambda>d. d \<notin> insert tid (result_ids s)) (deps_of w c))))"
    using release_children [OF w inv run s1] by blast
  define s' where "s' = s1\<lparr>sc_indeg := indeg, sc_ready := sc_ready s1 @ xs\<rparr>"
  have fields: "sc_indeg s' = indeg" "sc_ready s' = sc_ready s @ xs" "sc_running s' = ddel tid (sc_running s)"
    "sc_skipped s' = sc_skipped s" "sc_spans s' = sc_spans s @ [(tid, sp)]"
    "sc_failed s' = sc_failed s" "sc_first_error s' = sc_first_error s"
    by (simp_all add: s'_def s1_def)
  have ext: "extended tid sp [] s s'" using ok f(2) by (simp add: extended_def s'_def s1_def)
  have ids: "result_ids s' = insert tid (result_ids s)" "span_ids s' = insert tid (span_ids s)"
    "running_ids s' = running_ids s - {tid}" "executed_ids s' = insert tid (executed_ids s)"
    using f(4,8) extended_ids [OF ext] ok by (auto simp: fields set_dkeys_ddel)
  have inv_s: "tidy w s" "counted w s" "stored s" "released w s" "blocked w s" "originated env w inputs s"
    "first_error_ok s" "\<not> sc_failed s" using inv by (simp_all add: sched_inv_def)
  note rel = released_iff [OF inv_s(4)]
  have node: "tid \<in> set (deps_of w c) \<Longrightarrow> c \<in> set (task_ids w)" for c
    using deps_of_unknown [of c w] by fastforce
  have xs: "set xs \<inter> (set (sc_ready s) \<union> running_ids s \<union> span_ids s) = {}" "set xs \<subseteq> set (task_ids w)"
    using r(3) rel node f(5) by blast+
  have "tid \<in> running_ids s" using run by (metis dget_Some_key list.set_map)
  then have tx: "tid \<notin> set xs" using xs(1) by blast
  have "tidy w s'"
    using inv_s(1) xs tx r(2) f(1-4,8) unfolding tidy_def ids
    by (auto simp: fields set_dkeys_ddel dest: set_ddel_subset [THEN subsetD])
  moreover have "counted w s'" unfolding counted_def ids fields(1) by (rule r(4))
  moreover have "released w s'"
    unfolding released_def ids(1,3,4) fields(2)
  proof
    fix c assume c: "c \<in> set (task_ids w)"
    have "c \<in> set (sc_skipped s) \<Longrightarrow> \<not> set (deps_of w c) \<subseteq> insert tid (result_ids s)"
      using inv_s(5) f(2) unfolding blocked_def by blast
    then have "c \<in> set xs \<longleftrightarrow> tid \<in> set (deps_of w c) \<and> set (deps_of w c) \<subseteq> insert tid (result_ids s)"
      using r(3) by blast
    then show "c \<in> set (sc_ready s @ xs) \<union> (running_ids s - {tid}) \<union> insert tid (executed_ids s)
        \<longleftrightarrow> set (deps_of w c) \<subseteq> insert tid (result_ids s)"
      using rel [OF c] f(6) by auto
  qed
  moreover have "blocked w s'"
    using inv_s(5) f(2,4,5) unfolding blocked_def ids by (auto simp: fields map_add_def)
  moreover have "originated env w inputs s'"
    by (rule extended_originated [OF ext inv_s(3,6) run]) (use f(8) ids in \<open>auto simp: fields dget_ddel split: if_splits\<close>)
  moreover have "first_error_ok s'"
    using inv_s(7) f(2) unfolding first_error_ok_def ids(1,4) fields(7)
    by (auto simp: fields map_add_def split: option.splits)
  ultimately have "sched_inv env w inputs s'"
    using inv_s(8) extended_stored [OF ext inv_s(3)] by (simp add: sched_inv_def fields(6))
  moreover have "finish_task w tid sp (s\<lparr>sc_running := ddel tid (sc_running s)\<rparr>) = Inr s'"
    using r(1) ok f(10) by (simp add: finish_task_def s1_def s'_def)
  ultimately show ?thesis by (auto simp: fields)
qed

text \<open>A task that did not succeed, under any error policy but fail-fast.\<close>

lemma mark_descendants:
  assumes w: "well_formed w" and inv: "sched_inv env w inputs s" and run: "dget (sc_running s) tid = Some r"
    and m: "mark_skipped (children w) (rev (child_list (children w) tid)) (sc_skipped s) (sc_spans s @ [(tid, sp)])
      = (skipped, spans)"
  shows "\<exists>new. skipped = rev new @ sc_skipped s
    \<and> spans = sc_spans s @ (tid, sp) # map (\<lambda>c. (c, new_span c Skipped)) new
    \<and> distinct new \<and> set new \<inter> insert tid (set (sc_ready s) \<union> running_ids s \<union> span_ids s) = {}
    \<and> set new \<subseteq> set (task_ids w)
    \<and> (\<forall>c. c \<in> set new \<union> set (sc_skipped s)
        \<longleftrightarrow> (\<exists>d \<in> set (deps_of w c). d \<in> insert tid (span_ids s \<union> set new) - result_ids s))"
proof -
  have d: "distinct (task_ids w)" using w by (simp add: well_formed_def)
  note f = running_facts [OF inv run]
  have inv_s: "released w s" "blocked w s" "tidy w s" using inv by (simp_all add: sched_inv_def)
  have node: "p \<in> set (deps_of w c) \<Longrightarrow> c \<in> set (task_ids w)" for p c
    using deps_of_unknown [of c w] by fastforce
  have tr: "tid \<in> running_ids s" using run by (metis dget_Some_key list.set_map)
  let ?ch = "child_list (children w)"
  from mark_skipped_spec [OF m] obtain new where new: "skipped = rev new @ sc_skipped s"
    "spans = (sc_spans s @ [(tid, sp)]) @ map (\<lambda>c. (c, new_span c Skipped)) new"
    "distinct new" "set new \<inter> (set (sc_skipped s) \<union> set (dkeys (sc_spans s @ [(tid, sp)]))) = {}"
    "\<forall>c \<in> set new. c \<in> set (rev (?ch tid)) \<or> (\<exists>p \<in> set new. c \<in> set (?ch p))"
    "set (rev (?ch tid)) \<subseteq> set skipped \<union> set (dkeys spans)"
    "\<forall>c \<in> set new. set (?ch c) \<subseteq> set skipped \<union> set (dkeys spans)" by blast
  have new4: "set new \<inter> (set (sc_skipped s) \<union> insert tid (span_ids s)) = {}" using new(4) by auto
  have not_res: "p \<in> insert tid (set new) \<Longrightarrow> p \<notin> result_ids s" for p
    using new4 f(5,7) by blast
  have unreleased: "p \<in> set (deps_of w c) \<Longrightarrow> p \<notin> result_ids s \<Longrightarrow>
      c \<notin> set (sc_ready s) \<union> running_ids s \<union> executed_ids s" for p c
    using released_iff [OF inv_s(1) node] by blast
  have blk: "c \<in> set (sc_skipped s) \<longleftrightarrow> (\<exists>d \<in> set (deps_of w c). d \<in> span_ids s - result_ids s)" for c
    using inv_s(2) unfolding blocked_def by blast
  have parent: "c \<in> set new \<Longrightarrow> \<exists>p \<in> insert tid (set new). p \<in> set (deps_of w c)" for c
    using new(5) by (auto simp: child_iff [OF d])
  have child: "p \<in> insert tid (set new) \<Longrightarrow> p \<in> set (deps_of w c) \<Longrightarrow> c \<in> set new \<union> set (sc_skipped s)" for p c
  proof -
    assume p: "p \<in> insert tid (set new)" "p \<in> set (deps_of w c)"
    then have "c \<in> set (?ch p)" by (simp add: child_iff [OF d])
    then have "c \<in> set skipped \<union> set (dkeys spans)" using p(1) new(6,7) by auto
    then have "c \<in> set new \<union> set (sc_skipped s) \<union> insert tid (span_ids s)"
      by (auto simp: new(1,2) image_image)
    then show ?thesis using unreleased [OF p(2) not_res [OF p(1)]] tr by blast
  qed
  have "c \<in> set new \<union> set (sc_skipped s)
      \<longleftrightarrow> (\<exists>d \<in> set (deps_of w c). d \<in> insert tid (span_ids s \<union> set new) - result_ids s)" for c
  proof
    assume "c \<in> set new \<union> set (sc_skipped s)"
    then obtain p where "p \<in> set (deps_of w c)" "p \<in> insert tid (set new) \<or> p \<in> span_ids s - result_ids s"
      using parent [of c] blk [of c] by blast
    then show "\<exists>d \<in> set (deps_of w c). d \<in> insert tid (span_ids s \<union> set new) - result_ids s"
      using not_res [of p] by (intro bexI [of _ p]) auto
  next
    assume "\<exists>d \<in> set (deps_of w c). d \<in> insert tid (span_ids s \<union> set new) - result_ids s"
    then obtain p where p: "p \<in> set (deps_of w c)" "p \<in> insert tid (set new) \<or> p \<in> span_ids s - result_ids s"
      by blast
    from p(2) show "c \<in> set new \<union> set (sc_skipped s)"
    proof
      assume "p \<in> insert tid (set new)"
      then show ?thesis by (rule child [OF _ p(1)])
    next
      assume "p \<in> span_ids s - result_ids s"
      then have "c \<in> set (sc_skipped s)" unfolding blk using p(1) by blast
      then show ?thesis by blast
    qed
  qed
  moreover have "set new \<inter> insert tid (set (sc_ready s) \<union> running_ids s \<union> span_ids s) = {}"
  proof (intro equals0I, elim IntE)
    fix c assume c: "c \<in> set new"
    then obtain p where p: "p \<in> insert tid (set new)" "p \<in> set (deps_of w c)" using parent by blast
    assume "c \<in> insert tid (set (sc_ready s) \<union> running_ids s \<union> span_ids s)"
    then show False using unreleased [OF p(2) not_res [OF p(1)]] c new4 by blast
  qed
  moreover have "set new \<subseteq> set (task_ids w)" using parent node by blast
  ultimately show ?thesis using new(1-3) by auto
qed

lemma finish_continued:
  assumes w: "well_formed w" and inv: "sched_inv env w inputs s"
    and run: "dget (sc_running s) tid = Some (Inr sp)" and bad: "ts_status sp \<noteq> Succeeded"
    and t: "dget (task_map w) tid = Some t" and oe: "on_error_of w t \<noteq> JStr ''fail_fast''"
  shows "\<exists>s'. finish_task w tid sp (s\<lparr>sc_running := ddel tid (sc_running s)\<rparr>) = Inr s'
    \<and> sched_inv env w inputs s' \<and> sc_running s' = ddel tid (sc_running s)
    \<and> length (sc_spans s) < length (sc_spans s')"
proof -
  note f = running_facts [OF inv run]
  obtain skipped spans where m: "mark_skipped (children w) (rev (child_list (children w) tid)) (sc_skipped s)
      (sc_spans s @ [(tid, sp)]) = (skipped, spans)" by (metis surj_pair)
  obtain new where new: "skipped = rev new @ sc_skipped s"
    "spans = sc_spans s @ (tid, sp) # map (\<lambda>c. (c, new_span c Skipped)) new"
    "distinct new" "set new \<inter> insert tid (set (sc_ready s) \<union> running_ids s \<union> span_ids s) = {}"
    "set new \<subseteq> set (task_ids w)"
    "\<And>c. c \<in> set new \<union> set (sc_skipped s)
        \<longleftrightarrow> (\<exists>d \<in> set (deps_of w c). d \<in> insert tid (span_ids s \<union> set new) - result_ids s)"
    using mark_descendants [OF w inv run m] by blast
  define s' where "s' = s\<lparr>sc_running := ddel tid (sc_running s), sc_skipped := skipped, sc_spans := spans,
    sc_totals := add_span_totals sp (sc_totals s),
    sc_first_error := (case sc_first_error s of None \<Rightarrow> ts_error sp | Some e \<Rightarrow> Some e)\<rparr>"
  have fields: "sc_indeg s' = sc_indeg s" "sc_ready s' = sc_ready s" "sc_running s' = ddel tid (sc_running s)"
    "sc_skipped s' = rev new @ sc_skipped s" "sc_results s' = sc_results s" "sc_failed s' = sc_failed s"
    "sc_first_error s' = (case sc_first_error s of None \<Rightarrow> ts_error sp | Some e \<Rightarrow> Some e)"
    by (simp_all add: s'_def new(1))
  have ext: "extended tid sp new s s'" using bad f(2) new by (auto simp: extended_def s'_def)
  have ids: "span_ids s' = insert tid (span_ids s \<union> set new)"
    "running_ids s' = running_ids s - {tid}" "executed_ids s' = insert tid (executed_ids s)"
    using f(4,8) extended_ids [OF ext] new(4) by (auto simp: fields set_dkeys_ddel)
  have inv_s: "tidy w s" "counted w s" "stored s" "released w s" "blocked w s" "originated env w inputs s"
    "first_error_ok s" "\<not> sc_failed s" using inv by (simp_all add: sched_inv_def)
  have keys: "dkeys (sc_spans s') = dkeys (sc_spans s) @ tid # new"
    by (simp add: s'_def new(2) comp_def)
  have "tidy w s'"
    unfolding tidy_def keys fields(2-4)
    using inv_s(1) new(3-5) f(1-4,8) by (auto simp: tidy_def dest: set_ddel_subset [THEN subsetD] simp: set_dkeys_ddel)
  moreover have "counted w s'" using inv_s(2) unfolding counted_def fields(1,5) .
  moreover have "released w s'"
    unfolding released_def ids(2,3) fields(2,5)
    using released_iff [OF inv_s(4)] f(1,6) by blast
  moreover have "blocked w s'"
    unfolding blocked_def
  proof (intro conjI allI ballI)
    show "c \<in> set (sc_skipped s') \<longleftrightarrow> (\<exists>d \<in> set (deps_of w c). d \<in> span_ids s' - result_ids s')" for c
      unfolding ids(1) fields(4,5) using new(6) [of c] by simp
    fix c assume "c \<in> set (sc_skipped s')"
    then show "dget (sc_spans s') c = Some (new_span c Skipped)"
      using f(4) inv_s(5) new(4) by (auto simp: dget_extended [OF ext] fields blocked_def)
  qed
  moreover have "originated env w inputs s'"
    by (rule extended_originated [OF ext inv_s(3,6) run]) (use f(8) ids in \<open>auto simp: fields dget_ddel split: if_splits\<close>)
  moreover have "first_error_ok s'"
  proof -
    have "ts_error sp \<noteq> None"
      using produced_span [OF f(9)] w bad by (simp add: well_formed_def)
    then obtain e where e: "ts_error sp = Some e" by blast
    show ?thesis
    proof (cases "sc_first_error s")
      case None
      then show ?thesis
        using bad e by (auto simp: first_error_ok_def fields(7) ids(3) dget_extended [OF ext] simp del: set_map)
    next
      case (Some e0)
      then obtain c q where "c \<in> executed_ids s" "dget (sc_spans s) c = Some q" "ts_status q \<noteq> Succeeded" "ts_error q = Some e0"
        using inv_s(7) by (auto simp: first_error_ok_def simp del: set_map)
      moreover then have "dget (sc_spans s') c = Some q"
        using f(2) new(4) by (auto simp: dget_extended [OF ext])
      ultimately show ?thesis using Some unfolding first_error_ok_def fields(7) ids(3) by auto
    qed
  qed
  ultimately have "sched_inv env w inputs s'"
    using inv_s(8) extended_stored [OF ext inv_s(3)] by (simp add: sched_inv_def fields(6))
  moreover have "finish_task w tid sp (s\<lparr>sc_running := ddel tid (sc_running s)\<rparr>) = Inr s'"
    using bad f(10) t oe m by (simp add: finish_task_def s'_def Let_def mark_descendants_skipped_def)
  moreover have "length (sc_spans s) < length (sc_spans s')"
    by (simp add: s'_def new(2))
  ultimately show ?thesis using fields(3) by blast
qed

text \<open>A task that did not succeed and asks for a fail-fast.\<close>

lemma finish_fail_fast:
  assumes w: "well_formed w" and inv: "sched_inv env w inputs s"
    and run: "dget (sc_running s) tid = Some (Inr sp)" and bad: "ts_status sp \<noteq> Succeeded"
    and t: "dget (task_map w) tid = Some t" and oe: "on_error_of w t = JStr ''fail_fast''"
  shows "\<exists>s'. finish_task w tid sp (s\<lparr>sc_running := ddel tid (sc_running s)\<rparr>) = Inr s' \<and> aborted env w inputs s'"
proof -
  note f = running_facts [OF inv run]
  have d: "distinct (task_ids w)" using w by (simp add: well_formed_def)
  obtain new where new: "skip_rest (dkeys (task_map w)) (sc_spans s @ [(tid, sp)])
      = (sc_spans s @ [(tid, sp)]) @ map (\<lambda>c. (c, new_span c Skipped)) new"
    "distinct new" "set new = set (dkeys (task_map w)) - set (dkeys (sc_spans s @ [(tid, sp)]))"
    using skip_rest_spec by blast
  have km: "set (dkeys (task_map w)) = set (task_ids w)"
    using dget_task_map_None [of w] map_of_eq_None_iff [of "task_map w"] by auto
  define s' where "s' = s\<lparr>sc_running := [], sc_ready := [], sc_failed := True,
    sc_spans := sc_spans s @ (tid, sp) # map (\<lambda>c. (c, new_span c Skipped)) new,
    sc_totals := add_span_totals sp (sc_totals s),
    sc_first_error := (case sc_first_error s of None \<Rightarrow> ts_error sp | Some e \<Rightarrow> Some e)\<rparr>"
  have fields: "sc_ready s' = []" "sc_running s' = []" "sc_failed s'" "sc_results s' = sc_results s"
    "sc_first_error s' = (case sc_first_error s of None \<Rightarrow> ts_error sp | Some e \<Rightarrow> Some e)"
    by (simp_all add: s'_def)
  have ext: "extended tid sp new s s'" using bad f(2) new(2,3) by (auto simp: extended_def s'_def)
  have inv_s: "tidy w s" "stored s" "blocked w s" "originated env w inputs s" "first_error_ok s"
    using inv by (simp_all add: sched_inv_def)
  have pr: "produced env w inputs (dget (sc_results s')) tid (Inr sp)" using f(9) by (simp add: fields)
  have old: "dget (sc_spans s') c = dget (sc_spans s) c" if "dget (sc_spans s) c \<noteq> None" for c
    using that ext by (auto simp: dget_extended [OF ext] extended_def dest: dget_Some_key)
  obtain e where e: "ts_error sp = Some e"
    using produced_span [OF f(9) d] bad by blast
  have "\<exists>e c q. sc_first_error s' = Some e \<and> dget (sc_spans s') c = Some q \<and> ts_status q \<noteq> Succeeded \<and> ts_error q = Some e"
  proof (cases "sc_first_error s")
    case None
    then show ?thesis using bad e by (auto simp: fields(5) dget_extended [OF ext])
  next
    case (Some e0)
    then obtain c q where "dget (sc_spans s) c = Some q" "ts_status q \<noteq> Succeeded" "ts_error q = Some e0"
      using inv_s(5) by (auto simp: first_error_ok_def simp del: set_map)
    then show ?thesis using Some old [of c] by (auto simp: fields(5))
  qed
  moreover have "q = new_span c Skipped \<or> produced env w inputs (dget (sc_results s')) c (Inr q)"
    if q: "dget (sc_spans s') c = Some q" for c q
  proof (cases "c \<in> insert tid (set new)")
    case True
    then show ?thesis using q pr by (auto simp: dget_extended [OF ext] split: if_splits)
  next
    case False
    then have q': "dget (sc_spans s) c = Some q" using q by (simp add: dget_extended [OF ext])
    then have "c \<in> span_ids s" by (metis dget_Some_key list.set_map)
    then show ?thesis using q' inv_s(3,4) fields(4)
      by (cases "c \<in> set (sc_skipped s)") (auto simp: blocked_def originated_def simp del: set_map)
  qed
  moreover have "span_ids s' = set (task_ids w)" "distinct (dkeys (sc_spans s'))"
    using extended_ids [OF ext] inv_s(1) new(2,3) km f(1,2) by (auto simp: tidy_def s'_def comp_def)
  moreover have "dget (sc_spans s') tid = Some sp" by (simp add: dget_extended [OF ext])
  ultimately have "aborted env w inputs s'"
    using t oe bad pr extended_stored [OF ext inv_s(2)] fields(1-3) unfolding aborted_def by blast
  moreover have "finish_task w tid sp (s\<lparr>sc_running := ddel tid (sc_running s)\<rparr>) = Inr s'"
    using bad f(10) t oe new(1) by (simp add: finish_task_def fail_fast_def s'_def)
  ultimately show ?thesis by blast
qed

section \<open>A batch, a turn, a run\<close>

lemma finish_task_inv:
  assumes w: "well_formed w" and inv: "sched_inv env w inputs s" and run: "dget (sc_running s) tid = Some (Inr sp)"
  shows "\<exists>s'. finish_task w tid sp (s\<lparr>sc_running := ddel tid (sc_running s)\<rparr>) = Inr s'
    \<and> (if sc_failed s' then aborted env w inputs s'
       else sched_inv env w inputs s' \<and> sc_running s' = ddel tid (sc_running s)
          \<and> length (sc_spans s) < length (sc_spans s'))"
proof -
  obtain t where t: "dget (task_map w) tid = Some t"
    using running_facts(9) [OF inv run] by (auto simp: produced_def)
  consider (ok) "ts_status sp = Succeeded"
    | (go) "ts_status sp \<noteq> Succeeded" "on_error_of w t \<noteq> JStr ''fail_fast''"
    | (ff) "ts_status sp \<noteq> Succeeded" "on_error_of w t = JStr ''fail_fast''" by blast
  then show ?thesis
  proof cases
    case ok
    from finish_succeeded [OF w inv run ok] show ?thesis by (auto simp: sched_inv_def)
  next
    case go
    from finish_continued [OF w inv run go(1) t go(2)] show ?thesis by (auto simp: sched_inv_def)
  next
    case ff
    from finish_fail_fast [OF w inv run ff(1) t ff(2)] show ?thesis by (auto simp: aborted_def)
  qed
qed

lemma process_batch_inv:
  "well_formed w \<Longrightarrow> sched_inv env w inputs s \<Longrightarrow> distinct batch \<Longrightarrow> set batch \<subseteq> running_ids s \<Longrightarrow>
     (case process_batch w batch s of
        Inl e \<Rightarrow> \<exists>s tid. sched_inv env w inputs s \<and> produced env w inputs (dget (sc_results s)) tid (Inl e)
      | Inr s' \<Rightarrow> if sc_failed s' then aborted env w inputs s'
                 else sched_inv env w inputs s' \<and> length (sc_spans s) \<le> length (sc_spans s')
                    \<and> (batch \<noteq> [] \<longrightarrow> length (sc_spans s) < length (sc_spans s')))"
proof (induction w batch s rule: process_batch.induct)
  case (1 w s)
  then show ?case by (simp add: sched_inv_def)
next
  case (2 w tid tids s)
  have "tid \<in> running_ids s" using "2.prems"(4) by simp
  then obtain r where r: "dget (sc_running s) tid = Some r"
    by (metis list.set_map map_of_eq_None_iff not_None_eq)
  show ?case
  proof (cases r)
    case (Inl e)
    have "produced env w inputs (dget (sc_results s)) tid (Inl e)"
      using running_facts(9) [OF "2.prems"(2) r] Inl by simp
    then show ?thesis using r Inl "2.prems"(2) by auto
  next
    case (Inr sp)
    from finish_task_inv [OF "2.prems"(1,2) r [unfolded Inr]] obtain s1 where
      s1: "finish_task w tid sp (s\<lparr>sc_running := ddel tid (sc_running s)\<rparr>) = Inr s1"
      "if sc_failed s1 then aborted env w inputs s1
       else sched_inv env w inputs s1 \<and> sc_running s1 = ddel tid (sc_running s)
          \<and> length (sc_spans s) < length (sc_spans s1)" by blast
    show ?thesis
    proof (cases "sc_failed s1")
      case True
      then show ?thesis using s1 r Inr by simp
    next
      case False
      have "set tids \<subseteq> running_ids s1"
        using s1(2) False "2.prems"(3,4) running_facts(8) [OF "2.prems"(2) r]
        by (auto simp: set_dkeys_ddel)
      from "2.IH" [OF r Inr s1(1) False _ _ _ this] show ?thesis
        using s1 False r Inr "2.prems"(1,3) by (auto split: sum.splits if_splits)
    qed
  qed
qed

lemma dget_None_iff: "dget d k = None \<longleftrightarrow> k \<notin> set (dkeys d)"
  by (simp add: map_of_eq_None_iff)

lemma init_inv:
  assumes "well_formed w"
  shows "sched_inv env w inputs (init_sched w)"
proof -
  have d: "distinct (task_ids w)" using assms by (simp add: well_formed_def)
  note i = dget_indegrees [OF d]
  have r: "sc_ready (init_sched w) = filter (\<lambda>c. dget (indegrees w) c = Some 0) (task_ids w)"
    by (simp add: init_sched_def filter_map comp_def)
  have "tidy w (init_sched w)"
    unfolding tidy_def r using d by (auto simp: init_sched_def distinct_map_filter simp del: set_map)
  moreover have "counted w (init_sched w)"
    unfolding counted_def using i by (simp add: init_sched_def del: set_map)
  moreover have "released w (init_sched w)"
    unfolding released_def r using i by (auto simp: init_sched_def simp del: set_map)
  ultimately show ?thesis
    by (simp add: sched_inv_def stored_def blocked_def originated_def first_error_ok_def init_sched_def new_totals_0)
qed

lemma turn_inv:
  assumes w: "well_formed w" and inv: "sched_inv env w inputs s" and b: "batch_ok env w inputs batch s"
  shows "config_inv env w inputs (turn env w inputs batch s)
    \<and> (\<forall>s'. turn env w inputs batch s = Loop s' \<longrightarrow> length (sc_spans s) < length (sc_spans s'))"
proof -
  from dispatch_inv [OF w inv] obtain s1 where s1: "dispatch env w inputs (sc_ready s) s = Inr s1"
    "sched_inv env w inputs s1" "sc_ready s1 = []" "sc_spans s1 = sc_spans s" by blast
  show ?thesis
  proof (cases "sc_running s1 = []")
    case True
    then show ?thesis using s1 w by (simp add: turn_def sched_inv_def)
  next
    case False
    then have bb: "batch \<noteq> []" "distinct batch" "set batch \<subseteq> running_ids s1"
      using b s1(1) by (simp_all add: batch_ok_def)
    show ?thesis
      using process_batch_inv [OF w s1(2) bb(2,3)] s1 False bb(1) w
      by (cases "process_batch w batch s1") (auto simp: turn_def split: if_splits)
  qed
qed

text \<open>The loop as a machine: the variant is the number of tasks without a span.\<close>

definition sched_start :: "workflow \<Rightarrow> config \<Rightarrow> bool" where
  "sched_start w c \<longleftrightarrow> well_formed w \<and> c = Loop (init_sched w)"

fun sched_variant :: "workflow \<Rightarrow> config \<Rightarrow> nat" where
  "sched_variant w (Loop s) = Suc (length (task_ids w) - length (sc_spans s))"
| "sched_variant w (Finished s) = 0"
| "sched_variant w (Raised e) = 0"

lemma tidy_length: "tidy w s \<Longrightarrow> length (sc_spans s) \<le> length (task_ids w)"
proof -
  assume "tidy w s"
  then have "distinct (dkeys (sc_spans s))" "span_ids s \<subseteq> set (task_ids w)"
    by (auto simp: tidy_def)
  then have "length (dkeys (sc_spans s)) \<le> card (set (task_ids w))"
    using card_mono [of "set (task_ids w)" "span_ids s"] distinct_card [of "dkeys (sc_spans s)"]
    by (simp del: set_map)
  then show ?thesis using card_length [of "task_ids w"] by simp
qed

interpretation loop: bounded_machine "sched_start w" "sched_step env w inputs" "config_inv env w inputs" "sched_variant w"
  for env w inputs
proof unfold_locales
  show "sched_start w c \<Longrightarrow> config_inv env w inputs c" for c
    by (auto simp: sched_start_def init_inv)
next
  fix c c' assume c: "config_inv env w inputs c" "sched_step env w inputs c c'"
  then obtain s batch where s: "c = Loop s" "c' = turn env w inputs batch s" "batch_ok env w inputs batch s"
    by (auto elim: stepE)
  then have t: "config_inv env w inputs c'"
    "\<And>s'. c' = Loop s' \<Longrightarrow> length (sc_spans s) < length (sc_spans s')"
    using turn_inv [of w env inputs s batch] c(1) by auto
  show "config_inv env w inputs c'" by (rule t(1))
  show "sched_variant w c' < sched_variant w c"
  proof (cases c')
    case (Loop s')
    then have "length (sc_spans s') \<le> length (task_ids w)"
      using t(1) tidy_length by (simp add: sched_inv_def)
    then show ?thesis using t(2) [OF Loop] Loop s(1) by simp
  qed (use s(1) in simp_all)
qed

text \<open>A loop that has not ended can always take a turn, unless the semaphore has value 0.\<close>

lemma loop_progress:
  assumes "0 < wf_max_parallel w"
  shows "\<exists>batch. batch_ok env w inputs batch s"
proof (cases "dispatch env w inputs (sc_ready s) s")
  case (Inr s1)
  show ?thesis
  proof (cases "sc_running s1")
    case (Cons x xs)
    then show ?thesis using Inr assms by (intro exI [of _ "[fst x]"]) (simp add: batch_ok_def slot_free_def)
  qed (use Inr in \<open>simp add: batch_ok_def\<close>)
qed (simp add: batch_ok_def)

lemma loop_terminates:
  assumes "0 < wf_max_parallel w"
  shows "config_inv env w inputs c \<Longrightarrow> \<exists>c'. sched_steps env w inputs c c' \<and> (\<forall>s. c' \<noteq> Loop s)"
proof (induction "sched_variant w c" arbitrary: c rule: less_induct)
  case less
  show ?case
  proof (cases c)
    case (Loop s)
    obtain batch where b: "batch_ok env w inputs batch s" using loop_progress [OF assms] by blast
    then have st: "sched_step env w inputs c (turn env w inputs batch s)" using Loop by auto
    have "\<exists>c'. sched_steps env w inputs (turn env w inputs batch s) c' \<and> (\<forall>s. c' \<noteq> Loop s)"
      by (rule less.hyps [OF loop.step_decreases [OF less.prems st] loop.step_inv [OF less.prems st]])
    then show ?thesis using st by (blast intro: converse_rtranclp_into_rtranclp)
  qed auto
qed

text \<open>At the end every task has a span.\<close>

lemma finished_all:
  assumes w: "well_formed w" and inv: "sched_inv env w inputs s" and e: "sc_ready s = []" "sc_running s = []"
  shows "span_ids s = set (task_ids w)"
proof
  show "span_ids s \<subseteq> set (task_ids w)" using inv by (simp add: sched_inv_def tidy_def)
  have "tid \<in> set (task_ids w) \<Longrightarrow> tid \<in> span_ids s" for tid
  proof (induction tid rule: dag.dep_induct [OF w])
    case (1 n)
    have inv_s: "released w s" "blocked w s" "tidy w s" using inv by (simp_all add: sched_inv_def)
    show ?case
    proof (cases "set (deps_of w n) \<subseteq> result_ids s")
      case True
      then show ?thesis using released_iff [OF inv_s(1) "1.prems"] e by auto
    next
      case False
      then obtain d where d: "d \<in> set (deps_of w n)" "d \<notin> result_ids s" by blast
      then have "d \<in> span_ids s" using "1.IH" [OF d(1)] dag.deps_nodes [OF w] by blast
      then have "n \<in> set (sc_skipped s)" using d inv_s(2) unfolding blocked_def by blast
      then show ?thesis using inv_s(3) by (auto simp: tidy_def)
    qed
  qed
  then show "set (task_ids w) \<subseteq> span_ids s" by blast
qed

section \<open>What every run guarantees\<close>

lemma loop_reachable:
  "well_formed w \<Longrightarrow> sched_steps env w inputs (Loop (init_sched w)) c \<Longrightarrow> config_inv env w inputs c"
  by (rule loop.reachable_inv) (simp_all add: sched_start_def)

lemma run_turns_inv:
  "well_formed w \<Longrightarrow> run_turns env w inputs bs (Loop (init_sched w)) = Some c \<Longrightarrow> config_inv env w inputs c"
  by (blast intro: loop_reachable run_turns_steps)

lemma succeeded_result: "stored s \<Longrightarrow> succeeded (sc_spans s) d \<longleftrightarrow> d \<in> result_ids s"
  by (auto simp: stored_def succeeded_def dom_def split: option.splits)

lemma demo_well_formed: "well_formed (demo_workflow a oe)" if "a = ''copy'' \<or> a = ''boom''" "oe = ''continue'' \<or> oe = ''fail_fast''"
proof -
  have "validate (demo_workflow ''copy'' ''continue'') = Inr (demo_workflow ''copy'' ''continue'')"
    "validate (demo_workflow ''copy'' ''fail_fast'') = Inr (demo_workflow ''copy'' ''fail_fast'')"
    "validate (demo_workflow ''boom'' ''continue'') = Inr (demo_workflow ''boom'' ''continue'')"
    "validate (demo_workflow ''boom'' ''fail_fast'') = Inr (demo_workflow ''boom'' ''fail_fast'')"
    by code_simp+
  then show ?thesis using that by (auto simp: validate_iff)
qed

lemma demo_reach:
  "ends_clean (demo_run a oe bs) \<Longrightarrow> \<exists>s. sched_steps demo_env (demo_workflow a oe) demo_inputs (demo_start a oe) (Finished s) \<and> \<not> sc_failed s"
  "ends_failed (demo_run a oe bs) \<Longrightarrow> \<exists>s. sched_steps demo_env (demo_workflow a oe) demo_inputs (demo_start a oe) (Finished s) \<and> sc_failed s"
  by (cases "demo_run a oe bs" rule: ends_clean.cases; auto dest: run_turns_steps)+

text \<open>C5. Termination: a run of a valid workflow takes at most as many turns as there are tasks,
  plus one, and with a positive \<open>max_parallel\<close> every reachable configuration leads to an end.\<close>

theorem loop_bounded:
  assumes "well_formed w"
  shows "(\<forall>n c. (sched_step env w inputs ^^ n) (Loop (init_sched w)) c \<longrightarrow> n \<le> Suc (length (wf_tasks w)))
    \<and> (0 < wf_max_parallel w \<longrightarrow> (\<forall>c. sched_steps env w inputs (Loop (init_sched w)) c \<longrightarrow>
        (\<exists>c'. sched_steps env w inputs c c' \<and> (\<forall>s. c' \<noteq> Loop s))))"
proof (intro conjI allI impI)
  have i: "config_inv env w inputs (Loop (init_sched w))" by (rule loop_reachable [OF assms]) simp
  fix n c assume "(sched_step env w inputs ^^ n) (Loop (init_sched w)) c"
  from loop.run_length [OF this i] show "n \<le> Suc (length (wf_tasks w))"
    by (simp add: init_sched_def)
next
  fix c assume "0 < wf_max_parallel w" "sched_steps env w inputs (Loop (init_sched w)) c"
  then show "\<exists>c'. sched_steps env w inputs c c' \<and> (\<forall>s. c' \<noteq> Loop s)"
    by (intro loop_terminates loop_reachable [OF assms])
qed

theorem loop_bounded_witness:
  "\<exists>c'. sched_steps demo_env (demo_workflow ''boom'' ''continue'') demo_inputs (demo_start ''boom'' ''continue'') c' \<and> (\<forall>s. c' \<noteq> Loop s)"
proof -
  have "0 < wf_max_parallel (demo_workflow ''boom'' ''continue'')" by (simp add: demo_workflow_def)
  then show ?thesis
    using loop_bounded [of "demo_workflow ''boom'' ''continue''" demo_env demo_inputs] demo_well_formed by blast
qed

text \<open>C3. Scheduling safety: at the head of the loop a task is in at most one of the ready list,
  the running futures and the spans, and each only once; the tasks that were released or
  executed are exactly those whose dependencies have all succeeded.\<close>

theorem dispatch_safe:
  assumes "well_formed w" and "sched_steps env w inputs (Loop (init_sched w)) (Loop s)"
  shows "distinct (sc_ready s @ dkeys (sc_running s) @ dkeys (sc_spans s))
    \<and> {tid \<in> set (task_ids w). tid \<in> set (sc_ready s) \<union> running_ids s \<union> executed_ids s}
      = {tid \<in> set (task_ids w). \<forall>d \<in> set (deps_of w tid). succeeded (sc_spans s) d}"
proof
  have "sched_inv env w inputs s" using loop_reachable [OF assms] by simp
  then have i: "tidy w s" "released w s" "stored s" by (simp_all add: sched_inv_def)
  show "distinct (sc_ready s @ dkeys (sc_running s) @ dkeys (sc_spans s))"
    using i(1) unfolding tidy_def by blast
  show "{tid \<in> set (task_ids w). tid \<in> set (sc_ready s) \<union> running_ids s \<union> executed_ids s}
      = {tid \<in> set (task_ids w). \<forall>d \<in> set (deps_of w tid). succeeded (sc_spans s) d}"
    using released_iff [OF i(2)] succeeded_result [OF i(3)] by blast
qed

fun still_running :: "config option \<Rightarrow> bool" where
  "still_running (Some (Loop s)) = (dkeys (sc_spans s) = [''b''])"
| "still_running _ = False"

theorem dispatch_safe_witness:
  "\<exists>s :: sched. dkeys (sc_spans s) = [''b''] \<and> distinct (sc_ready s @ dkeys (sc_running s) @ dkeys (sc_spans s))"
proof -
  have "still_running (demo_run ''copy'' ''continue'' [[''b'']])" by code_simp
  then obtain s where s: "demo_run ''copy'' ''continue'' [[''b'']] = Some (Loop s)" "dkeys (sc_spans s) = [''b'']"
    by (cases "demo_run ''copy'' ''continue'' [[''b'']]" rule: still_running.cases) auto
  have "well_formed (demo_workflow ''copy'' ''continue'')" by (simp add: demo_well_formed)
  from dispatch_safe [OF this run_turns_steps [OF s(1)]]
  have "distinct (sc_ready s @ dkeys (sc_running s) @ dkeys (sc_spans s))" by (rule conjunct1)
  then show ?thesis using s(2) by (intro exI [of _ s] conjI)
qed

text \<open>A span is that of an execution on the outputs of the other spans: all dependencies succeeded, and
  the results that the execution saw are outputs of succeeded tasks, those of its dependencies among
  them.\<close>

definition outputs_in :: "(string, json) dict \<Rightarrow> (string, task_span) dict \<Rightarrow> bool" where
  "outputs_in rs spans \<longleftrightarrow>
     (\<forall>d v. dget rs d = Some v \<longrightarrow> (\<exists>q. dget spans d = Some q \<and> ts_status q = Succeeded \<and> ts_output q = v))"

definition executed_on :: "run_env \<Rightarrow> workflow \<Rightarrow> (string, json) dict \<Rightarrow> (string, task_span) dict \<Rightarrow> task \<Rightarrow> task_span \<Rightarrow> bool" where
  "executed_on env w inputs spans t sp \<longleftrightarrow>
     list_all (succeeded spans) (tk_depends_on t)
   \<and> (\<exists>rs. outputs_in rs spans \<and> set (tk_depends_on t) \<subseteq> dom (dget rs) \<and> execute_task env w t inputs rs = Inr sp)"

lemma stored_outputs: "stored s \<Longrightarrow> dget rs \<subseteq>\<^sub>m dget (sc_results s) \<Longrightarrow> outputs_in rs (sc_spans s)"
  unfolding outputs_in_def
proof (intro allI impI)
  fix d v assume st: "stored s" and le: "dget rs \<subseteq>\<^sub>m dget (sc_results s)" and v: "dget rs d = Some v"
  have "dget (sc_results s) d = Some v" using le v by (metis domI map_le_def)
  then show "\<exists>q. dget (sc_spans s) d = Some q \<and> ts_status q = Succeeded \<and> ts_output q = v"
    using st by (auto simp: stored_def split: option.splits if_splits)
qed

lemma produced_executed_on:
  assumes st: "stored s" and p: "produced env w inputs (dget (sc_results s)) tid (Inr sp)"
    and t: "dget (task_map w) tid = Some t"
  shows "executed_on env w inputs (sc_spans s) t sp"
proof -
  obtain rs where rs: "dget rs \<subseteq>\<^sub>m dget (sc_results s)" "set (tk_depends_on t) \<subseteq> dom (dget rs)"
    "execute_task env w t inputs rs = Inr sp"
    using p t unfolding produced_def by (metis option.inject)
  have "set (tk_depends_on t) \<subseteq> result_ids s" using rs(1,2) map_le_implies_dom_le by blast
  then have "list_all (succeeded (sc_spans s)) (tk_depends_on t)"
    using succeeded_result [OF st] by (auto simp: list_all_iff)
  then show ?thesis unfolding executed_on_def using rs stored_outputs [OF st rs(1)] by blast
qed

lemma finished_span:
  assumes d: "distinct (task_ids w)" and inv: "sched_inv env w inputs s" "sc_ready s = []" "sc_running s = []"
    and n: "tk_id t \<in> span_ids s" and t: "t \<in> set (wf_tasks w)" and sp: "dget (sc_spans s) (tk_id t) = Some sp"
  shows "if list_all (succeeded (sc_spans s)) (tk_depends_on t)
    then executed_on env w inputs (sc_spans s) t sp else sp = new_span (tk_id t) Skipped"
proof -
  have i: "stored s" using inv(1) by (simp add: sched_inv_def)
  have ids: "tk_id t \<in> set (task_ids w)" using t by simp
  note dt = deps_of_task [OF d t]
  show ?thesis
  proof (cases "set (deps_of w (tk_id t)) \<subseteq> result_ids s")
    case True
    then have x: "tk_id t \<in> executed_ids s"
      using released_iff [of w s "tk_id t"] inv n ids by (auto simp: sched_inv_def)
    then have p: "produced env w inputs (dget (sc_results s)) (tk_id t) (Inr sp)"
      using inv(1) sp unfolding sched_inv_def originated_def by blast
    have "dget (task_map w) (tk_id t) = Some t" using dget_task_map [OF d] t by simp
    with p have "executed_on env w inputs (sc_spans s) t sp" by (rule produced_executed_on [OF i])
    then show ?thesis by (simp add: executed_on_def)
  next
    case False
    then have "\<not> list_all (succeeded (sc_spans s)) (tk_depends_on t)"
      by (auto simp: list_all_iff succeeded_result [OF i] dt)
    moreover have "tk_id t \<in> set (sc_skipped s)"
      using False inv n ids released_iff [of w s "tk_id t"] by (auto simp: sched_inv_def)
    then have "sp = new_span (tk_id t) Skipped" using inv(1) sp by (simp add: sched_inv_def blocked_def)
    ultimately show ?thesis by simp
  qed
qed

text \<open>C4. Functional behaviour of a run that does not fail fast: every task has exactly one
  span. When all its dependencies succeeded, it is the span of an execution that saw, for each
  dependency, the output in the span of that dependency, and for any other task at most the output
  of its succeeded span; when some dependency did not succeed, it is the empty skipped span. The
  stored results are exactly the outputs of the succeeded spans.\<close>

theorem finished_spans:
  assumes "well_formed w" and "sched_steps env w inputs (Loop (init_sched w)) (Finished s)" and "\<not> sc_failed s"
  shows "distinct (dkeys (sc_spans s)) \<and> span_ids s = set (task_ids w)
    \<and> (\<forall>t \<in> set (wf_tasks w). \<exists>sp. dget (sc_spans s) (tk_id t) = Some sp \<and>
        (if list_all (succeeded (sc_spans s)) (tk_depends_on t)
         then executed_on env w inputs (sc_spans s) t sp
         else sp = new_span (tk_id t) Skipped))
    \<and> (\<forall>n. dget (sc_results s) n = (case dget (sc_spans s) n of None \<Rightarrow> None
          | Some sp \<Rightarrow> if ts_status sp = Succeeded then Some (ts_output sp) else None))"
proof (intro conjI ballI)
  have inv: "sched_inv env w inputs s" "sc_ready s = []" "sc_running s = []"
    using loop_reachable [OF assms(1,2)] assms(3) by simp_all
  have d: "distinct (task_ids w)" using assms(1) by (simp add: well_formed_def)
  have i: "stored s" "tidy w s" using inv(1) by (simp_all add: sched_inv_def)
  show "distinct (dkeys (sc_spans s))" using i(2) by (simp add: tidy_def)
  show ids: "span_ids s = set (task_ids w)" by (rule finished_all [OF assms(1) inv])
  show "\<forall>n. dget (sc_results s) n = (case dget (sc_spans s) n of None \<Rightarrow> None
          | Some sp \<Rightarrow> if ts_status sp = Succeeded then Some (ts_output sp) else None)"
    using i(1) by (simp add: stored_def)
  fix t assume t: "t \<in> set (wf_tasks w)"
  then have n: "tk_id t \<in> span_ids s" using ids by simp
  then obtain sp where sp: "dget (sc_spans s) (tk_id t) = Some sp"
    by (metis map_of_eq_None_iff list.set_map not_None_eq)
  have "if list_all (succeeded (sc_spans s)) (tk_depends_on t)
      then executed_on env w inputs (sc_spans s) t sp else sp = new_span (tk_id t) Skipped"
    by (rule finished_span [OF d inv n t sp])
  then show "\<exists>sp. dget (sc_spans s) (tk_id t) = Some sp \<and>
        (if list_all (succeeded (sc_spans s)) (tk_depends_on t)
         then executed_on env w inputs (sc_spans s) t sp
         else sp = new_span (tk_id t) Skipped)"
    using sp by blast
qed

theorem finished_spans_witness:
  "\<exists>s. sched_steps demo_env (demo_workflow ''boom'' ''continue'') demo_inputs (demo_start ''boom'' ''continue'') (Finished s)
     \<and> span_ids s = {''a'', ''b'', ''c''}"
proof -
  obtain s where s: "sched_steps demo_env (demo_workflow ''boom'' ''continue'') demo_inputs (demo_start ''boom'' ''continue'') (Finished s)"
    "\<not> sc_failed s" using demo_reach(1) [OF demo_skip] by blast
  have "well_formed (demo_workflow ''boom'' ''continue'')" by (simp add: demo_well_formed)
  from finished_spans [OF this s] have "span_ids s = set (task_ids (demo_workflow ''boom'' ''continue''))" by blast
  then show ?thesis using s(1) by (auto simp: demo_workflow_def demo_task_def)
qed

text \<open>C6. Containment of a failure: in a run that does not fail fast, every task that depends,
  over any number of steps, on a task that did not succeed is skipped without an attempt.\<close>

theorem failure_skips_descendants:
  assumes "well_formed w" and "sched_steps env w inputs (Loop (init_sched w)) (Finished s)" and "\<not> sc_failed s"
    and "d \<in> set (task_ids w)" and "\<not> succeeded (sc_spans s) d" and "(d, n) \<in> (dep_rel w)\<^sup>+"
  shows "dget (sc_spans s) n = Some (new_span n Skipped)"
proof -
  have inv: "sched_inv env w inputs s" "sc_ready s = []" "sc_running s = []"
    using loop_reachable [OF assms(1,2)] assms(3) by simp_all
  have i: "blocked w s" "stored s" using inv(1) by (simp_all add: sched_inv_def)
  have ids: "span_ids s = set (task_ids w)" by (rule finished_all [OF assms(1) inv])
  have one: "dget (sc_spans s) m = Some (new_span m Skipped)"
    if "(k, m) \<in> dep_rel w" "\<not> succeeded (sc_spans s) k" "k \<in> set (task_ids w)" for k m
  proof -
    have "k \<in> set (deps_of w m)" using that(1) by (simp add: dep_rel_def)
    moreover have "k \<in> span_ids s - result_ids s"
      using that(2,3) ids succeeded_result [OF i(2)] by blast
    ultimately have "m \<in> set (sc_skipped s)" using i(1) unfolding blocked_def by blast
    then show ?thesis using i(1) by (simp add: blocked_def)
  qed
  from assms(6) show ?thesis
  proof (induction rule: trancl_induct)
    case (base m)
    then show ?case by (rule one [OF _ assms(5,4)])
  next
    case (step k m)
    have "\<not> succeeded (sc_spans s) k" using step.IH by (simp add: succeeded_def new_span_def)
    moreover have "k \<in> set (task_ids w)" using step.IH ids by (metis dget_Some_key list.set_map)
    ultimately show ?case by (rule one [OF step.hyps(2)])
  qed
qed

fun a_failed :: "config option \<Rightarrow> bool" where
  "a_failed (Some (Finished s)) = (\<not> sc_failed s \<and> \<not> succeeded (sc_spans s) ''a'')"
| "a_failed _ = False"

theorem failure_skips_descendants_witness:
  "\<exists>s. sched_steps demo_env (demo_workflow ''boom'' ''continue'') demo_inputs (demo_start ''boom'' ''continue'') (Finished s)
     \<and> dget (sc_spans s) ''c'' = Some (new_span ''c'' Skipped)"
proof -
  let ?w = "demo_workflow ''boom'' ''continue''"
  have "a_failed (demo_run ''boom'' ''continue'' [[''b''], [''a''], []])" by code_simp
  then obtain s where s: "demo_run ''boom'' ''continue'' [[''b''], [''a''], []] = Some (Finished s)"
    "\<not> sc_failed s" "\<not> succeeded (sc_spans s) ''a''"
    by (cases "demo_run ''boom'' ''continue'' [[''b''], [''a''], []]" rule: a_failed.cases) auto
  have w: "well_formed ?w" by (simp add: demo_well_formed)
  have "''a'' \<in> set (deps_of ?w ''c'')" "''a'' \<in> set (task_ids ?w)" by code_simp+
  then have "(''a'', ''c'') \<in> (dep_rel ?w)\<^sup>+" by (auto simp: dep_rel_def)
  from failure_skips_descendants [OF w run_turns_steps [OF s(1)] s(2) \<open>''a'' \<in> set (task_ids ?w)\<close> s(3) this]
  show ?thesis using run_turns_steps [OF s(1)] by blast
qed

lemma aborted_stored: "aborted env w inputs s \<Longrightarrow> stored s"
  by (simp add: aborted_def)

text \<open>C7. Fail-fast: when a run ends by it, some task with the policy \<open>fail_fast\<close> was executed
  and did not succeed, the recorded error belongs to an executed task that did not succeed, and every
  task has exactly one span, which is the one of an execution on the outputs of its succeeded
  dependencies or the empty skipped span.\<close>

theorem fail_fast_run:
  assumes "well_formed w" and "sched_steps env w inputs (Loop (init_sched w)) (Finished s)" and "sc_failed s"
  shows "distinct (dkeys (sc_spans s)) \<and> span_ids s = set (task_ids w)
    \<and> (\<exists>t \<in> set (wf_tasks w). \<exists>sp. on_error_of w t = JStr ''fail_fast''
         \<and> dget (sc_spans s) (tk_id t) = Some sp \<and> ts_status sp \<noteq> Succeeded
         \<and> executed_on env w inputs (sc_spans s) t sp)
    \<and> (\<exists>t \<in> set (wf_tasks w). \<exists>sp. dget (sc_spans s) (tk_id t) = Some sp \<and> ts_status sp \<noteq> Succeeded
         \<and> ts_error sp \<noteq> None \<and> sc_first_error s = ts_error sp \<and> executed_on env w inputs (sc_spans s) t sp)
    \<and> (\<forall>t \<in> set (wf_tasks w). \<exists>sp. dget (sc_spans s) (tk_id t) = Some sp
         \<and> (sp = new_span (tk_id t) Skipped \<or> executed_on env w inputs (sc_spans s) t sp))"
proof -
  have a: "aborted env w inputs s" using loop_reachable [OF assms(1,2)] assms(3) by simp
  have d: "distinct (task_ids w)" using assms(1) by (simp add: well_formed_def)
  note ex = produced_executed_on [OF aborted_stored [OF a]]
  obtain tid t sp where t: "dget (task_map w) tid = Some t" "on_error_of w t = JStr ''fail_fast''"
    "dget (sc_spans s) tid = Some sp" "ts_status sp \<noteq> Succeeded"
    "produced env w inputs (dget (sc_results s)) tid (Inr sp)"
    using a unfolding aborted_def by blast
  have tt: "t \<in> set (wf_tasks w)" "tk_id t = tid" using t(1) dget_task_map [OF d] by simp_all
  obtain e c q where e: "sc_first_error s = Some e" "dget (sc_spans s) c = Some q" "ts_status q \<noteq> Succeeded" "ts_error q = Some e"
    using a unfolding aborted_def by blast
  have c: "c \<in> set (task_ids w)" using a dget_Some_key [OF e(2)] by (simp add: aborted_def)
  then obtain u where u: "u \<in> set (wf_tasks w)" "tk_id u = c" by auto
  have um: "dget (task_map w) (tk_id v) = Some v" if "v \<in> set (wf_tasks w)" for v
    using dget_task_map [OF d] that by simp
  have "q \<noteq> new_span c Skipped" using e(4) by (auto simp: new_span_def)
  then have q: "executed_on env w inputs (sc_spans s) u q"
    using a e(2) ex [OF _ um [OF u(1)]] u(2) unfolding aborted_def by blast
  have each: "\<exists>sp. dget (sc_spans s) (tk_id v) = Some sp
      \<and> (sp = new_span (tk_id v) Skipped \<or> executed_on env w inputs (sc_spans s) v sp)"
    if v: "v \<in> set (wf_tasks w)" for v
  proof -
    have "tk_id v \<in> span_ids s" using a v by (simp add: aborted_def)
    then obtain q where q: "dget (sc_spans s) (tk_id v) = Some q"
      by (metis map_of_eq_None_iff list.set_map not_None_eq)
    then show ?thesis using a ex [OF _ um [OF v]] unfolding aborted_def by blast
  qed
  have "executed_on env w inputs (sc_spans s) t sp" by (rule ex [OF t(5,1)])
  moreover have "distinct (dkeys (sc_spans s))" "span_ids s = set (task_ids w)"
    using a by (simp_all add: aborted_def)
  moreover have "\<exists>t \<in> set (wf_tasks w). \<exists>sp. dget (sc_spans s) (tk_id t) = Some sp \<and> ts_status sp \<noteq> Succeeded
         \<and> ts_error sp \<noteq> None \<and> sc_first_error s = ts_error sp \<and> executed_on env w inputs (sc_spans s) t sp"
    using u e q by (intro bexI [OF _ u(1)] exI [of _ q]) simp
  ultimately show ?thesis using t(2-4) tt each by blast
qed

theorem fail_fast_run_witness:
  "\<exists>s. sched_steps demo_env (demo_workflow ''boom'' ''fail_fast'') demo_inputs (demo_start ''boom'' ''fail_fast'') (Finished s)
     \<and> sc_first_error s \<noteq> None"
proof -
  obtain s where s: "sched_steps demo_env (demo_workflow ''boom'' ''fail_fast'') demo_inputs (demo_start ''boom'' ''fail_fast'') (Finished s)"
    "sc_failed s" using demo_reach(2) [OF demo_fail_fast] by blast
  have "well_formed (demo_workflow ''boom'' ''fail_fast'')" by (simp add: demo_well_formed)
  from fail_fast_run [OF this s] s(1) show ?thesis by auto
qed

lemma raised_unresolved:
  assumes "well_formed w" and "sched_steps env w inputs (Loop (init_sched w)) (Raised e)"
    and "list_all (\<lambda>t. rt_base (task_retry w t) \<noteq> None) (wf_tasks w)"
  shows "\<exists>t \<in> set (wf_tasks w). \<exists>p \<in> set (refs_of (JObj (tk_inputs t))). e = SpecError (UnresolvedReference p)"
proof -
  obtain m tid where "produced env w inputs m tid (Inl e)"
    using loop_reachable [OF assms(1,2)] by auto
  then obtain t rs where t: "dget (task_map w) tid = Some t" "execute_task env w t inputs rs = Inl e"
    by (auto simp: produced_def)
  have tt: "t \<in> set (wf_tasks w)"
    using t(1) dget_task_map [of w tid t] assms(1) by (simp add: well_formed_def)
  have "\<not> is_ok (resolve_template (ev_fr env) (run_scope inputs rs) (JObj (tk_inputs t)))"
    using execute_task_raises [of w t env inputs rs] assms(3) tt t(2) by (simp add: list_all_iff)
  then obtain e' where e': "resolve_template (ev_fr env) (run_scope inputs rs) (JObj (tk_inputs t)) = Inl e'"
    by (cases "resolve_template (ev_fr env) (run_scope inputs rs) (JObj (tk_inputs t))") auto
  then have "e' = e" using t(2) by (simp add: execute_task_def)
  then show ?thesis using resolve_error [OF e'] tt by blast
qed

text \<open>C15. The only exception that the scheduling loop of a valid workflow lets out, once the checks
  before the loop have passed, is an unresolved reference in the inputs of a task (when every retry
  policy has a backoff base, which loading gives).\<close>

theorem raises_unresolved_only:
  assumes "well_formed w" and "sched_steps env w inputs (Loop (init_sched w)) (Raised e)"
    and "list_all (\<lambda>t. rt_base (task_retry w t) \<noteq> None) (wf_tasks w)"
  shows "\<exists>t \<in> set (wf_tasks w). \<exists>p \<in> set (refs_of (JObj (tk_inputs t))). e = SpecError (UnresolvedReference p)"
  by (rule raised_unresolved [OF assms])

fun ends_raised :: "config option \<Rightarrow> bool" where
  "ends_raised (Some (Raised e)) = True"
| "ends_raised _ = False"

theorem raises_unresolved_only_witness:
  "\<exists>e p. sched_steps demo_env (demo_workflow ''copy'' ''continue'') [] (demo_start ''copy'' ''continue'') (Raised e)
     \<and> e = SpecError (UnresolvedReference p)"
proof -
  let ?w = "demo_workflow ''copy'' ''continue''"
  let ?r = "run_turns demo_env ?w [] [[''b'', ''a'']] (demo_start ''copy'' ''continue'')"
  have "ends_raised ?r" by code_simp
  then obtain e where e: "?r = Some (Raised e)" by (cases ?r rule: ends_raised.cases) auto
  have "well_formed ?w" by (simp add: demo_well_formed)
  moreover have "list_all (\<lambda>t. rt_base (task_retry ?w t) \<noteq> None) (wf_tasks ?w)" by code_simp
  ultimately have "\<exists>t \<in> set (wf_tasks ?w). \<exists>p \<in> set (refs_of (JObj (tk_inputs t))). e = SpecError (UnresolvedReference p)"
    by (rule raises_unresolved_only [OF _ run_turns_steps [OF e]])
  then show ?thesis using run_turns_steps [OF e] by blast
qed

end
