(* ===== verification/Sequential_Spec.thy ===== *)
theory Sequential_Spec
  imports Scheduler_Correct "HOL-Library.Multiset"
begin

text \<open>
  The contract of a run that does not fail fast: executing the tasks one after the other, in
  any order that respects the dependencies, a task whose dependencies have not all succeeded
  being skipped. The concurrent loop of \<open>Scheduler\<close> computes the same spans and results,
  whatever batches the event loop reports, when the inputs of every task refer to the run
  inputs and to declared dependencies only.
\<close>

lemma sum_list_mset: "mset xs = mset ys \<Longrightarrow> sum_list (map f xs) = sum_list (map f ys)"
  for f :: "'a \<Rightarrow> 'b :: comm_monoid_add"
  by (metis mset_map sum_mset_sum_list)

section \<open>The sequential evaluation\<close>

type_synonym seq_state = "spans \<times> (string, json) dict"

definition seq_task :: "run_env \<Rightarrow> workflow \<Rightarrow> (string, json) dict \<Rightarrow> string \<Rightarrow> seq_state \<Rightarrow> seq_state res" where
  "seq_task env w inputs tid st =
     (case dget (task_map w) tid of
        None \<Rightarrow> Inl (KeyError tid)
      | Some t \<Rightarrow>
          if list_all (\<lambda>d. dget (snd st) d \<noteq> None) (tk_depends_on t) then
            rbind (execute_task env w t inputs (snd st)) (\<lambda>sp.
              Inr (dset tid sp (fst st),
                   if ts_status sp = Succeeded then dset tid (ts_output sp) (snd st) else snd st))
          else Inr (dset tid (new_span tid Skipped) (fst st), snd st))"

fun seq_run :: "run_env \<Rightarrow> workflow \<Rightarrow> (string, json) dict \<Rightarrow> string list \<Rightarrow> seq_state \<Rightarrow> seq_state res" where
  "seq_run env w inputs [] st = Inr st"
| "seq_run env w inputs (tid # tids) st =
     rbind (seq_task env w inputs tid st) (seq_run env w inputs tids)"

text \<open>An order of all the tasks with the dependencies of a task before it.\<close>

definition topological :: "workflow \<Rightarrow> string list \<Rightarrow> bool" where
  "topological w order \<longleftrightarrow> distinct order \<and> set order = set (task_ids w)
     \<and> (\<forall>xs n ys. order = xs @ n # ys \<longrightarrow> set (deps_of w n) \<subseteq> set xs)"

text \<open>Inputs refer to the run inputs and to declared dependencies. A task named \<open>input\<close>
  would shadow the run inputs in the scope.\<close>

definition refs_declared :: "workflow \<Rightarrow> bool" where
  "refs_declared w \<longleftrightarrow> ''input'' \<notin> set (task_ids w) \<and>
     (\<forall>t \<in> set (wf_tasks w). \<forall>p \<in> set (refs_of (JObj (tk_inputs t))).
        ref_head p \<in> insert ''input'' (set (tk_depends_on t)))"

section \<open>A task sees its dependencies only\<close>

lemma dget_run_scope:
  assumes "distinct (dkeys rs)"
  shows "dget (run_scope inputs rs) h =
    (case dget rs h of Some out \<Rightarrow> Some (JObj [(''output'', out)])
     | None \<Rightarrow> if h = ''input'' then Some (JObj inputs) else None)"
proof -
  have k: "dkeys (map (\<lambda>(tid, out). (tid, JObj [(''output'', out)])) rs) = dkeys rs"
    by (induction rs) auto
  have m: "map_of (map (\<lambda>(tid, out). (tid, JObj [(''output'', out)])) rs) h
      = map_option (\<lambda>out. JObj [(''output'', out)]) (dget rs h)"
    by (induction rs) auto
  have r: "map_of (rev (map (\<lambda>(tid, out). (tid, JObj [(''output'', out)])) rs))
      = map_of (map (\<lambda>(tid, out). (tid, JObj [(''output'', out)])) rs)"
    using dict_of_distinct [of "map (\<lambda>(tid, out). (tid, JObj [(''output'', out)])) rs"] assms k
    by (metis dget_dict_of)
  show ?thesis
    unfolding run_scope_def dget_dict_of
    by (auto simp: map_add_def m r rev_map [symmetric] split: option.splits simp del: rev_map)
qed

lemma execute_task_cong:
  assumes w: "refs_declared w" "t \<in> set (wf_tasks w)"
    and d: "distinct (dkeys rs)" "distinct (dkeys rs')"
    and k: "dget rs ''input'' = None" "dget rs' ''input'' = None"
    and e: "\<And>d. d \<in> set (tk_depends_on t) \<Longrightarrow> dget rs d = dget rs' d"
  shows "execute_task env w t inputs rs = execute_task env w t inputs rs'"
proof -
  have "resolve_template (ev_fr env) (run_scope inputs rs) (JObj (tk_inputs t))
      = resolve_template (ev_fr env) (run_scope inputs rs') (JObj (tk_inputs t))"
  proof (rule resolve_cong, rule lookup_ref_head)
    fix p assume "p \<in> set (refs_of (JObj (tk_inputs t)))"
    then have "ref_head p \<in> insert ''input'' (set (tk_depends_on t))"
      using w unfolding refs_declared_def by blast
    then show "dget (run_scope inputs rs) (ref_head p) = dget (run_scope inputs rs') (ref_head p)"
      using e k by (auto simp: dget_run_scope [OF d(1)] dget_run_scope [OF d(2)])
  qed
  then show ?thesis by (simp only: execute_task_def)
qed

section \<open>Consistent sets of spans\<close>

definition outputs_of :: "(string \<Rightarrow> task_span option) \<Rightarrow> string \<Rightarrow> json option" where
  "outputs_of spans c = (case spans c of None \<Rightarrow> None
     | Some sp \<Rightarrow> if ts_status sp = Succeeded then Some (ts_output sp) else None)"

text \<open>Each span of \<open>A\<close> comes from executing the task after its dependencies or from skipping
  it because of one of them.\<close>

definition consistent :: "run_env \<Rightarrow> workflow \<Rightarrow> (string, json) dict \<Rightarrow> string set \<Rightarrow> (string \<Rightarrow> task_span option) \<Rightarrow> bool" where
  "consistent env w inputs A spans \<longleftrightarrow>
     dom spans = A \<and> A \<subseteq> set (task_ids w)
   \<and> (\<forall>n \<in> A. \<forall>sp. spans n = Some sp \<longrightarrow>
        (set (deps_of w n) \<subseteq> dom (outputs_of spans) \<and> produced env w inputs (outputs_of spans) n (Inr sp))
      \<or> ((\<exists>d \<in> set (deps_of w n). d \<in> A - dom (outputs_of spans)) \<and> sp = new_span n Skipped))"

lemma outputs_dom: "dom (outputs_of spans) \<subseteq> dom spans"
  by (auto simp: outputs_of_def split: option.splits)

lemma map_le_None: "f \<subseteq>\<^sub>m g \<Longrightarrow> g k = None \<Longrightarrow> f k = None"
  by (metis domIff map_le_def)

lemma produced_unique:
  assumes w: "well_formed w" and r: "refs_declared w"
    and p: "produced env w inputs m n x" "produced env w inputs m' n y"
    and i: "dom m \<subseteq> set (task_ids w)" "dom m' \<subseteq> set (task_ids w)"
    and e: "\<And>d. d \<in> set (deps_of w n) \<Longrightarrow> m d = m' d"
  shows "x = y"
proof -
  have d: "distinct (task_ids w)" using w by (simp add: well_formed_def)
  obtain t rs where t: "dget (task_map w) n = Some t" "distinct (dkeys rs)" "dget rs \<subseteq>\<^sub>m m"
    "set (tk_depends_on t) \<subseteq> dom (dget rs)" "x = execute_task env w t inputs rs"
    using p(1) by (auto simp: produced_def)
  obtain rs' where t': "distinct (dkeys rs')" "dget rs' \<subseteq>\<^sub>m m'"
    "set (tk_depends_on t) \<subseteq> dom (dget rs')" "y = execute_task env w t inputs rs'"
    using p(2) t(1) by (auto simp: produced_def)
  have tt: "t \<in> set (wf_tasks w)" "deps_of w n = tk_depends_on t"
    using t(1) dget_task_map [OF d, of n t] deps_of_task [OF d, of t] by auto
  have "''input'' \<notin> set (task_ids w)" using r by (simp add: refs_declared_def)
  then have "m ''input'' = None" "m' ''input'' = None" using i by blast+
  then have "dget rs ''input'' = None" "dget rs' ''input'' = None"
    using map_le_None [OF t(3)] map_le_None [OF t'(2)] by simp_all
  moreover have "dget rs k = dget rs' k" if k: "k \<in> set (tk_depends_on t)" for k
  proof -
    have "dget rs k = m k" "dget rs' k = m' k"
      using t(3,4) t'(2,3) k by (auto simp: map_le_def)
    then show ?thesis using e [of k] k tt(2) by simp
  qed
  ultimately show ?thesis
    unfolding t(5) t'(4) by (intro execute_task_cong [OF r tt(1) t(2) t'(1)])
qed

lemma consistent_cases:
  assumes "consistent env w inputs A spans" and "n \<in> A"
  obtains (executed) sp where "spans n = Some sp" "set (deps_of w n) \<subseteq> dom (outputs_of spans)"
      "produced env w inputs (outputs_of spans) n (Inr sp)"
    | (skipped) d where "spans n = Some (new_span n Skipped)" "d \<in> set (deps_of w n)" "d \<in> A"
      "outputs_of spans d = None"
proof -
  obtain sp where "spans n = Some sp" using assms by (auto simp: consistent_def)
  then have "(set (deps_of w n) \<subseteq> dom (outputs_of spans) \<and> produced env w inputs (outputs_of spans) n (Inr sp))
      \<or> ((\<exists>d \<in> set (deps_of w n). d \<in> A - dom (outputs_of spans)) \<and> sp = new_span n Skipped)"
    using assms unfolding consistent_def by simp
  then show ?thesis
  proof (elim disjE conjE bexE)
    assume "set (deps_of w n) \<subseteq> dom (outputs_of spans)" "produced env w inputs (outputs_of spans) n (Inr sp)"
    with \<open>spans n = Some sp\<close> show ?thesis by (rule executed)
  next
    fix d assume "d \<in> set (deps_of w n)" "d \<in> A - dom (outputs_of spans)" "sp = new_span n Skipped"
    with \<open>spans n = Some sp\<close> show ?thesis by (intro skipped [of d]) auto
  qed
qed

lemma consistent_agree:
  assumes w: "well_formed w" and r: "refs_declared w"
    and a: "consistent env w inputs A spans" and b: "consistent env w inputs B spans'"
  shows "n \<in> A \<Longrightarrow> n \<in> B \<Longrightarrow> spans n = spans' n"
proof (induction n rule: dag.dep_induct [OF w])
  case (1 n)
  have o: "outputs_of spans d = outputs_of spans' d" if "d \<in> set (deps_of w n)" "d \<in> A" "d \<in> B" for d
    using "1.IH" [OF that] by (simp add: outputs_of_def)
  have da: "dom (outputs_of spans) \<subseteq> A" "A \<subseteq> set (task_ids w)"
    using a outputs_dom [of spans] by (auto simp: consistent_def)
  have db: "dom (outputs_of spans') \<subseteq> B" "B \<subseteq> set (task_ids w)"
    using b outputs_dom [of spans'] by (auto simp: consistent_def)
  from a "1.prems"(1) show ?case
  proof (cases rule: consistent_cases)
    case (executed sp)
    note x = this
    from b "1.prems"(2) show ?thesis
    proof (cases rule: consistent_cases)
      case (executed sp')
      have "(Inr sp :: task_span res) = Inr sp'"
        by (rule produced_unique [OF w r x(3) executed(3)])
           (use o x(2) executed(2) da db in blast)+
      then show ?thesis using x(1) executed(1) by simp
    next
      case (skipped d)
      then have "d \<in> A" "outputs_of spans d \<noteq> None" using x(2) da(1) by blast+
      then show ?thesis using o [OF skipped(2) _ skipped(3)] skipped(4) by simp
    qed
  next
    case (skipped d)
    note x = this
    from b "1.prems"(2) show ?thesis
    proof (cases rule: consistent_cases)
      case (executed sp')
      then have "d \<in> B" "outputs_of spans' d \<noteq> None" using x(2) db(1) by blast+
      then show ?thesis using o [OF x(2,3)] x(4) by simp
    next
      case (skipped d')
      then show ?thesis using x(1) by simp
    qed
  qed
qed

lemma sched_consistent:
  assumes "sched_inv env w inputs s"
  shows "consistent env w inputs (span_ids s) (dget (sc_spans s))"
    "dget (sc_results s) = outputs_of (dget (sc_spans s))"
proof -
  have inv_s: "tidy w s" "stored s" "released w s" "blocked w s" "originated env w inputs s"
    using assms by (simp_all add: sched_inv_def)
  show r: "dget (sc_results s) = outputs_of (dget (sc_spans s))"
    using inv_s(2) by (auto simp: stored_def outputs_of_def)
  have ids: "span_ids s \<subseteq> set (task_ids w)" using inv_s(1) by (simp add: tidy_def)
  have "(set (deps_of w n) \<subseteq> result_ids s \<and> produced env w inputs (dget (sc_results s)) n (Inr sp))
      \<or> ((\<exists>d \<in> set (deps_of w n). d \<in> span_ids s - result_ids s) \<and> sp = new_span n Skipped)"
    if n: "n \<in> span_ids s" and sp: "dget (sc_spans s) n = Some sp" for n sp
  proof (cases "n \<in> set (sc_skipped s)")
    case True
    then have "sp = new_span n Skipped" using inv_s(4) sp by (simp add: blocked_def)
    moreover have "\<exists>d \<in> set (deps_of w n). d \<in> span_ids s - result_ids s"
      using True inv_s(4) unfolding blocked_def by blast
    ultimately show ?thesis by blast
  next
    case False
    then have "set (deps_of w n) \<subseteq> result_ids s" using released_iff [OF inv_s(3)] n ids by blast
    then show ?thesis using inv_s(5) n sp False unfolding originated_def by blast
  qed
  then show "consistent env w inputs (span_ids s) (dget (sc_spans s))"
    unfolding consistent_def r [symmetric] using ids by (simp add: dom_map_of_conv_image_fst)
qed

section \<open>The sequential evaluation is consistent\<close>

lemma outputs_mono: "spans n = None \<Longrightarrow> outputs_of spans \<subseteq>\<^sub>m outputs_of (spans(n \<mapsto> sp))"
  by (auto simp: map_le_def outputs_of_def split: option.splits)

lemma consistent_insert:
  assumes c: "consistent env w inputs A spans" and n: "n \<notin> A" "n \<in> set (task_ids w)"
    and sp: "(set (deps_of w n) \<subseteq> dom (outputs_of spans) \<and> produced env w inputs (outputs_of spans) n (Inr sp))
      \<or> ((\<exists>d \<in> set (deps_of w n). d \<in> A - dom (outputs_of spans)) \<and> sp = new_span n Skipped)"
  shows "consistent env w inputs (insert n A) (spans(n \<mapsto> sp))"
proof -
  let ?o = "outputs_of spans" and ?o' = "outputs_of (spans(n \<mapsto> sp))"
  have nn: "spans n = None" using c n(1) by (auto simp: consistent_def)
  note le = outputs_mono [of spans n sp, OF nn]
  have d: "dom ?o \<subseteq> dom ?o'" by (rule map_le_implies_dom_le [OF le])
  have same: "x \<in> A \<Longrightarrow> x \<in> dom ?o' \<Longrightarrow> x \<in> dom ?o" for x
    using n(1) by (cases "x = n") (auto simp: outputs_of_def)
  have keep: "(set (deps_of w k) \<subseteq> dom ?o' \<and> produced env w inputs ?o' k (Inr q))
      \<or> ((\<exists>d \<in> set (deps_of w k). d \<in> insert n A - dom ?o') \<and> q = new_span k Skipped)"
    if "(set (deps_of w k) \<subseteq> dom ?o \<and> produced env w inputs ?o k (Inr q))
      \<or> ((\<exists>d \<in> set (deps_of w k). d \<in> A - dom ?o) \<and> q = new_span k Skipped)" for k q
    using that
  proof (elim disjE conjE bexE)
    assume "set (deps_of w k) \<subseteq> dom ?o" "produced env w inputs ?o k (Inr q)"
    then show ?thesis using d produced_mono [OF _ le] by (intro disjI1 conjI) auto
  next
    fix x assume "x \<in> set (deps_of w k)" "x \<in> A - dom ?o" "q = new_span k Skipped"
    then show ?thesis using same [of x] by (intro disjI2 conjI bexI [of _ x]) blast+
  qed
  show ?thesis
    unfolding consistent_def
  proof (intro conjI ballI allI impI)
    show "dom (spans(n \<mapsto> sp)) = insert n A" "insert n A \<subseteq> set (task_ids w)"
      using c n(2) by (auto simp: consistent_def)
    fix k q assume "k \<in> insert n A" and q: "(spans(n \<mapsto> sp)) k = Some q"
    show "(set (deps_of w k) \<subseteq> dom ?o' \<and> produced env w inputs ?o' k (Inr q))
      \<or> ((\<exists>d \<in> set (deps_of w k). d \<in> insert n A - dom ?o') \<and> q = new_span k Skipped)"
    proof (cases "k = n")
      case True
      then show ?thesis using keep [OF sp] q by simp
    next
      case False
      then have "k \<in> A" "spans k = Some q" using \<open>k \<in> insert n A\<close> q by auto
      then show ?thesis using c by (intro keep) (simp add: consistent_def)
    qed
  qed
qed

definition seq_ok :: "run_env \<Rightarrow> workflow \<Rightarrow> (string, json) dict \<Rightarrow> string set \<Rightarrow> seq_state \<Rightarrow> bool" where
  "seq_ok env w inputs A st \<longleftrightarrow>
     consistent env w inputs A (dget (fst st)) \<and> dget (snd st) = outputs_of (dget (fst st))
   \<and> distinct (dkeys (fst st)) \<and> distinct (dkeys (snd st))"

lemma seq_ok_empty: "seq_ok env w inputs {} ([], [])"
  by (auto simp: seq_ok_def consistent_def outputs_of_def)

text \<open>What the next task of the order does.\<close>

lemma seq_task_produced:
  assumes o: "seq_ok env w inputs A st" and t: "dget (task_map w) n = Some t"
    and d: "set (deps_of w n) \<subseteq> dom (dget (snd st))"
  shows "produced env w inputs (outputs_of (dget (fst st))) n (execute_task env w t inputs (snd st))"
  using o t d by (auto simp: produced_def seq_ok_def deps_of_def intro!: exI [of _ "snd st"])

lemma seq_task_ok:
  assumes o: "seq_ok env w inputs A st" and n: "n \<notin> A" and d: "set (deps_of w n) \<subseteq> A"
    and s: "seq_task env w inputs n st = Inr st'"
  shows "seq_ok env w inputs (insert n A) st'"
proof -
  obtain t where t: "dget (task_map w) n = Some t"
    using s by (auto simp: seq_task_def split: option.splits)
  then have nid: "n \<in> set (task_ids w)" using dget_task_map_None [of w n] by auto
  have dt: "deps_of w n = tk_depends_on t" using t by (simp add: deps_of_def)
  have c: "consistent env w inputs A (dget (fst st))" and r: "dget (snd st) = outputs_of (dget (fst st))"
    using o by (simp_all add: seq_ok_def)
  have nn: "dget (fst st) n = None" using c n by (auto simp: consistent_def)
  show ?thesis
  proof (cases "list_all (\<lambda>d. dget (snd st) d \<noteq> None) (tk_depends_on t)")
    case True
    then have dd: "set (deps_of w n) \<subseteq> dom (dget (snd st))" by (auto simp: list_all_iff dt)
    obtain sp where sp: "execute_task env w t inputs (snd st) = Inr sp"
      "st' = (dset n sp (fst st), if ts_status sp = Succeeded then dset n (ts_output sp) (snd st) else snd st)"
      using s t True by (auto simp: seq_task_def rbind_eq_Inr)
    have "consistent env w inputs (insert n A) ((dget (fst st))(n \<mapsto> sp))"
      using seq_task_produced [OF o t dd] sp(1) dd r by (intro consistent_insert [OF c n nid]) simp
    moreover have "dget (snd st') = outputs_of ((dget (fst st))(n \<mapsto> sp))"
      using nn by (auto simp: sp(2) r outputs_of_def fun_eq_iff)
    ultimately show ?thesis using o by (simp add: seq_ok_def sp(2))
  next
    case False
    then have s': "st' = (dset n (new_span n Skipped) (fst st), snd st)" using s t by (simp add: seq_task_def)
    have "\<exists>d \<in> set (deps_of w n). d \<in> A - dom (outputs_of (dget (fst st)))"
      using False d by (auto simp: list_all_iff dt r)
    then have "consistent env w inputs (insert n A) ((dget (fst st))(n \<mapsto> new_span n Skipped))"
      by (intro consistent_insert [OF c n nid]) simp
    moreover have "dget (snd st) = outputs_of ((dget (fst st))(n \<mapsto> new_span n Skipped))"
      using nn by (auto simp: r outputs_of_def fun_eq_iff new_span_def)
    ultimately show ?thesis using o by (simp add: seq_ok_def s')
  qed
qed

text \<open>Against spans consistent for all the tasks, no task of the order raises.\<close>

lemma seq_task_total:
  assumes w: "well_formed w" and rd: "refs_declared w"
    and all: "consistent env w inputs (set (task_ids w)) spans"
    and o: "seq_ok env w inputs A st" and n: "n \<in> set (task_ids w)" and d: "set (deps_of w n) \<subseteq> A"
  shows "\<exists>st'. seq_task env w inputs n st = Inr st'"
proof -
  obtain t where t: "dget (task_map w) n = Some t"
    using n dget_task_map_None [of w n] by (cases "dget (task_map w) n") auto
  have dt: "deps_of w n = tk_depends_on t" using t by (simp add: deps_of_def)
  have c: "consistent env w inputs A (dget (fst st))" and r: "dget (snd st) = outputs_of (dget (fst st))"
    using o by (simp_all add: seq_ok_def)
  have ids: "A \<subseteq> set (task_ids w)" using c by (simp add: consistent_def)
  have agree: "x \<in> A \<Longrightarrow> outputs_of (dget (fst st)) x = outputs_of spans x" for x
    using consistent_agree [OF w rd c all, of x] ids by (auto simp: outputs_of_def)
  show ?thesis
  proof (cases "list_all (\<lambda>d. dget (snd st) d \<noteq> None) (tk_depends_on t)")
    case True
    then have dd: "set (deps_of w n) \<subseteq> dom (dget (snd st))" by (auto simp: list_all_iff dt)
    from all n show ?thesis
    proof (cases rule: consistent_cases)
      case (executed sp)
      have "execute_task env w t inputs (snd st) = Inr sp"
        by (rule produced_unique [OF w rd seq_task_produced [OF o t dd] executed(3)
              subset_trans [OF outputs_dom] subset_trans [OF outputs_dom]])
           (use agree d c all in \<open>simp_all add: consistent_def subset_iff\<close>)
      then show ?thesis using t True by (simp add: seq_task_def)
    next
      case (skipped x)
      then have "outputs_of (dget (fst st)) x = None" using agree d by auto
      then show ?thesis using dd skipped(2) by (auto simp: r)
    qed
  next
    case False
    then show ?thesis using t by (simp add: seq_task_def)
  qed
qed

lemma seq_run_ok:
  "seq_run env w inputs order st = Inr st' \<Longrightarrow> seq_ok env w inputs A st \<Longrightarrow>
     distinct order \<Longrightarrow> A \<inter> set order = {} \<Longrightarrow>
     (\<forall>xs n ys. order = xs @ n # ys \<longrightarrow> set (deps_of w n) \<subseteq> A \<union> set xs) \<Longrightarrow>
     seq_ok env w inputs (A \<union> set order) st'"
proof (induction order arbitrary: A st)
  case (Cons n order)
  obtain st1 where s: "seq_task env w inputs n st = Inr st1" "seq_run env w inputs order st1 = Inr st'"
    using Cons.prems(1) by (auto simp: rbind_eq_Inr)
  have "set (deps_of w n) \<subseteq> A" using Cons.prems(5) by (metis append_Nil empty_set sup_bot_right)
  then have o: "seq_ok env w inputs (insert n A) st1"
    using Cons.prems(2,4) by (intro seq_task_ok [OF _ _ _ s(1)]) auto
  have "seq_ok env w inputs (insert n A \<union> set order) st'"
  proof (rule Cons.IH [OF s(2) o])
    show "\<forall>xs m ys. order = xs @ m # ys \<longrightarrow> set (deps_of w m) \<subseteq> insert n A \<union> set xs"
    proof (intro allI impI)
      fix xs m ys assume "order = xs @ m # ys"
      then have "n # order = (n # xs) @ m # ys" by simp
      then have "set (deps_of w m) \<subseteq> A \<union> set (n # xs)" using Cons.prems(5) by blast
      then show "set (deps_of w m) \<subseteq> insert n A \<union> set xs" by auto
    qed
  qed (use Cons.prems(3,4) in auto)
  then show ?case by simp
qed simp

lemma seq_run_total:
  assumes "well_formed w" and "refs_declared w" and "consistent env w inputs (set (task_ids w)) spans"
  shows "seq_ok env w inputs A st \<Longrightarrow> distinct order \<Longrightarrow> A \<inter> set order = {} \<Longrightarrow>
     set order \<subseteq> set (task_ids w) \<Longrightarrow>
     (\<forall>xs n ys. order = xs @ n # ys \<longrightarrow> set (deps_of w n) \<subseteq> A \<union> set xs) \<Longrightarrow>
     \<exists>st'. seq_run env w inputs order st = Inr st'"
proof (induction order arbitrary: A st)
  case (Cons n order)
  have d: "set (deps_of w n) \<subseteq> A" using Cons.prems(5) by (metis append_Nil empty_set sup_bot_right)
  obtain st1 where s: "seq_task env w inputs n st = Inr st1"
    using seq_task_total [OF assms Cons.prems(1) _ d] Cons.prems(4) by auto
  have o: "seq_ok env w inputs (insert n A) st1"
    using Cons.prems(1,3) d by (intro seq_task_ok [OF _ _ _ s]) auto
  have "\<exists>st'. seq_run env w inputs order st1 = Inr st'"
  proof (rule Cons.IH [OF o])
    show "\<forall>xs m ys. order = xs @ m # ys \<longrightarrow> set (deps_of w m) \<subseteq> insert n A \<union> set xs"
    proof (intro allI impI)
      fix xs m ys assume "order = xs @ m # ys"
      then have "n # order = (n # xs) @ m # ys" by simp
      then have "set (deps_of w m) \<subseteq> A \<union> set (n # xs)" using Cons.prems(5) by blast
      then show "set (deps_of w m) \<subseteq> insert n A \<union> set xs" by auto
    qed
  qed (use Cons.prems(2-4) in auto)
  then show ?case using s by simp
qed simp

section \<open>The loop implements the sequential evaluation\<close>

lemma sequential_exists:
  assumes w: "well_formed w" and rd: "refs_declared w" and top: "topological w order"
    and inv: "sched_inv env w inputs s" and e: "sc_ready s = []" "sc_running s = []"
  shows "\<exists>spans results. seq_run env w inputs order ([], []) = Inr (spans, results)
    \<and> dget spans = dget (sc_spans s) \<and> dget results = dget (sc_results s)
    \<and> sum_list (map (span_totals \<circ> snd) spans) = sc_totals s"
proof -
  note f = finished_all [OF w inv e]
  have c: "consistent env w inputs (set (task_ids w)) (dget (sc_spans s))"
    using sched_consistent(1) [OF inv] f by simp
  have o: "distinct order" "set order = set (task_ids w)"
    "\<forall>xs n ys. order = xs @ n # ys \<longrightarrow> set (deps_of w n) \<subseteq> {} \<union> set xs"
    using top by (simp_all add: topological_def)
  obtain st where st: "seq_run env w inputs order ([], []) = Inr st"
    using seq_run_total [OF w rd c seq_ok_empty o(1) _ _ o(3)] o(2) by auto
  have ok: "seq_ok env w inputs (set (task_ids w)) st"
    using seq_run_ok [OF st seq_ok_empty o(1) _ o(3)] o(2) by simp
  then have okc: "consistent env w inputs (set (task_ids w)) (dget (fst st))" by (simp add: seq_ok_def)
  have eq: "dget (fst st) = dget (sc_spans s)"
  proof
    fix n show "dget (fst st) n = dget (sc_spans s) n"
    proof (cases "n \<in> set (task_ids w)")
      case True
      show ?thesis by (rule consistent_agree [OF w rd okc c True True])
    next
      case False
      then have "dget (fst st) n = None" "dget (sc_spans s) n = None"
        using ok c unfolding seq_ok_def consistent_def by blast+
      then show ?thesis by simp
    qed
  qed
  have "mset (fst st) = mset (sc_spans s)"
  proof -
    have "distinct (dkeys (fst st))" "distinct (dkeys (sc_spans s))"
      using ok inv by (simp_all add: seq_ok_def sched_inv_def tidy_def)
    then show ?thesis
      using eq by (simp add: map_of_inject_set distinct_map set_eq_iff_mset_eq_distinct [symmetric])
  qed
  then have "sum_list (map (span_totals \<circ> snd) (fst st)) = sum_list (map (span_totals \<circ> snd) (sc_spans s))"
    by (rule sum_list_mset)
  moreover have "sc_totals s = sum_list (map (span_totals \<circ> snd) (sc_spans s))"
    using inv by (simp add: sched_inv_def stored_def)
  moreover have "dget (snd st) = dget (sc_results s)"
    using ok sched_consistent(2) [OF inv] eq by (simp add: seq_ok_def)
  ultimately show ?thesis using st eq by (cases st) simp
qed

text \<open>Conversely, when the sequential evaluation succeeds, no schedule raises.\<close>

lemma sequential_safe:
  assumes w: "well_formed w" and rd: "refs_declared w" and top: "topological w order"
    and s: "seq_run env w inputs order ([], []) = Inr st"
    and inv: "sched_inv env w inputs s" and p: "produced env w inputs (dget (sc_results s)) tid (Inl e)"
  shows False
proof -
  have "\<forall>xs n ys. order = xs @ n # ys \<longrightarrow> set (deps_of w n) \<subseteq> {} \<union> set xs" "distinct order"
    "set order = set (task_ids w)"
    using top by (simp_all add: topological_def)
  then have ok: "seq_ok env w inputs (set (task_ids w)) st"
    using seq_run_ok [OF s seq_ok_empty] by simp
  then have c: "consistent env w inputs (set (task_ids w)) (dget (fst st))" by (simp add: seq_ok_def)
  note sc = sched_consistent [OF inv]
  obtain t rs where t: "dget (task_map w) tid = Some t" "dget rs \<subseteq>\<^sub>m dget (sc_results s)"
    "set (tk_depends_on t) \<subseteq> dom (dget rs)"
    using p by (auto simp: produced_def)
  have tid: "tid \<in> set (task_ids w)" using t(1) dget_task_map_None [of w tid] by auto
  have sub: "span_ids s \<subseteq> set (task_ids w)" using inv by (simp add: sched_inv_def tidy_def)
  have res: "result_ids s \<subseteq> span_ids s" using inv stored_dom by (simp add: sched_inv_def)
  have deps: "d \<in> set (deps_of w tid) \<Longrightarrow> d \<in> result_ids s" for d
    using t map_le_implies_dom_le [OF t(2)] by (auto simp: deps_of_def)
  have agree: "d \<in> set (deps_of w tid) \<Longrightarrow> dget (sc_results s) d = outputs_of (dget (fst st)) d" for d
  proof -
    assume "d \<in> set (deps_of w tid)"
    then have "d \<in> span_ids s" "d \<in> set (task_ids w)" using deps res sub by blast+
    then have "dget (sc_spans s) d = dget (fst st) d" by (rule consistent_agree [OF w rd sc(1) c])
    then show ?thesis by (simp add: sc(2) outputs_of_def)
  qed
  from c tid show False
  proof (cases rule: consistent_cases)
    case (executed sp)
    have "(Inl e :: task_span res) = Inr sp"
    proof (rule produced_unique [OF w rd p executed(3)])
      show "result_ids s \<subseteq> set (task_ids w)" using res sub by blast
      show "dom (outputs_of (dget (fst st))) \<subseteq> set (task_ids w)"
        using outputs_dom [of "dget (fst st)"] c by (simp add: consistent_def)
    qed (rule agree)
    then show False by simp
  next
    case (skipped d)
    then show False using agree [of d] deps [of d] by auto
  qed
qed

section \<open>A sequential evaluation without failures\<close>

lemma produced_sequential:
  assumes w: "well_formed w" and rd: "refs_declared w"
    and c: "consistent env w inputs (set (task_ids w)) seqs"
    and ok: "\<And>m. m \<in> set (task_ids w) \<Longrightarrow> outputs_of seqs m \<noteq> None"
    and p: "produced env w inputs results n x"
    and dr: "dom results \<subseteq> set (task_ids w)"
    and e: "\<And>d. d \<in> set (deps_of w n) \<Longrightarrow> results d = outputs_of seqs d"
  shows "\<exists>sp. seqs n = Some sp \<and> x = Inr sp \<and> ts_status sp = Succeeded"
proof -
  obtain t where "dget (task_map w) n = Some t" using p by (auto simp: produced_def)
  then have n: "n \<in> set (task_ids w)" using dget_task_map_None [of w n] by auto
  have ds: "dom (outputs_of seqs) \<subseteq> set (task_ids w)"
    using outputs_dom [of seqs] c by (simp add: consistent_def)
  from c n show ?thesis
  proof (cases rule: consistent_cases)
    case (executed sp)
    have "x = Inr sp" by (rule produced_unique [OF w rd p executed(3) dr ds e])
    then show ?thesis using executed(1) ok [OF n] by (auto simp: outputs_of_def split: if_splits)
  next
    case (skipped d)
    then show ?thesis using ok by blast
  qed
qed

lemma produced_deps:
  assumes "produced env w inputs results n x"
  shows "set (deps_of w n) \<subseteq> dom results"
proof -
  obtain t rs where "dget (task_map w) n = Some t" "dget rs \<subseteq>\<^sub>m results" "set (tk_depends_on t) \<subseteq> dom (dget rs)"
    using assms by (auto simp: produced_def)
  then show ?thesis using map_le_implies_dom_le [of "dget rs" results] by (simp add: deps_of_def)
qed

lemma aborted_not_sequential:
  assumes w: "well_formed w" and rd: "refs_declared w"
    and c: "consistent env w inputs (set (task_ids w)) seqs"
    and ok: "\<And>m. m \<in> set (task_ids w) \<Longrightarrow> outputs_of seqs m \<noteq> None"
  shows "\<not> aborted env w inputs s"
proof
  assume a: "aborted env w inputs s"
  then have st: "stored s" and ids: "span_ids s = set (task_ids w)"
    and org: "\<And>n sp. dget (sc_spans s) n = Some sp \<Longrightarrow>
      sp = new_span n Skipped \<or> produced env w inputs (dget (sc_results s)) n (Inr sp)"
    unfolding aborted_def by blast+
  have dr: "result_ids s \<subseteq> set (task_ids w)" using stored_dom [OF st] ids by simp
  have so: "dget (sc_results s) = outputs_of (dget (sc_spans s))"
    using st by (auto simp: stored_def outputs_of_def)
  have agree: "m \<in> result_ids s \<Longrightarrow> dget (sc_results s) m = outputs_of seqs m" for m
  proof (induction m rule: dag.dep_induct [OF w])
    case (1 m)
    then obtain sp where sp: "dget (sc_spans s) m = Some sp" "ts_status sp = Succeeded"
      by (auto simp: so outputs_of_def split: option.splits if_splits)
    then have p: "produced env w inputs (dget (sc_results s)) m (Inr sp)"
      using org [OF sp(1)] by (auto simp: new_span_def)
    have "dget (sc_results s) d = outputs_of seqs d" if "d \<in> set (deps_of w m)" for d
      using "1.IH" [OF that] produced_deps [OF p] that by blast
    from produced_sequential [OF w rd c ok p dr this] sp show ?case
      by (auto simp: so outputs_of_def)
  qed
  obtain n sp where sp: "dget (sc_spans s) n = Some sp" "ts_status sp \<noteq> Succeeded"
    and p: "produced env w inputs (dget (sc_results s)) n (Inr sp)"
    using a unfolding aborted_def by blast
  have "dget (sc_results s) d = outputs_of seqs d" if "d \<in> set (deps_of w n)" for d
    using agree produced_deps [OF p] that by blast
  from produced_sequential [OF w rd c ok p dr this] sp(2) show False by auto
qed

text \<open>When every task succeeds in the sequential evaluation, no schedule fails or raises.\<close>

definition all_succeed :: "spans \<Rightarrow> bool" where
  "all_succeed spans = list_all (\<lambda>(n, sp). ts_status sp = Succeeded) spans"

lemma sequential_success:
  assumes w: "well_formed w" and rd: "refs_declared w" and top: "topological w order"
    and s: "seq_run env w inputs order ([], []) = Inr (spans, results)" and ok: "all_succeed spans"
  shows "config_inv env w inputs (Raised e) \<Longrightarrow> False"
    "config_inv env w inputs (Finished f) \<Longrightarrow> \<not> sc_failed f \<and> dget (sc_spans f) = dget spans
       \<and> dget (sc_results f) = dget results"
proof -
  show "config_inv env w inputs (Raised e) \<Longrightarrow> False"
    using sequential_safe [OF w rd top s] by auto
  assume f: "config_inv env w inputs (Finished f)"
  have o: "distinct order" "set order = set (task_ids w)"
    "\<forall>xs n ys. order = xs @ n # ys \<longrightarrow> set (deps_of w n) \<subseteq> {} \<union> set xs"
    using top by (simp_all add: topological_def)
  have c: "consistent env w inputs (set (task_ids w)) (dget spans)"
    using seq_run_ok [OF s seq_ok_empty o(1) _ o(3)] o(2) by (simp add: seq_ok_def)
  have so: "outputs_of (dget spans) m \<noteq> None" if m: "m \<in> set (task_ids w)" for m
  proof -
    have "m \<in> dom (dget spans)" using c m by (simp only: consistent_def)
    then obtain sp where sp: "dget spans m = Some sp" by blast
    then have "ts_status sp = Succeeded" using ok map_of_SomeD [of spans m sp]
      by (auto simp: all_succeed_def list_all_iff)
    then show ?thesis using sp by (simp add: outputs_of_def)
  qed
  have n: "\<not> sc_failed f" using f aborted_not_sequential [OF w rd c so] by auto
  then have i: "sched_inv env w inputs f" "sc_ready f = []" "sc_running f = []" using f by simp_all
  show "\<not> sc_failed f \<and> dget (sc_spans f) = dget spans \<and> dget (sc_results f) = dget results"
    using sequential_exists [OF w rd top i] s n by auto
qed


text \<open>Conditions of the refinement in a form that evaluates.\<close>

fun in_order :: "workflow \<Rightarrow> string list \<Rightarrow> string list \<Rightarrow> bool" where
  "in_order w before [] = True"
| "in_order w before (n # ns) = (list_all (\<lambda>d. d \<in> set before) (deps_of w n) \<and> in_order w (n # before) ns)"

lemma in_order_sound:
  "in_order w before ns \<Longrightarrow> ns = xs @ n # ys \<Longrightarrow> set (deps_of w n) \<subseteq> set before \<union> set xs"
proof (induction ns arbitrary: before xs)
  case (Cons m ns)
  show ?case
  proof (cases xs)
    case Nil
    then show ?thesis using Cons.prems by (auto simp: list_all_iff)
  next
    case (Cons x xs')
    then show ?thesis using Cons.IH [of "m # before" xs'] Cons.prems by auto
  qed
qed simp

definition sequential_plan :: "workflow \<Rightarrow> string list \<Rightarrow> bool" where
  "sequential_plan w order \<longleftrightarrow> distinct order \<and> set order = set (task_ids w) \<and> in_order w [] order
     \<and> ''input'' \<notin> set (task_ids w)
     \<and> list_all (\<lambda>t. list_all (\<lambda>p. ref_head p \<in> set (''input'' # tk_depends_on t)) (refs_of (JObj (tk_inputs t)))) (wf_tasks w)"

lemma sequential_plan_sound:
  assumes "sequential_plan w order"
  shows "topological w order" "refs_declared w"
  using assms in_order_sound [of w "[]" order]
  by (auto simp: sequential_plan_def topological_def refs_declared_def list_all_iff)

lemma resolve_results:
  assumes "distinct (dkeys rs)" and "distinct (dkeys rs')" and "dget rs = dget rs'"
  shows "resolve_template fr (run_scope inputs rs) v = resolve_template fr (run_scope inputs rs') v"
  by (rule resolve_cong, rule lookup_ref_head)
     (simp add: dget_run_scope [OF assms(1)] dget_run_scope [OF assms(2)] assms(3))

section \<open>Every schedule computes the same\<close>

lemma demo_refs: "refs_declared (demo_workflow a oe)"
proof -
  have p: "ref_head p \<in> insert ''input'' (set ds)" if "list_all (\<lambda>p. ref_head p \<in> set (''input'' # ds)) ps" "p \<in> set ps" for p ds ps
    using that by (auto simp: list_all_iff)
  have "list_all (\<lambda>p. ref_head p \<in> set [''input'']) (refs_of (JObj [(''x'', JStr ''${input.x}'')]))"
    "list_all (\<lambda>p. ref_head p \<in> set [''input'', ''a'', ''b'']) (refs_of (JObj [(''y'', JStr ''${a.output.x}'')]))"
    by code_simp+
  then show ?thesis
    unfolding refs_declared_def by (auto simp: demo_workflow_def demo_task_def list_all_iff)
qed

lemma demo_topological: "topological (demo_workflow a oe) [''b'', ''a'', ''c'']"
proof -
  have d: "deps_of (demo_workflow a oe) ''a'' = []" "deps_of (demo_workflow a oe) ''b'' = []"
    "deps_of (demo_workflow a oe) ''c'' = [''a'', ''b'']"
    by (simp_all add: deps_of_def task_map_def dict_of_def demo_workflow_def demo_task_def)
  show ?thesis
    unfolding topological_def using d
    by (auto simp: demo_workflow_def demo_task_def Cons_eq_append_conv)
qed

text \<open>C1. Refinement: let the inputs of the tasks of a valid workflow refer only to inputs of the run and
  to outputs of dependencies that the task declares, and let no task be named \<open>input\<close>. Then a run
  that does not fail fast, under any batches the event loop reports, has the spans, the results and
  the totals of the sequential evaluation, in any order that respects the dependencies.\<close>

theorem run_refines_sequential:
  assumes "well_formed w" and "refs_declared w"
    and "sched_steps env w inputs (Loop (init_sched w)) (Finished s)" and "\<not> sc_failed s"
    and "topological w order"
  shows "\<exists>spans results. seq_run env w inputs order ([], []) = Inr (spans, results)
    \<and> dget (sc_spans s) = dget spans \<and> dget (sc_results s) = dget results
    \<and> sc_totals s = sum_list (map (span_totals \<circ> snd) spans)"
proof -
  have "sched_inv env w inputs s" "sc_ready s = []" "sc_running s = []"
    using loop_reachable [OF assms(1,3)] assms(4) by simp_all
  from sequential_exists [OF assms(1,2,5) this] show ?thesis by metis
qed

theorem run_refines_sequential_witness:
  "\<exists>s spans results. sched_steps demo_env (demo_workflow ''boom'' ''continue'') demo_inputs (demo_start ''boom'' ''continue'') (Finished s)
     \<and> seq_run demo_env (demo_workflow ''boom'' ''continue'') demo_inputs [''b'', ''a'', ''c''] ([], []) = Inr (spans, results)
     \<and> dget (sc_spans s) = dget spans"
proof -
  obtain s where s: "sched_steps demo_env (demo_workflow ''boom'' ''continue'') demo_inputs (demo_start ''boom'' ''continue'') (Finished s)"
    "\<not> sc_failed s" using demo_reach(1) [OF demo_skip] by blast
  have "well_formed (demo_workflow ''boom'' ''continue'')" by (simp add: demo_well_formed)
  from run_refines_sequential [OF this demo_refs s demo_topological] s(1) show ?thesis by blast
qed

text \<open>C2. Schedule independence: let the inputs of the tasks of a valid workflow refer only to inputs of
  the run and to outputs of dependencies that the task declares, and let no task be named \<open>input\<close>.
  Then two runs of it on the same inputs that end without a fail-fast agree on every span, every
  result and the totals, whatever the order of completion.\<close>

theorem schedules_agree:
  assumes "well_formed w" and "refs_declared w"
    and "sched_steps env w inputs (Loop (init_sched w)) (Finished s)" and "\<not> sc_failed s"
    and "sched_steps env w inputs (Loop (init_sched w)) (Finished s')" and "\<not> sc_failed s'"
  shows "dget (sc_spans s) = dget (sc_spans s') \<and> dget (sc_results s) = dget (sc_results s')
    \<and> sc_totals s = sc_totals s'"
proof -
  have i: "sched_inv env w inputs s" "sc_ready s = []" "sc_running s = []"
    using loop_reachable [OF assms(1,3)] assms(4) by simp_all
  have i': "sched_inv env w inputs s'" "sc_ready s' = []" "sc_running s' = []"
    using loop_reachable [OF assms(1,5)] assms(6) by simp_all
  have ids: "span_ids s = set (task_ids w)" "span_ids s' = set (task_ids w)"
    by (rule finished_all [OF assms(1) i], rule finished_all [OF assms(1) i'])
  have eq: "dget (sc_spans s) = dget (sc_spans s')"
  proof
    fix n show "dget (sc_spans s) n = dget (sc_spans s') n"
    proof (cases "n \<in> set (task_ids w)")
      case True
      then show ?thesis
        using consistent_agree [OF assms(1,2) sched_consistent(1) [OF i(1)] sched_consistent(1) [OF i'(1)]]
        by (simp only: ids)
    next
      case False
      then have "n \<notin> span_ids s" "n \<notin> span_ids s'" by (simp_all only: ids not_False_eq_True)
      then show ?thesis by (simp only: dget_None_iff [symmetric])
    qed
  qed
  have "mset (sc_spans s) = mset (sc_spans s')"
  proof -
    have "distinct (dkeys (sc_spans s))" "distinct (dkeys (sc_spans s'))"
      using i(1) i'(1) by (simp_all add: sched_inv_def tidy_def)
    then show ?thesis
      using eq by (simp add: map_of_inject_set distinct_map set_eq_iff_mset_eq_distinct [symmetric])
  qed
  then have "sum_list (map (span_totals \<circ> snd) (sc_spans s)) = sum_list (map (span_totals \<circ> snd) (sc_spans s'))"
    by (rule sum_list_mset)
  moreover have "dget (sc_results s) = dget (sc_results s')"
    by (simp only: sched_consistent(2) [OF i(1)] sched_consistent(2) [OF i'(1)] eq)
  ultimately show ?thesis using i(1) i'(1) eq by (simp add: sched_inv_def stored_def)
qed

theorem schedules_agree_witness:
  "\<exists>s s'. demo_run ''copy'' ''fail_fast'' [[''b'', ''a''], [''c''], []] = Some (Finished s)
     \<and> demo_run ''copy'' ''fail_fast'' [[''a''], [''b''], [''c''], []] = Some (Finished s')
     \<and> sc_totals s = sc_totals s'"
proof -
  have "ends_clean (demo_run ''copy'' ''fail_fast'' [[''a''], [''b''], [''c''], []])" by code_simp
  then obtain s' where s': "demo_run ''copy'' ''fail_fast'' [[''a''], [''b''], [''c''], []] = Some (Finished s')" "\<not> sc_failed s'"
    by (cases "demo_run ''copy'' ''fail_fast'' [[''a''], [''b''], [''c''], []]" rule: ends_clean.cases) auto
  obtain s where s: "demo_run ''copy'' ''fail_fast'' [[''b'', ''a''], [''c''], []] = Some (Finished s)" "\<not> sc_failed s"
    using demo_clean
    by (cases "demo_run ''copy'' ''fail_fast'' [[''b'', ''a''], [''c''], []]" rule: ends_clean.cases) auto
  have "well_formed (demo_workflow ''copy'' ''fail_fast'')" by (simp add: demo_well_formed)
  from schedules_agree [OF this demo_refs run_turns_steps [OF s(1)] s(2) run_turns_steps [OF s'(1)] s'(2)]
  show ?thesis using s(1) s'(1) by blast
qed

text \<open>If the sequential evaluation of a valid workflow succeeds in some order, no schedule of
  the concurrent loop raises.\<close>

lemma sequential_never_raises:
  assumes "well_formed w" and "refs_declared w" and "topological w order"
    and "seq_run env w inputs order ([], []) = Inr st"
  shows "\<not> sched_steps env w inputs (Loop (init_sched w)) (Raised e)"
proof
  assume "sched_steps env w inputs (Loop (init_sched w)) (Raised e)"
  from loop_reachable [OF assms(1) this] obtain s tid where
    "sched_inv env w inputs s" "produced env w inputs (dget (sc_results s)) tid (Inl e)" by auto
  then show False by (rule sequential_safe [OF assms])
qed

end
