(* ===== verification/Rate_Limit.thy ===== *)
theory Rate_Limit
  imports Workflow_Spec
begin

text \<open>
  \<open>sdk-python/orchestrator/ratelimit.py\<close>: the token bucket. One pass of the loop of
  \<open>acquire\<close> runs under the lock and reads the clock once; between two passes the task
  sleeps, and passes of other tasks may come in between. The clock readings are arguments.
  The bounds of the tokens hold for every rounding that is monotone and keeps zero, the waiting
  time for every one with a bounded relative error; the throughput is proved for exact
  arithmetic.
\<close>

record bucket =
  bk_rate :: rat
  bk_per :: rat
  bk_capacity :: rat
  bk_tokens :: rat
  bk_name :: string
  bk_updated :: rat

datatype limiter = NullBucket | TokenBucket bucket

section \<open>Construction\<close>

text \<open>\<open>TokenBucket.__init__\<close>; \<open>per\<close> may still be \<open>None\<close>, whose comparison raises.\<close>

definition init_bucket :: "rat \<Rightarrow> rat \<Rightarrow> rat option \<Rightarrow> rat option \<Rightarrow> string \<Rightarrow> bucket res" where
  "init_bucket now rate per capacity name =
     (if rate \<le> 0 then Inl (ValueError ''rate and per must be positive'')
      else case per of
             None \<Rightarrow> Inl TypeError
           | Some p \<Rightarrow>
               if p \<le> 0 then Inl (ValueError ''rate and per must be positive'')
               else let c = (case capacity of Some c \<Rightarrow> c | None \<Rightarrow> rate) in
                    Inr \<lparr>bk_rate = rate, bk_per = p, bk_capacity = c, bk_tokens = c,
                         bk_name = name, bk_updated = now\<rparr>)"

definition bucket_for :: "rat \<Rightarrow> rate_limit option \<Rightarrow> string \<Rightarrow> limiter res" where
  "bucket_for now rl name =
     (case rl of
        None \<Rightarrow> Inr NullBucket
      | Some r \<Rightarrow> rmap TokenBucket
          (init_bucket now (of_int (rl_requests r)) (rl_per r) (Some (of_int (rl_requests r))) name))"

definition token_bucket_for :: "rat \<Rightarrow> rate_limit option \<Rightarrow> string \<Rightarrow> limiter res" where
  "token_bucket_for now rl name =
     (case rl of
        None \<Rightarrow> Inr NullBucket
      | Some r \<Rightarrow>
          if rl_tokens r = JNull \<or> rl_per_tokens r = None then Inr NullBucket
          else rbind (py_num (rl_tokens r)) (\<lambda>n.
               rmap TokenBucket (init_bucket now n (rl_per_tokens r) (Some n) name)))"

section \<open>Acquiring\<close>

definition refill :: "(rat \<Rightarrow> rat) \<Rightarrow> rat \<Rightarrow> bucket \<Rightarrow> bucket" where
  "refill fl now b =
     (let elapsed = fl (now - bk_updated b) in
      b\<lparr>bk_tokens := min (bk_capacity b)
           (fl (bk_tokens b + fl (elapsed * fl (bk_rate b / bk_per b)))),
        bk_updated := now\<rparr>)"

text \<open>One pass under the lock: the tokens are taken, or the time to sleep is computed.\<close>

definition try_acquire :: "(rat \<Rightarrow> rat) \<Rightarrow> rat \<Rightarrow> rat \<Rightarrow> bucket \<Rightarrow> bucket \<times> rat option" where
  "try_acquire fl amount now b =
     (let b' = refill fl now b in
      if amount \<le> bk_tokens b'
      then (b'\<lparr>bk_tokens := fl (bk_tokens b' - amount)\<rparr>, None)
      else (b', Some (fl (fl (amount - bk_tokens b') * fl (bk_per b' / bk_rate b')))))"

text \<open>\<open>acquire\<close> of one task that is alone on the bucket: the sleeps it makes and whether
  the tokens were taken before the clock readings ran out.\<close>

fun acquire_loop :: "(rat \<Rightarrow> rat) \<Rightarrow> rat \<Rightarrow> rat list \<Rightarrow> bucket \<Rightarrow> bucket \<times> rat list \<times> bool" where
  "acquire_loop fl amount [] b = (b, [], False)"
| "acquire_loop fl amount (now # nows) b =
     (case try_acquire fl amount now b of
        (b', None) \<Rightarrow> (b', [], True)
      | (b', Some wait) \<Rightarrow>
          (case acquire_loop fl amount nows b' of (b'', ws, ok) \<Rightarrow> (b'', wait # ws, ok)))"

definition acquire :: "(rat \<Rightarrow> rat) \<Rightarrow> rat \<Rightarrow> rat list \<Rightarrow> limiter \<Rightarrow> (limiter \<times> rat list \<times> bool) res" where
  "acquire fl amount nows l =
     (case l of
        NullBucket \<Rightarrow> Inr (NullBucket, [], True)
      | TokenBucket b \<Rightarrow>
          if bk_capacity b < amount
          then Inl (ValueError ''requested amount exceeds bucket capacity'')
          else (case acquire_loop fl amount nows b of
                  (b', ws, ok) \<Rightarrow> Inr (TokenBucket b', ws, ok)))"

text \<open>Passes of any number of tasks, in the order the lock serves them: (reading, amount).
  The result lists the granted amounts.\<close>

fun run_passes :: "(rat \<Rightarrow> rat \<Rightarrow> 'b \<Rightarrow> 'b \<times> rat option) \<Rightarrow> (rat \<times> rat) list \<Rightarrow> 'b \<Rightarrow> 'b \<times> rat list" where
  "run_passes pass [] b = (b, [])"
| "run_passes pass ((now, amount) # ps) b =
     (case pass amount now b of
        (b', None) \<Rightarrow> (case run_passes pass ps b' of (b'', gs) \<Rightarrow> (b'', amount # gs))
      | (b', Some _) \<Rightarrow> run_passes pass ps b')"

section \<open>The invariant\<close>

definition rounding :: "(rat \<Rightarrow> rat) \<Rightarrow> bool" where
  "rounding fl \<longleftrightarrow> mono fl \<and> fl 0 = 0"

lemma rounding_nonneg: "rounding fl \<Longrightarrow> 0 \<le> r \<Longrightarrow> 0 \<le> fl r"
  by (metis rounding_def monoD)

definition bucket_ok :: "bucket \<Rightarrow> bool" where
  "bucket_ok b \<longleftrightarrow> 0 < bk_rate b \<and> 0 < bk_per b \<and> 0 \<le> bk_tokens b \<and> bk_tokens b \<le> bk_capacity b"

lemma init_bucket_ok:
  "init_bucket now rate per cap name = Inr b \<Longrightarrow> (case cap of None \<Rightarrow> True | Some c \<Rightarrow> 0 \<le> c) \<Longrightarrow> bucket_ok b"
  by (auto simp: init_bucket_def bucket_ok_def Let_def split: if_splits option.splits)

lemma refill_ok:
  assumes "rounding fl" and "bucket_ok b" and "bk_updated b \<le> now"
  shows "bucket_ok (refill fl now b)"
proof -
  let ?x = "fl (fl (now - bk_updated b) * fl (bk_rate b / bk_per b))"
  have "0 \<le> bk_rate b / bk_per b" using assms(2) by (simp add: bucket_ok_def)
  then have "0 \<le> ?x"
    using assms(3) by (intro rounding_nonneg [OF assms(1)] mult_nonneg_nonneg) auto
  then have "0 \<le> fl (bk_tokens b + ?x)"
    using assms(2) by (intro rounding_nonneg [OF assms(1)]) (simp_all add: bucket_ok_def)
  then show ?thesis using assms(2) by (simp add: refill_def bucket_ok_def Let_def)
qed

lemma refill_frame [simp]:
  "bk_rate (refill fl now b) = bk_rate b" "bk_per (refill fl now b) = bk_per b"
  "bk_capacity (refill fl now b) = bk_capacity b" "bk_updated (refill fl now b) = now"
  by (simp_all add: refill_def Let_def)

lemma try_acquire_frame:
  "try_acquire fl a now b = (b', r) \<Longrightarrow>
     bk_rate b' = bk_rate b \<and> bk_per b' = bk_per b \<and> bk_capacity b' = bk_capacity b \<and> bk_updated b' = now"
  by (auto simp: try_acquire_def Let_def split: if_splits)

text \<open>Rounding the result of the subtraction could lift it above the capacity only if the
  rounding moved it past a value it keeps; so the capacity must be representable.\<close>

lemma try_acquire_ok:
  assumes "rounding fl" and "fl (bk_capacity b) = bk_capacity b" and "bucket_ok b"
    and "bk_updated b \<le> now" and "0 \<le> a" and "try_acquire fl a now b = (b', r)"
  shows "bucket_ok b'"
proof -
  let ?b = "refill fl now b"
  have ok: "bucket_ok ?b" by (rule refill_ok [OF assms(1,3,4)])
  have "fl (bk_tokens ?b - a) \<le> bk_capacity b" if "a \<le> bk_tokens ?b"
  proof -
    have "bk_tokens ?b - a \<le> bk_capacity b" using ok assms(5) by (simp add: bucket_ok_def)
    then have "fl (bk_tokens ?b - a) \<le> fl (bk_capacity b)"
      using assms(1) by (simp add: rounding_def monoD)
    then show ?thesis by (simp only: assms(2))
  qed
  moreover have "0 \<le> fl (bk_tokens ?b - a)" if "a \<le> bk_tokens ?b"
    using that by (intro rounding_nonneg [OF assms(1)]) simp
  ultimately show ?thesis using assms(6) ok
    by (cases "a \<le> bk_tokens ?b") (auto simp: try_acquire_def Let_def bucket_ok_def)
qed

section \<open>The interface of a rate gate\<close>

text \<open>What the dispatcher relies on: a gate has a level, refills at a rate up to a capacity,
  and a granted pass pays from the level.\<close>

locale rate_gate =
  fixes pass :: "rat \<Rightarrow> rat \<Rightarrow> 'b \<Rightarrow> 'b \<times> rat option"
    and gate_ok :: "'b \<Rightarrow> bool"
    and level cap flow clock :: "'b \<Rightarrow> rat"
  assumes level_bounds: "gate_ok b \<Longrightarrow> 0 \<le> level b \<and> level b \<le> cap b \<and> 0 \<le> flow b"
    and pass_ok: "gate_ok b \<Longrightarrow> clock b \<le> now \<Longrightarrow> 0 \<le> a \<Longrightarrow> pass a now b = (b', r) \<Longrightarrow>
      gate_ok b' \<and> clock b' = now \<and> flow b' = flow b \<and> cap b' = cap b"
    and pass_pays: "gate_ok b \<Longrightarrow> clock b \<le> now \<Longrightarrow> 0 \<le> a \<Longrightarrow> pass a now b = (b', r) \<Longrightarrow>
      level b' + (if r = None then a else 0) \<le> level b + flow b * (now - clock b)"
begin

lemma passes_bound:
  "run_passes pass ps b = (b', gs) \<Longrightarrow> gate_ok b \<Longrightarrow> sorted (clock b # map fst ps) \<Longrightarrow>
     \<forall>p \<in> set ps. 0 \<le> snd p \<Longrightarrow>
     gate_ok b' \<and> level b' + sum_list gs \<le> level b + flow b * (clock b' - clock b)"
proof (induction ps arbitrary: b b' gs)
  case (Cons p ps)
  obtain now a where na: "p = (now, a)" by (cases p)
  note prems = Cons.prems [unfolded na]
  obtain c r where c: "pass a now b = (c, r)" by (cases "pass a now b")
  have o: "gate_ok c" "clock c = now" "flow c = flow b"
    using pass_ok [OF prems(2) _ _ c] prems(3,4) by auto
  have pay: "level c + (if r = None then a else 0) \<le> level b + flow b * (now - clock b)"
    using pass_pays [OF prems(2) _ _ c] prems(3,4) by auto
  obtain gs' where gs': "run_passes pass ps c = (b', gs')" "gs = (if r = None then a # gs' else gs')"
    using prems(1) c by (cases r) (auto split: prod.splits)
  have "gate_ok b' \<and> level b' + sum_list gs' \<le> level c + flow c * (clock b' - clock c)"
    by (rule Cons.IH [OF gs'(1) o(1)]) (use o(2) prems(3,4) in auto)
  then show ?case using pay gs'(2) o by (auto simp: algebra_simps split: if_splits)
qed auto

text \<open>In any window that starts with some pass, what is granted is at most a full bucket
  plus the refill of the window.\<close>

lemma window_bound:
  assumes "run_passes pass ps b = (b', gs)" and "gate_ok b" and "sorted (clock b # map fst ps)"
    and "\<forall>p \<in> set ps. 0 \<le> snd p"
  shows "sum_list gs \<le> cap b + flow b * (clock b' - clock b)"
  using passes_bound [OF assms] level_bounds [OF assms(2)] level_bounds [of b'] by simp

end


section \<open>The token bucket as a rate gate\<close>

text \<open>Exact arithmetic as a rounding.\<close>

definition exact :: "rat \<Rightarrow> rat" where
  [simp]: "exact r = r"

lemma rounding_exact [simp]: "rounding exact"
  by (simp add: rounding_def mono_def)

definition bucket_flow :: "bucket \<Rightarrow> rat" where
  "bucket_flow b = bk_rate b / bk_per b"

lemma refill_exact:
  "bk_tokens (refill exact now b) =
     min (bk_capacity b) (bk_tokens b + (now - bk_updated b) * bucket_flow b)"
  by (simp add: refill_def Let_def bucket_flow_def)

interpretation gate: rate_gate "try_acquire exact" bucket_ok bk_tokens bk_capacity bucket_flow bk_updated
proof unfold_locales
  show "bucket_ok b \<Longrightarrow> 0 \<le> bk_tokens b \<and> bk_tokens b \<le> bk_capacity b \<and> 0 \<le> bucket_flow b" for b
    by (simp add: bucket_ok_def bucket_flow_def)
next
  fix b b' :: bucket and now a :: rat and r
  assume b: "bucket_ok b" and now: "bk_updated b \<le> now" and a: "0 \<le> a"
    and t: "try_acquire exact a now b = (b', r)"
  show "bucket_ok b' \<and> bk_updated b' = now \<and> bucket_flow b' = bucket_flow b
      \<and> bk_capacity b' = bk_capacity b"
    using try_acquire_ok [OF rounding_exact _ b now a t] try_acquire_frame [OF t]
    by (simp add: bucket_flow_def)
  show "bk_tokens b' + (if r = None then a else 0) \<le>
      bk_tokens b + bucket_flow b * (now - bk_updated b)"
    using t refill_exact [of now b]
    by (auto simp: try_acquire_def Let_def mult.commute split: if_splits)
qed

text \<open>A rounding with a relative error: zero for exact arithmetic, and \<open>2 ^ -53\<close> for the floats of
  Python as long as nothing overflows or underflows.\<close>

definition accurate :: "rat \<Rightarrow> (rat \<Rightarrow> rat) \<Rightarrow> bool" where
  "accurate err fl \<longleftrightarrow> 0 \<le> err \<and> err < 1 \<and> (\<forall>x. \<bar>fl x - x\<bar> \<le> err * \<bar>x\<bar>)"

lemma accurate_exact: "accurate 0 exact"
  by (simp add: accurate_def)

lemma accurate_nonneg:
  assumes "accurate err fl" and "0 \<le> x"
  shows "(1 - err) * x \<le> fl x" "fl x \<le> (1 + err) * x"
proof -
  have "\<bar>fl x - x\<bar> \<le> err * x" using assms by (metis abs_of_nonneg accurate_def)
  then show "(1 - err) * x \<le> fl x" "fl x \<le> (1 + err) * x" by (simp_all add: algebra_simps abs_le_iff)
qed

lemma accurate_mult:
  assumes fl: "accurate err fl" and x: "0 \<le> x" and y: "0 \<le> y"
  shows "(1 - err) ^ 3 * (x * y) \<le> fl (fl x * fl y)" "fl (fl x * fl y) \<le> (1 + err) ^ 3 * (x * y)"
proof -
  have e: "0 \<le> 1 - err" "0 \<le> 1 + err" using fl by (simp_all add: accurate_def)
  note bx = accurate_nonneg [OF fl x] and by' = accurate_nonneg [OF fl y]
  have px: "0 \<le> fl x" using bx(1) e(1) x by (meson mult_nonneg_nonneg order_trans)
  have py: "0 \<le> fl y" using by'(1) e(1) y by (meson mult_nonneg_nonneg order_trans)
  note bz = accurate_nonneg [OF fl mult_nonneg_nonneg [OF px py]]
  have "(1 - err) * (((1 - err) * x) * ((1 - err) * y)) \<le> (1 - err) * (fl x * fl y)"
    using bx(1) by'(1) px e x y by (intro mult_left_mono mult_mono) simp_all
  then show "(1 - err) ^ 3 * (x * y) \<le> fl (fl x * fl y)"
    using bz(1) by (simp add: power3_eq_cube algebra_simps)
  have "(1 + err) * (fl x * fl y) \<le> (1 + err) * (((1 + err) * x) * ((1 + err) * y))"
    using bx(2) by'(2) py e x y by (intro mult_left_mono mult_mono) simp_all
  then show "fl (fl x * fl y) \<le> (1 + err) ^ 3 * (x * y)"
    using bz(2) by (simp add: power3_eq_cube algebra_simps)
qed

lemma accurate_pos: "accurate err fl \<Longrightarrow> 0 < x \<Longrightarrow> 0 < fl x"
  by (rule less_le_trans [OF _ accurate_nonneg(1)]) (simp_all add: accurate_def)

text \<open>When a request that is not served at one pass is served at the next one, if no other pass
  comes in between. Floats can miss the end of the wait by their rounding: with 49 requests per
  second, \<open>49 * (1 / 49)\<close> is less than one, and the loop of \<open>acquire\<close> sleeps once more.\<close>

lemma wait_accurate:
  assumes fl: "rounding fl" "accurate err fl" and b: "bucket_ok b" "bk_updated b \<le> now"
    and a: "fl a = a" "a \<le> bk_capacity b"
    and t: "try_acquire fl a now b = (b', Some w)" and l: "now \<le> later"
  shows "0 < w" "w \<le> (1 - err) ^ 6 * (later - now) \<Longrightarrow> snd (try_acquire fl a later b') = None"
    "snd (try_acquire fl a later b') = None \<Longrightarrow>
       w \<le> (1 + err) ^ 7 * (later - now) + (1 + err) ^ 3 * (err * a * bk_per b / bk_rate b)"
proof -
  define f g d el where "f = bk_rate b / bk_per b" and "g = bk_per b / bk_rate b"
    and "d = a - bk_tokens b'" and "el = later - now"
  have b': "b' = refill fl now b" "bk_tokens b' < a" "w = fl (fl d * fl g)"
    using t by (auto simp: try_acquire_def Let_def d_def g_def split: if_splits)
  have pos: "0 < f" "0 < g" "f * g = 1" "0 < d" "0 \<le> el"
    using b(1) b'(2) l by (simp_all add: bucket_ok_def f_def g_def d_def el_def)
  have tok: "0 \<le> bk_tokens b'" using refill_ok [OF fl(1) b] by (simp add: b'(1) bucket_ok_def)
  have err: "0 \<le> err" "err < 1" using fl(2) by (simp_all add: accurate_def)
  show "0 < w" using pos accurate_pos [OF fl(2)] by (simp add: b'(3))
  define y where "y = fl (fl el * fl f)"
  have fr: "bk_capacity b' = bk_capacity b" "bk_updated b' = now" "bk_rate b' / bk_per b' = f"
    using try_acquire_frame [OF t] by (simp_all add: f_def)
  have served: "snd (try_acquire fl a later b') = None \<longleftrightarrow> a \<le> fl (bk_tokens b' + y)"
    using a(2) by (auto simp: try_acquire_def refill_def Let_def fr y_def el_def)
  have w: "(1 - err) ^ 3 * (d * g) \<le> w" "w \<le> (1 + err) ^ 3 * (d * g)"
    using accurate_mult [OF fl(2), of d g] pos by (simp_all add: b'(3))
  have y: "(1 - err) ^ 3 * (el * f) \<le> y" "y \<le> (1 + err) ^ 3 * (el * f)"
    using accurate_mult [OF fl(2), of el f] pos by (simp_all add: y_def)
  show "snd (try_acquire fl a later b') = None" if le: "w \<le> (1 - err) ^ 6 * (later - now)"
  proof -
    have "(1 - err) ^ 3 * (d * g) \<le> (1 - err) ^ 3 * ((1 - err) ^ 3 * el)"
      using w(1) le by (simp add: el_def power_add [symmetric] mult.assoc [symmetric])
    then have "d * g \<le> (1 - err) ^ 3 * el" by (rule mult_left_le_imp_le) (use err(2) in simp)
    then have "d * g * f \<le> (1 - err) ^ 3 * el * f" using pos by (intro mult_right_mono) simp_all
    then have "d \<le> y" using y(1) pos(3) by (simp add: mult.assoc mult.commute [of g f])
    then have "fl a \<le> fl (bk_tokens b' + y)" using fl(1) by (simp add: rounding_def monoD d_def)
    then show ?thesis by (simp add: served a(1))
  qed
  show "w \<le> (1 + err) ^ 7 * (later - now) + (1 + err) ^ 3 * (err * a * bk_per b / bk_rate b)"
    if s: "snd (try_acquire fl a later b') = None"
  proof -
    have regroup: "(x + k * (k ^ 3 * (el * f))) * g = x * g + k ^ 4 * el * (f * g)" for x k :: rat
      by (simp add: algebra_simps power_numeral_reduce)
    have "0 \<le> (1 - err) ^ 3 * (el * f)" using pos err by simp
    then have "0 \<le> y" using y(1) by linarith
    then have "a \<le> (1 + err) * (bk_tokens b' + y)"
      using s served accurate_nonneg(2) [OF fl(2), of "bk_tokens b' + y"] tok by simp
    then have "d \<le> err * bk_tokens b' + (1 + err) * y" by (simp add: d_def algebra_simps)
    also have "\<dots> \<le> err * a + (1 + err) * ((1 + err) ^ 3 * (el * f))"
      using y(2) b'(2) err by (intro add_mono mult_left_mono) simp_all
    finally have "d * g \<le> (err * a + (1 + err) * ((1 + err) ^ 3 * (el * f))) * g"
      using pos by (intro mult_right_mono) simp_all
    also have "\<dots> = err * a * g + (1 + err) ^ 4 * el" by (simp add: regroup pos(3))
    finally have "(1 + err) ^ 3 * (d * g) \<le> (1 + err) ^ 3 * (err * a * g + (1 + err) ^ 4 * el)"
      using err by (intro mult_left_mono) simp_all
    also have "\<dots> = (1 + err) ^ 3 * (err * a * g) + (1 + err) ^ 7 * el"
      by (simp add: distrib_left power_add [symmetric] mult.assoc [symmetric])
    finally show ?thesis using w(2) by (simp add: g_def el_def)
  qed
qed

lemma bucket_for_capacity:
  assumes "bucket_for now rl name = Inr (TokenBucket b)"
  shows "1 \<le> bk_capacity b \<and> bucket_ok b"
proof -
  obtain r where r: "rl = Some r" "init_bucket now (of_int (rl_requests r)) (rl_per r)
      (Some (of_int (rl_requests r))) name = Inr b"
    using assms by (auto simp: bucket_for_def result_simps split: option.splits)
  then have "0 < rl_requests r" "bk_capacity b = of_int (rl_requests r)"
    by (auto simp: init_bucket_def Let_def split: if_splits option.splits)
  then show ?thesis using init_bucket_ok [OF r(2)] by simp
qed

text \<open>The engine acquires one token at a time: a bucket built from a rate limit never rejects
  that.\<close>

lemma acquire_never_raises:
  "bucket_for now rl name = Inr l \<Longrightarrow> is_ok (acquire fl 1 nows l)"
  by (cases l) (auto simp: acquire_def dest!: bucket_for_capacity split: prod.splits)

section \<open>What the engine relies on\<close>

definition demo_limit :: rate_limit where
  "demo_limit = \<lparr>rl_requests = 2, rl_per = Some 1, rl_tokens = JNull, rl_per_tokens = None\<rparr>"

definition demo_bucket :: bucket where
  "demo_bucket = \<lparr>bk_rate = 2, bk_per = 1, bk_capacity = 2, bk_tokens = 2, bk_name = ''global'', bk_updated = 0\<rparr>"

lemma demo_bucket: "bucket_for 0 (Some demo_limit) ''global'' = Inr (TokenBucket demo_bucket)"
  by (simp add: bucket_for_def init_bucket_def demo_limit_def demo_bucket_def Let_def)

text \<open>Throughput: whatever tasks compete for the bucket of a rate limit, and in whatever order
  the lock serves them, the granted tokens of a window are at most the burst of
  \<open>requests\<close> tokens plus \<open>requests\<close> tokens for every period that has passed.\<close>

lemma bucket_throughput:
  assumes "bucket_for t0 (Some rl) name = Inr (TokenBucket b)" and "rl_per rl = Some per"
    and "sorted (t0 # map fst ps)" and "list_all (\<lambda>p. 0 \<le> snd p) ps"
    and "run_passes (try_acquire exact) ps b = (b', gs)"
  shows "sum_list gs \<le> of_int (rl_requests rl) * (1 + (bk_updated b' - t0) / per)"
proof -
  have b: "bk_updated b = t0" "bk_capacity b = of_int (rl_requests rl)" "bk_rate b = of_int (rl_requests rl)" "bk_per b = per"
    using assms(1,2) by (auto simp: bucket_for_def init_bucket_def result_simps Let_def split: if_splits)
  have ok: "bucket_ok b" using bucket_for_capacity [OF assms(1)] by simp
  have "sum_list gs \<le> bk_capacity b + bucket_flow b * (bk_updated b' - bk_updated b)"
    by (rule gate.window_bound [OF assms(5) ok]) (use assms(3,4) b(1) in \<open>auto simp: list_all_iff\<close>)
  also have "\<dots> = of_int (rl_requests rl) * (1 + (bk_updated b' - t0) / per)"
    by (simp add: b bucket_flow_def algebra_simps)
  finally show ?thesis .
qed

lemma run_passes_ok:
  "run_passes (try_acquire fl) ps b = (b', gs) \<Longrightarrow> rounding fl \<Longrightarrow> fl (bk_capacity b) = bk_capacity b \<Longrightarrow>
     bucket_ok b \<Longrightarrow> sorted (bk_updated b # map fst ps) \<Longrightarrow> list_all (\<lambda>p. 0 \<le> snd p) ps \<Longrightarrow>
     bucket_ok b' \<and> bk_capacity b' = bk_capacity b"
proof (induction ps arbitrary: b gs)
  case (Cons p ps)
  obtain now a where p: "p = (now, a)" by (cases p)
  obtain c r where c: "try_acquire fl a now b = (c, r)" by (cases "try_acquire fl a now b")
  have "bucket_ok c"
    using Cons.prems p by (intro try_acquire_ok [OF Cons.prems(2,3,4) _ _ c]) auto
  moreover note try_acquire_frame [OF c]
  moreover obtain gs' where "run_passes (try_acquire fl) ps c = (b', gs')"
    using Cons.prems(1) p c by (cases r) (auto split: prod.splits)
  ultimately show ?case using Cons.IH [of c gs'] Cons.prems p by auto
qed simp

text \<open>C20. The tokens of a bucket stay between zero and its capacity under every monotone rounding
  that keeps zero and the capacity, through any sequence of passes.\<close>

theorem bucket_bounds:
  assumes "bucket_for t0 (Some rl) name = Inr (TokenBucket b)" and "rounding fl"
    and "fl (of_int (rl_requests rl)) = of_int (rl_requests rl)"
    and "sorted (t0 # map fst ps)" and "list_all (\<lambda>p. 0 \<le> snd p) ps"
    and "run_passes (try_acquire fl) ps b = (b', gs)"
  shows "0 \<le> bk_tokens b' \<and> bk_tokens b' \<le> of_int (rl_requests rl)"
proof -
  have b: "bk_updated b = t0" "bk_capacity b = of_int (rl_requests rl)"
    using assms(1) by (auto simp: bucket_for_def init_bucket_def result_simps Let_def split: if_splits option.splits)
  have "bucket_ok b" using bucket_for_capacity [OF assms(1)] by simp
  then have "bucket_ok b' \<and> bk_capacity b' = bk_capacity b"
    using run_passes_ok [OF assms(6,2)] assms(3-5) b by simp
  then show ?thesis by (simp add: bucket_ok_def b(2))
qed

theorem bucket_bounds_witness:
  "\<exists>b' gs. run_passes (try_acquire exact) [(0, 1), (3, 1)] demo_bucket = (b', gs) \<and> bk_tokens b' \<le> 2"
proof -
  obtain b' gs where r: "run_passes (try_acquire exact) [(0, 1), (3, 1)] demo_bucket = (b', gs)"
    by (metis surj_pair)
  from bucket_bounds [OF demo_bucket rounding_exact _ _ _ r] show ?thesis
    using r by (auto simp: demo_limit_def)
qed

text \<open>C21. The computed wait fits, for every monotone rounding with a bounded relative error (the floats
  of Python without overflow and underflow, exact arithmetic with error zero): a task alone on the
  bucket, whose amount the rounding keeps and that cannot be served, sleeps for a positive time. A pass
  after the wait prolonged by six rounding errors grants the tokens, and one that grants them comes
  not before the wait shortened by seven rounding errors and by the time in which the rounding error of
  the amount flows in. So in exact arithmetic the tokens are granted exactly from the end of the
  wait on.\<close>

theorem wait_exact:
  assumes "rounding fl" and "accurate err fl" and "bucket_ok b" and "bk_updated b \<le> now"
    and "fl a = a" and "a \<le> bk_capacity b"
    and "try_acquire fl a now b = (b', Some w)" and "now \<le> later"
  shows "0 < w \<and> (\<exists>b'' ws granted. acquire fl a [now, later] (TokenBucket b) = Inr (TokenBucket b'', w # ws, granted)
    \<and> (w \<le> (1 - err) ^ 6 * (later - now) \<longrightarrow> granted)
    \<and> (granted \<longrightarrow> w \<le> (1 + err) ^ 7 * (later - now) + (1 + err) ^ 3 * (err * a * bk_per b / bk_rate b))
    \<and> (err = 0 \<longrightarrow> granted = (now + w \<le> later)))"
proof -
  note g = wait_accurate [OF assms]
  have z: "err = 0 \<Longrightarrow> snd (try_acquire fl a later b') = None \<longleftrightarrow> now + w \<le> later"
    using g(2,3) by auto
  show ?thesis
  proof (cases "try_acquire fl a later b'")
    case (Pair c r)
    then show ?thesis using g z assms(6,7) by (cases r) (auto simp: acquire_def)
  qed
qed

theorem wait_exact_witness:
  "\<exists>b'' ws. acquire exact 1 [0, 1/2] (TokenBucket (demo_bucket\<lparr>bk_tokens := 0\<rparr>)) = Inr (TokenBucket b'', (1/2) # ws, True)"
proof -
  let ?b = "demo_bucket\<lparr>bk_tokens := 0\<rparr>"
  have "bucket_ok ?b" "1 \<le> bk_capacity ?b" "bk_updated ?b \<le> 0" by (simp_all add: bucket_ok_def demo_bucket_def)
  moreover have "try_acquire exact 1 0 ?b = (?b, Some (1/2))"
    by (simp add: try_acquire_def refill_def demo_bucket_def Let_def)
  ultimately show ?thesis
    using wait_exact [OF rounding_exact accurate_exact, of ?b 0 1 ?b "1/2" "1/2"] by auto
qed

end
