(* ===== verification/Json_Text.thy ===== *)
theory Json_Text
  imports Py_Values
begin

text \<open>
  \<open>json.loads\<close>, which \<open>Workflow.from_json\<close> and the subprocess engine read documents with, as
  a recursive-descent parser. The recursion is bounded by fuel; twice the length of the text
  is always enough (\<open>loads_ends\<close>). A code point above 255, a NaN and an infinity are
  outside the value model and end in \<open>Ill_typed\<close>. The limits of Python on the nesting depth and
  on the digits of an integer are not modelled.
\<close>

section \<open>Parsers\<close>

datatype 'a parsed = Parsed 'a string | Rejected py_error | OutOfFuel

fun pbind :: "'a parsed \<Rightarrow> ('a \<Rightarrow> string \<Rightarrow> 'b parsed) \<Rightarrow> 'b parsed" where
  "pbind (Parsed x s) f = f x s"
| "pbind (Rejected e) f = Rejected e"
| "pbind OutOfFuel f = OutOfFuel"

definition decode_error :: py_error where
  "decode_error = JSONDecodeError"

lemma pbind_cong [fundef_cong]:
  "r = r' \<Longrightarrow> (\<And>x s. r' = Parsed x s \<Longrightarrow> f x s = g x s) \<Longrightarrow> pbind r f = pbind r' g"
  by (cases r') auto

definition json_space :: "char \<Rightarrow> bool" where
  "json_space c \<longleftrightarrow> code c \<in> {9, 10, 13, 32}"

definition skip_ws :: "string \<Rightarrow> string" where
  "skip_ws s = dropWhile json_space s"

section \<open>Strings\<close>

fun hex_val :: "char \<Rightarrow> nat option" where
  "hex_val c =
     (let n = code c in
      if 48 \<le> n \<and> n \<le> 57 then Some (n - 48)
      else if 97 \<le> n \<and> n \<le> 102 then Some (n - 87)
      else if 65 \<le> n \<and> n \<le> 70 then Some (n - 55)
      else None)"

declare hex_val.simps [simp del]

definition hex4 :: "char \<Rightarrow> char \<Rightarrow> char \<Rightarrow> char \<Rightarrow> nat option" where
  "hex4 a b c d =
     (case (hex_val a, hex_val b, hex_val c, hex_val d) of
        (Some i, Some j, Some k, Some l) \<Rightarrow> Some (4096 * i + 256 * j + 16 * k + l)
      | _ \<Rightarrow> None)"

definition unescape :: "nat \<Rightarrow> char option" where
  "unescape n =
     (if n = 34 \<or> n = 92 \<or> n = 47 then Some (char_of n)
      else if n = 98 then Some (char_of (8::nat))
      else if n = 102 then Some (char_of (12::nat))
      else if n = 110 then Some (char_of (10::nat))
      else if n = 114 then Some (char_of (13::nat))
      else if n = 116 then Some (char_of (9::nat))
      else None)"

text \<open>The rest of a string literal after its opening quote.\<close>

fun p_string :: "string \<Rightarrow> string parsed" where
  "p_string [] = Rejected decode_error"
| "p_string (c # cs) =
     (if code c = 34 then Parsed [] cs
      else if code c = 92 then
        (case cs of
           [] \<Rightarrow> Rejected decode_error
         | e # r \<Rightarrow>
             if code e = 117 then
               (case r of
                  h1 # h2 # h3 # h4 # r' \<Rightarrow>
                    (case hex4 h1 h2 h3 h4 of
                       None \<Rightarrow> Rejected decode_error
                     | Some n \<Rightarrow> if n < 256
                                 then pbind (p_string r') (\<lambda>s. Parsed (char_of n # s))
                                 else Rejected (Ill_typed ''code point''))
                | _ \<Rightarrow> Rejected decode_error)
             else (case unescape (code e) of
                     None \<Rightarrow> Rejected decode_error
                   | Some x \<Rightarrow> pbind (p_string r) (\<lambda>s. Parsed (x # s))))
      else if code c < 32 then Rejected decode_error
      else pbind (p_string cs) (\<lambda>s. Parsed (c # s)))"

declare p_string.simps [simp del]

section \<open>Numbers\<close>

text \<open>\<open>(-?(?:0|[1-9]\d*))(\.\d+)?([eE][-+]?\d+)?\<close>\<close>

definition digits_prefix :: "string \<Rightarrow> string \<times> string" where
  "digits_prefix s = (takeWhile is_digit s, dropWhile is_digit s)"

definition int_part :: "string \<Rightarrow> (string \<times> string) option" where
  "int_part s =
     (case s of
        [] \<Rightarrow> None
      | c # cs \<Rightarrow> if code c = 48 then Some ([c], cs)
                  else if is_digit c then Some (digits_prefix s) else None)"

definition frac_part :: "string \<Rightarrow> (string \<times> string) option" where
  "frac_part s =
     (case s of
        c # d # cs \<Rightarrow> if code c = 46 \<and> is_digit d then Some (digits_prefix (d # cs)) else None
      | _ \<Rightarrow> None)"

text \<open>Whether the exponent is negative, its digits, the rest.\<close>

definition exp_part :: "string \<Rightarrow> (bool \<times> string \<times> string) option" where
  "exp_part s =
     (case s of
        e # c # cs \<Rightarrow>
          if code e = 101 \<or> code e = 69 then
            if is_digit c then Some (False, digits_prefix (c # cs))
            else if code c = 43 \<or> code c = 45 then
              (case cs of
                 d # ds \<Rightarrow> if is_digit d then Some (code c = 45, digits_prefix cs) else None
               | [] \<Rightarrow> None)
            else None
          else None
      | _ \<Rightarrow> None)"

definition decimal_value :: "bool \<Rightarrow> string \<Rightarrow> string \<Rightarrow> (bool \<times> string) option \<Rightarrow> rat" where
  "decimal_value neg ds fs ex =
     (let m = of_nat (nat_of_digits 0 (ds @ fs)) / 10 ^ length fs;
          v = (case ex of
                 None \<Rightarrow> m
               | Some (eneg, es) \<Rightarrow> if eneg then m / 10 ^ nat_of_digits 0 es else m * 10 ^ nat_of_digits 0 es)
      in if neg then - v else v)"

definition p_number :: "(rat \<Rightarrow> rat) \<Rightarrow> string \<Rightarrow> json parsed" where
  "p_number fl s =
     (let (neg, t) = (case s of c # cs \<Rightarrow> if code c = 45 then (True, cs) else (False, s) | [] \<Rightarrow> (False, s))
      in case int_part t of
           None \<Rightarrow> Rejected (if is_prefix ''Infinity'' t \<or> s = t \<and> is_prefix ''NaN'' t
                            then Ill_typed ''float'' else decode_error)
         | Some (ds, r) \<Rightarrow>
             (let n = int (nat_of_digits 0 ds);
                  (fs, r') = (case frac_part r of None \<Rightarrow> ([], r) | Some p \<Rightarrow> p)
              in case exp_part r' of
                   None \<Rightarrow> if frac_part r = None then Parsed (JInt (if neg then - n else n)) r
                            else Parsed (JFloat (fl (decimal_value neg ds fs None))) r'
                 | Some (eneg, es, r'') \<Rightarrow> Parsed (JFloat (fl (decimal_value neg ds fs (Some (eneg, es))))) r''))"

section \<open>Values\<close>

fun p_value :: "(rat \<Rightarrow> rat) \<Rightarrow> nat \<Rightarrow> string \<Rightarrow> json parsed"
  and p_elems :: "(rat \<Rightarrow> rat) \<Rightarrow> nat \<Rightarrow> string \<Rightarrow> json list parsed"
  and p_members :: "(rat \<Rightarrow> rat) \<Rightarrow> nat \<Rightarrow> string \<Rightarrow> (string \<times> json) list parsed" where
  "p_value fl 0 s = OutOfFuel"
| "p_value fl (Suc n) s =
     (case s of
        [] \<Rightarrow> Rejected decode_error
      | c # cs \<Rightarrow>
          if code c = 34 then pbind (p_string cs) (\<lambda>x. Parsed (JStr x))
          else if code c = 123 then
            (case skip_ws cs of
               [] \<Rightarrow> Rejected decode_error
             | d # ds \<Rightarrow> if code d = 125 then Parsed (JObj []) ds
                         else pbind (p_members fl n (d # ds)) (\<lambda>kvs. Parsed (JObj (dict_of kvs))))
          else if code c = 91 then
            (case skip_ws cs of
               [] \<Rightarrow> Rejected decode_error
             | d # ds \<Rightarrow> if code d = 93 then Parsed (JArr []) ds
                         else pbind (p_elems fl n (d # ds)) (\<lambda>xs. Parsed (JArr xs)))
          else if is_prefix ''null'' s then Parsed JNull (drop 4 s)
          else if is_prefix ''true'' s then Parsed (JBool True) (drop 4 s)
          else if is_prefix ''false'' s then Parsed (JBool False) (drop 5 s)
          else p_number fl s)"
| "p_elems fl 0 s = OutOfFuel"
| "p_elems fl (Suc n) s =
     pbind (p_value fl n s) (\<lambda>x r.
     case skip_ws r of
       [] \<Rightarrow> Rejected decode_error
     | d # ds \<Rightarrow> if code d = 93 then Parsed [x] ds
                 else if code d = 44 then pbind (p_elems fl n (skip_ws ds)) (\<lambda>xs. Parsed (x # xs))
                 else Rejected decode_error)"
| "p_members fl 0 s = OutOfFuel"
| "p_members fl (Suc n) s =
     (case s of
        [] \<Rightarrow> Rejected decode_error
      | c # cs \<Rightarrow>
          if code c \<noteq> 34 then Rejected decode_error
          else pbind (p_string cs) (\<lambda>k r.
            case skip_ws r of
              [] \<Rightarrow> Rejected decode_error
            | d # ds \<Rightarrow>
                if code d \<noteq> 58 then Rejected decode_error
                else pbind (p_value fl n (skip_ws ds)) (\<lambda>v r'.
                  case skip_ws r' of
                    [] \<Rightarrow> Rejected decode_error
                  | e # es \<Rightarrow>
                      if code e = 125 then Parsed [(k, v)] es
                      else if code e = 44 then pbind (p_members fl n (skip_ws es)) (\<lambda>kvs. Parsed ((k, v) # kvs))
                      else Rejected decode_error)))"

definition json_loads :: "(rat \<Rightarrow> rat) \<Rightarrow> string \<Rightarrow> json res" where
  "json_loads fl s =
     (case p_value fl (Suc (2 * length s)) (skip_ws s) of
        Parsed v r \<Rightarrow> if skip_ws r = [] then Inr v else Inl decode_error
      | Rejected e \<Rightarrow> Inl e
      | OutOfFuel \<Rightarrow> Inl (RuntimeError ''maximum recursion depth exceeded''))"

section \<open>Enough fuel\<close>

text \<open>The only errors of the reader.\<close>

definition parse_error :: "py_error \<Rightarrow> bool" where
  "parse_error e \<longleftrightarrow> e = decode_error \<or> (\<exists>f. e = Ill_typed f)"

lemma parse_error_simps [simp]: "parse_error decode_error" "parse_error (Ill_typed f)"
  by (simp_all add: parse_error_def)

text \<open>A parser that does not run out of fuel and leaves a text shorter than \<open>n\<close>.\<close>

fun consumes :: "'a parsed \<Rightarrow> nat \<Rightarrow> bool" where
  "consumes (Parsed x r) n = (length r < n)"
| "consumes (Rejected e) n = parse_error e"
| "consumes OutOfFuel n = False"

lemma consumes_bind:
  "consumes p m \<Longrightarrow> (\<And>x r. length r < m \<Longrightarrow> consumes (f x r) n) \<Longrightarrow> consumes (pbind p f) n"
  by (cases p) auto

lemma consumes_mono: "consumes p m \<Longrightarrow> m \<le> n \<Longrightarrow> consumes p n"
  by (cases p) auto

lemma consumes_step: "consumes p m \<Longrightarrow> m \<le> n \<Longrightarrow> consumes (pbind p (\<lambda>x. Parsed (f x))) n"
  by (cases p) auto

lemma skip_ws_length: "length (skip_ws s) \<le> length s"
  by (simp add: skip_ws_def length_dropWhile_le)

lemma skip_ws_Cons_length: "skip_ws s = c # cs \<Longrightarrow> length cs < length s"
  using skip_ws_length [of s] by simp

lemma p_string_consumes: "consumes (p_string s) (length s)"
proof (induction s rule: p_string.induct)
  case (2 c cs)
  have plain: "consumes (pbind (p_string cs) (\<lambda>s. Parsed (c # s))) (length (c # cs))"
    if "code c \<noteq> 34" "code c \<noteq> 92" "\<not> code c < 32"
    by (rule consumes_step [OF "2.IH"(3)]) (use that in simp_all)
  have esc: "consumes (pbind (p_string r) (\<lambda>s. Parsed (x # s))) (length (c # cs))"
    if "code c \<noteq> 34" "code c = 92" "cs = e # r" "code e \<noteq> 117" "unescape (code e) = Some x" for e r x
    by (rule consumes_step [OF "2.IH"(2)]) (use that in simp_all)
  have uni: "consumes (pbind (p_string r) (\<lambda>s. Parsed (char_of n # s))) (length (c # cs))"
    if "code c \<noteq> 34" "code c = 92" "cs = e # h1 # h2 # h3 # h4 # r" "code e = 117"
      "hex4 h1 h2 h3 h4 = Some n" "n < 256" for e h1 h2 h3 h4 r n
    by (rule consumes_step [OF "2.IH"(1)]) (use that in \<open>simp_all\<close>)
  show ?case
    unfolding p_string.simps(2) using plain esc uni
    by (auto simp del: p_string.simps split: list.split option.split)
qed (simp add: p_string.simps)

lemma digits_prefix_length: "length (snd (digits_prefix s)) \<le> length s"
  by (simp add: digits_prefix_def length_dropWhile_le)

lemma int_part_length: "int_part s = Some (ds, r) \<Longrightarrow> length r < length s"
  by (auto simp: int_part_def digits_prefix_def length_dropWhile_le le_imp_less_Suc
      split: list.splits if_splits)

lemma frac_part_length: "frac_part s = Some (ds, r) \<Longrightarrow> length r \<le> length s"
  using digits_prefix_length [of "tl s"] by (auto simp: frac_part_def split: list.splits if_splits)

lemma exp_part_length: "exp_part s = Some (b, ds, r) \<Longrightarrow> length r \<le> length s"
  using digits_prefix_length [of "tl s"] digits_prefix_length [of "tl (tl s)"]
  by (auto simp: exp_part_def split: list.splits if_splits)

lemma p_number_consumes: "consumes (p_number fl s) (length s)"
proof -
  obtain neg t where t: "(case s of c # cs \<Rightarrow> if code c = 45 then (True, cs) else (False, s) | [] \<Rightarrow> (False, s)) = (neg, t)"
    by fastforce
  then have l: "length t \<le> length s" by (auto split: list.splits if_splits)
  show ?thesis
  proof (cases "int_part t")
    case (Some p)
    obtain ds r where p: "p = (ds, r)" by (cases p)
    have r: "length r < length s" using int_part_length [of t ds r] Some p l by simp
    obtain fs r' where f: "(case frac_part r of None \<Rightarrow> ([], r) | Some p \<Rightarrow> p) = (fs, r')"
      by fastforce
    then have r': "length r' \<le> length r" using frac_part_length [of r] by (auto split: option.splits)
    show ?thesis using r r' exp_part_length [of r']
      by (auto simp: p_number_def t Some p f Let_def split: option.split)
  qed (simp add: p_number_def t)
qed

lemma consumes_case:
  "(\<And>d ds. skip_ws r = d # ds \<Longrightarrow> length ds < length r \<Longrightarrow> consumes (f d ds) n) \<Longrightarrow>
     consumes (case skip_ws r of [] \<Rightarrow> Rejected decode_error | d # ds \<Rightarrow> f d ds) n"
  using skip_ws_Cons_length [of r] by (auto split: list.split)

lemma consumes_if:
  "(b \<Longrightarrow> consumes p n) \<Longrightarrow> (\<not> b \<Longrightarrow> consumes q n) \<Longrightarrow> consumes (if b then p else q) n"
  by simp

text \<open>One step of each parser, when the parsers with less fuel are well behaved.\<close>

lemma p_value_step:
  assumes elems: "\<And>s. 2 * length s + 1 < n \<Longrightarrow> consumes (p_elems fl n s) (length s)"
    and members: "\<And>s. 2 * length s + 1 < n \<Longrightarrow> consumes (p_members fl n s) (length s)"
    and l: "2 * length s < Suc n"
  shows "consumes (p_value fl (Suc n) s) (length s)"
proof (cases s)
  case (Cons c cs)
  have len: "length (d # ds) < length s \<and> 2 * length (d # ds) + 1 < n" if "skip_ws cs = d # ds" for d ds
    using skip_ws_length [of cs] that l Cons by simp
  have e: "consumes (pbind (p_elems fl n (d # ds)) (\<lambda>xs. Parsed (JArr xs))) (length s)"
    if "skip_ws cs = d # ds" for d ds
    by (rule consumes_step [OF elems]) (use len [OF that] in simp_all)
  have m: "consumes (pbind (p_members fl n (d # ds)) (\<lambda>kvs. Parsed (JObj (dict_of kvs)))) (length s)"
    if "skip_ws cs = d # ds" for d ds
    by (rule consumes_step [OF members]) (use len [OF that] in simp_all)
  have st: "consumes (pbind (p_string cs) (\<lambda>x. Parsed (JStr x))) (length s)"
    by (rule consumes_step [OF p_string_consumes]) (simp add: Cons)
  show ?thesis
    using p_number_consumes [of fl s] e m st skip_ws_Cons_length [of cs] unfolding Cons p_value.simps list.case
    by (intro consumes_if) (simp_all add: less_SucI split: list.split)
qed simp

lemma p_elems_step:
  assumes val: "\<And>s. 2 * length s < n \<Longrightarrow> consumes (p_value fl n s) (length s)"
    and elems: "\<And>s. 2 * length s + 1 < n \<Longrightarrow> consumes (p_elems fl n s) (length s)"
    and l: "2 * length s + 1 < Suc n"
  shows "consumes (p_elems fl (Suc n) s) (length s)"
  unfolding p_elems.simps
proof (rule consumes_bind [OF val], use l in simp, rule consumes_case, intro consumes_if)
  fix x r d and ds :: string
  assume r: "length r < length s" "length ds < length r"
  show "consumes (pbind (p_elems fl n (skip_ws ds)) (\<lambda>xs. Parsed (x # xs))) (length s)"
    by (rule consumes_step [OF elems]) (use skip_ws_length [of ds] r l in simp_all)
  show "consumes (Parsed [x] ds) (length s)" using r by simp
qed simp_all

lemma p_members_step:
  assumes val: "\<And>s. 2 * length s < n \<Longrightarrow> consumes (p_value fl n s) (length s)"
    and members: "\<And>s. 2 * length s + 1 < n \<Longrightarrow> consumes (p_members fl n s) (length s)"
    and l: "2 * length s + 1 < Suc n"
  shows "consumes (p_members fl (Suc n) s) (length s)"
proof (cases s)
  case (Cons c cs)
  have "consumes (pbind (p_string cs) (\<lambda>k r. case skip_ws r of [] \<Rightarrow> Rejected decode_error
        | d # ds \<Rightarrow> if code d \<noteq> 58 then Rejected decode_error
          else pbind (p_value fl n (skip_ws ds)) (\<lambda>v r'. case skip_ws r' of [] \<Rightarrow> Rejected decode_error
          | e # es \<Rightarrow> if code e = 125 then Parsed [(k, v)] es
            else if code e = 44 then pbind (p_members fl n (skip_ws es)) (\<lambda>kvs. Parsed ((k, v) # kvs))
            else Rejected decode_error))) (length s)"
  proof (rule consumes_bind [OF p_string_consumes], rule consumes_case, rule consumes_if, simp,
      rule consumes_bind [OF val])
    fix k r d and ds :: string
    assume r: "length r < length cs" "length ds < length r"
    then show "2 * length (skip_ws ds) < n" using skip_ws_length [of ds] l Cons by simp
    fix v and r' :: string
    assume r': "length r' < length (skip_ws ds)"
    show "consumes (case skip_ws r' of [] \<Rightarrow> Rejected decode_error
          | e # es \<Rightarrow> if code e = 125 then Parsed [(k, v)] es
            else if code e = 44 then pbind (p_members fl n (skip_ws es)) (\<lambda>kvs. Parsed ((k, v) # kvs))
            else Rejected decode_error) (length s)"
    proof (rule consumes_case, intro consumes_if)
      fix e and es :: string
      assume "length es < length r'"
      then have len: "length es < length s" "2 * length (skip_ws es) + 1 < n" "length (skip_ws es) \<le> length s"
        using skip_ws_length [of ds] skip_ws_length [of es] r r' l Cons by simp_all
      show "consumes (Parsed [(k, v)] es) (length s)" using len by simp
      show "consumes (pbind (p_members fl n (skip_ws es)) (\<lambda>kvs. Parsed ((k, v) # kvs))) (length s)"
        by (rule consumes_step [OF members]) (use len in simp_all)
    qed simp
  qed
  then show ?thesis by (simp add: Cons)
qed simp

lemma values_consume:
  "(2 * length s < n \<longrightarrow> consumes (p_value fl n s) (length s))
   \<and> (2 * length s + 1 < n \<longrightarrow> consumes (p_elems fl n s) (length s))
   \<and> (2 * length s + 1 < n \<longrightarrow> consumes (p_members fl n s) (length s))"
proof (induction n arbitrary: s)
  case (Suc n)
  then show ?case
    by (intro conjI impI p_value_step p_elems_step p_members_step) blast+
qed simp

lemma loads_errors: "json_loads fl s = Inl e \<Longrightarrow> parse_error e"
  using values_consume [of "skip_ws s" "Suc (2 * length s)" fl] skip_ws_length [of s]
  by (cases "p_value fl (Suc (2 * length s)) (skip_ws s)") (auto simp: json_loads_def split: if_splits)

section \<open>Reading what json.dumps writes\<close>

lemma code_inj: "code c = code d \<Longrightarrow> c = d"
  by (simp add: code_def)

lemma char_of_code [simp]: "char_of (code c) = c"
  by (simp add: code_def)

lemma code_less: "code c < 256"
  by (cases c) (simp add: code_def)

lemma hex_val_digit: "n < 16 \<Longrightarrow> hex_val (hex_digit n) = Some n"
  by (auto simp: hex_val.simps hex_digit_def Let_def)

lemma hex4_escape:
  "n < 256 \<Longrightarrow> hex4 (CHR ''0'') (CHR ''0'') (hex_digit (n div 16)) (hex_digit (n mod 16)) = Some n"
proof -
  assume "n < 256"
  then have "n div 16 < 16" "n mod 16 < 16" by auto
  moreover have "hex_val (CHR ''0'') = Some 0" by (simp add: hex_val.simps code_def)
  ultimately show ?thesis by (simp add: hex4_def hex_val_digit)
qed

text \<open>One escaped character.\<close>

lemma p_string_simple_escape:
  assumes "unescape (code e) = Some x"
  shows "p_string (char_of (92::nat) # e # r) = pbind (p_string r) (\<lambda>s. Parsed (x # s))"
proof -
  have "code e \<noteq> 117" using assms by (auto simp: unescape_def)
  then show ?thesis using assms by (simp add: p_string.simps(2))
qed

lemma code_letters:
  "code (CHR ''\"'') = 34" "code (CHR ''n'') = 110" "code (CHR ''r'') = 114" "code (CHR ''t'') = 116"
  "code (CHR ''f'') = 102" "code (CHR ''b'') = 98"
  by (simp_all add: code_def)

lemma p_string_escape: "p_string (json_escape c @ r) = pbind (p_string r) (\<lambda>s. Parsed (c # s))"
proof -
  consider "code c = 34" | "code c = 92" | "code c = 10" | "code c = 13" | "code c = 9" | "code c = 12" | "code c = 8"
    | "code c \<notin> {34, 92, 10, 13, 9, 12, 8}" "32 \<le> code c \<and> code c \<le> 126"
    | "code c \<notin> {34, 92, 10, 13, 9, 12, 8}" "\<not> (32 \<le> code c \<and> code c \<le> 126)" by auto
  moreover have c: "code c = n \<Longrightarrow> char_of n = c" for n by auto
  ultimately show ?thesis
  proof cases
    case 2
    then show ?thesis using c by (simp add: json_escape_def Let_def p_string.simps(2) unescape_def)
  next
    case 8
    then show ?thesis by (simp add: json_escape_def Let_def p_string.simps(2))
  next
    case 9
    have "p_string (char_of (92::nat) # CHR ''u'' # CHR ''0'' # CHR ''0'' # hex_digit (code c div 16) # hex_digit (code c mod 16) # r)
        = pbind (p_string r) (\<lambda>s. Parsed (c # s))"
      using hex4_escape [OF code_less] code_less [of c] by (simp add: p_string.simps(2) code_def [of "CHR ''u''"])
    then show ?thesis using 9 by (auto simp: json_escape_def Let_def)
  qed (use c in \<open>simp_all add: json_escape_def Let_def p_string_simple_escape unescape_def code_letters\<close>)
qed

lemma p_string_quote:
  "p_string (concat (map json_escape s) @ CHR ''\"'' # r) = Parsed s r"
proof (induction s)
  case Nil
  show ?case by (simp add: p_string.simps(2) code_def)
qed (simp add: p_string_escape)

lemma p_value_quote: "p_value fl (Suc n) (json_quote s @ r) = Parsed (JStr s) r"
  by (simp add: json_quote_def p_string_quote code_def)

text \<open>Integers.\<close>

lemma digits_of_nat_hd: "0 < n \<Longrightarrow> code (hd (digits_of_nat n)) \<noteq> 48"
proof (induction n rule: digits_of_nat.induct)
  case (1 n)
  then show ?case
    by (subst digits_of_nat.simps) (auto simp: hd_append)
qed

lemma digits_of_nat_0: "digits_of_nat 0 = ''0''"
  by code_simp

text \<open>What may follow an integer without becoming a part of it.\<close>

definition stops :: "string \<Rightarrow> bool" where
  "stops r \<longleftrightarrow> (case r of [] \<Rightarrow> True | c # cs \<Rightarrow> \<not> is_digit c \<and> code c \<notin> {46, 101, 69})"

lemma stops_parts:
  assumes "stops r"
  shows "frac_part r = None" "exp_part r = None"
  using assms by (auto simp: stops_def frac_part_def exp_part_def split: list.splits)

lemma int_part_digits:
  assumes "stops r"
  shows "int_part (digits_of_nat n @ r) = Some (digits_of_nat n, r)"
proof (cases "n = 0")
  case True
  then show ?thesis by (simp add: digits_of_nat_0 int_part_def code_def)
next
  case False
  obtain c cs where d: "digits_of_nat n = c # cs" by (cases "digits_of_nat n") auto
  have c: "code c \<noteq> 48" "is_digit c"
    using digits_of_nat_hd [of n] digits_of_nat_digits [of c n] False d by auto
  have all: "x \<in> set (digits_of_nat n) \<Longrightarrow> is_digit x" for x by (rule digits_of_nat_digits)
  have "digits_prefix (digits_of_nat n @ r) = (digits_of_nat n, r)"
    using assms by (cases r) (auto simp: digits_prefix_def all stops_def takeWhile_append dropWhile_append)
  then show ?thesis using c d by (simp add: int_part_def)
qed

lemma p_number_digits:
  assumes "stops r"
  shows "p_number fl (digits_of_nat n @ r) = Parsed (JInt (int n)) r"
    and "p_number fl (CHR ''-'' # digits_of_nat n @ r) = Parsed (JInt (- int n)) r"
proof -
  obtain c cs where d: "digits_of_nat n = c # cs" by (cases "digits_of_nat n") auto
  have c: "code c \<noteq> 45" using digits_of_nat_digits [of c n] d by (auto simp: is_digit_def)
  note ip = int_part_digits [OF assms, of n]
  show "p_number fl (digits_of_nat n @ r) = Parsed (JInt (int n)) r"
    using c d ip stops_parts [OF assms] nat_of_digits_of_nat [of n] by (simp add: p_number_def)
  show "p_number fl (CHR ''-'' # digits_of_nat n @ r) = Parsed (JInt (- int n)) r"
    using ip stops_parts [OF assms] nat_of_digits_of_nat [of n]
    by (simp add: p_number_def code_def [of "CHR ''-''"])
qed

lemma p_number_show: "stops r \<Longrightarrow> p_number fl (show_int i @ r) = Parsed (JInt i) r"
  using p_number_digits [of r] by (simp add: show_int_def)

text \<open>The first character of an integer.\<close>

lemma show_int_Cons:
  obtains c cs where "show_int i = c # cs" "is_digit c \<or> c = CHR ''-''"
proof -
  obtain c cs where d: "digits_of_nat (nat \<bar>i\<bar>) = c # cs" by (cases "digits_of_nat (nat \<bar>i\<bar>)") auto
  have "is_digit c" using digits_of_nat_digits [of c] d by (metis list.set_intros(1))
  then show ?thesis using that d by (cases "i < 0") (auto simp: show_int_def)
qed

lemma p_value_show:
  assumes "stops r"
  shows "p_value fl (Suc n) (show_int i @ r) = Parsed (JInt i) r"
proof -
  obtain c cs where c: "show_int i = c # cs" "is_digit c \<or> c = CHR ''-''" by (rule show_int_Cons)
  then have n: "code c \<notin> {34, 123, 91}" "c \<noteq> CHR ''n''" "c \<noteq> CHR ''t''" "c \<noteq> CHR ''f''"
    by (auto simp: is_digit_def code_def)
  show ?thesis
    using n p_number_show [OF assms, of fl i] by (simp add: c(1))
qed

text \<open>Documents without floats whose objects have distinct keys.\<close>

fun json_clean :: "json \<Rightarrow> bool" where
  "json_clean (JFloat r) = False"
| "json_clean (JArr xs) = list_all json_clean xs"
| "json_clean (JObj kvs) = (distinct (map fst kvs) \<and> list_all (\<lambda>(k, v). json_clean v) kvs)"
| "json_clean _ = True"

lemma skip_ws_gap [simp]: "skip_ws (json_gap ind lv @ s) = skip_ws s"
proof -
  have "dropWhile json_space (replicate k (CHR '' '') @ s) = dropWhile json_space s" for k
    by (induction k) (auto simp: json_space_def code_def)
  then show ?thesis by (auto simp: skip_ws_def json_gap_def json_space_def code_def split: option.split)
qed

lemma skip_ws_Cons [simp]: "\<not> json_space c \<Longrightarrow> skip_ws (c # cs) = c # cs"
  by (simp add: skip_ws_def)

lemma json_space_lits [simp]:
  "\<not> json_space (CHR '','')" "\<not> json_space (CHR '']'')" "\<not> json_space (CHR ''}'')" "\<not> json_space (CHR '':'')"
  "\<not> json_space (CHR ''\"'')" "json_space (CHR '' '')"
  by (simp_all add: json_space_def code_def)

lemma skip_ws_space [simp]: "skip_ws (CHR '' '' # s) = skip_ws s"
  by (simp add: skip_ws_def)

lemma stops_lits [simp]:
  "stops (CHR '','' # s)" "stops (CHR '']'' # s)" "stops (CHR ''}'' # s)" "stops []"
  by (simp_all add: stops_def is_digit_def code_def)

lemma stops_gap [simp]: "stops s \<Longrightarrow> stops (json_gap ind lv @ s)"
  by (simp add: json_gap_def stops_def is_digit_def code_def split: option.split)

lemma stops_sep [simp]: "stops (json_sep ind lv @ s)"
  by (simp add: json_sep_def stops_def is_digit_def code_def split: option.split)

lemma code_brackets [simp]:
  "code (CHR '','') = 44" "code (CHR '']'') = 93" "code (CHR ''}'') = 125" "code (CHR '':'') = 58"
  "code (CHR ''['') = 91" "code (CHR ''{'') = 123" "code (CHR ''\"'') = 34"
  by (simp_all add: code_def)

text \<open>The text of a value starts with a character that is neither blank nor closes a list.\<close>

lemma render_Cons:
  assumes "json_clean v"
  obtains c cs where "json_render fr ind lv v = c # cs" "\<not> json_space c" "code c \<noteq> 93"
proof -
  have "\<exists>c cs. json_render fr ind lv v = c # cs \<and> \<not> json_space c \<and> code c \<noteq> 93"
  proof (cases v)
    case (JInt i)
    obtain c cs where "show_int i = c # cs" "is_digit c \<or> c = CHR ''-''" by (rule show_int_Cons)
    then show ?thesis using JInt by (auto simp: json_space_def is_digit_def code_def)
  qed (use assms in \<open>auto simp: json_space_def json_quote_def code_def\<close>)
  then show ?thesis using that by blast
qed

lemma skip_ws_render: "json_clean v \<Longrightarrow> skip_ws (json_render fr ind lv v @ r) = json_render fr ind lv v @ r"
  by (rule render_Cons [of v fr ind lv]) auto

lemma join_Cons: "ws \<noteq> [] \<Longrightarrow> join sep (w # ws) = w @ sep @ join sep ws"
  by (cases ws) (simp_all add: join_def)

lemma join_single [simp]: "join sep [w] = w"
  by (simp add: join_def)

text \<open>The separator is a comma and blanks.\<close>

lemma json_sep_comma: "\<exists>t. json_sep ind lv = CHR '','' # t \<and> (\<forall>s. skip_ws (t @ s) = skip_ws s)"
proof (cases ind)
  case None
  show ?thesis by (intro exI [of _ "'' ''"]) (simp add: json_sep_def None)
next
  case (Some i)
  show ?thesis by (intro exI [of _ "json_gap ind lv"]) (simp add: json_sep_def Some)
qed

definition reads :: "(rat \<Rightarrow> rat) \<Rightarrow> (rat \<Rightarrow> string) \<Rightarrow> nat option \<Rightarrow> json \<Rightarrow> bool" where
  "reads fl fr ind v \<longleftrightarrow> (\<forall>lv n r. stops r \<longrightarrow> 2 * length (json_render fr ind lv v) < n \<longrightarrow>
     p_value fl n (json_render fr ind lv v @ r) = Parsed v r)"

lemma readsD:
  "reads fl fr ind v \<Longrightarrow> stops r \<Longrightarrow> 2 * length (json_render fr ind lv v) < n \<Longrightarrow>
     p_value fl n (json_render fr ind lv v @ r) = Parsed v r"
  by (simp add: reads_def)

lemma reads_elems:
  assumes "\<And>x. x \<in> set xs \<Longrightarrow> json_clean x \<and> reads fl fr ind x" and "xs \<noteq> []"
    and "2 * length (join (json_sep ind lv') (map (json_render fr ind lv') xs)) + 1 < n"
  shows "p_elems fl n (join (json_sep ind lv') (map (json_render fr ind lv') xs) @ json_gap ind lv @ CHR '']'' # r)
    = Parsed xs r"
  using assms
proof (induction xs arbitrary: n)
  case (Cons x xs)
  obtain m where n: "n = Suc m" using Cons.prems(3) by (cases n) auto
  have x: "json_clean x" "reads fl fr ind x" using Cons.prems(1) by simp_all
  show ?case
  proof (cases "xs = []")
    case True
    then show ?thesis using readsD [OF x(2)] Cons.prems(3) by (simp add: n)
  next
    case False
    obtain t where t: "json_sep ind lv' = CHR '','' # t" "\<forall>s. skip_ws (t @ s) = skip_ws s"
      using json_sep_comma [of ind lv'] by blast
    let ?rest = "join (json_sep ind lv') (map (json_render fr ind lv') xs) @ json_gap ind lv @ CHR '']'' # r"
    have l: "join (json_sep ind lv') (map (json_render fr ind lv') (x # xs))
        = json_render fr ind lv' x @ json_sep ind lv' @ join (json_sep ind lv') (map (json_render fr ind lv') xs)"
      using False by (simp add: join_Cons)
    have ih: "p_elems fl m ?rest = Parsed xs r"
      by (rule Cons.IH) (use Cons.prems False l t(1) in \<open>simp_all add: n\<close>)
    obtain y ys where y: "xs = y # ys" using False by (cases xs) auto
    then have "json_clean y" using Cons.prems(1) by simp
    then have sk: "skip_ws ?rest = ?rest"
      by (cases "ys = []") (simp_all add: y join_Cons skip_ws_render)
    have "p_value fl m (json_render fr ind lv' x @ json_sep ind lv' @ ?rest) = Parsed x (json_sep ind lv' @ ?rest)"
      by (rule readsD [OF x(2)]) (use Cons.prems(3) l in \<open>simp_all add: n\<close>)
    then show ?thesis using ih sk t unfolding n l append_assoc by (simp del: list.map)
  qed
qed simp

abbreviation member_text :: "(rat \<Rightarrow> string) \<Rightarrow> nat option \<Rightarrow> nat \<Rightarrow> string \<times> json \<Rightarrow> string" where
  "member_text fr ind lv \<equiv> (\<lambda>(k, v). json_quote k @ '': '' @ json_render fr ind lv v)"

text \<open>One member: the key, the colon and the value.\<close>

lemma p_members_one:
  assumes "json_clean v" and "reads fl fr ind v" and "stops s"
    and "2 * length (json_render fr ind lv v) < n"
  shows "p_members fl (Suc n) (json_quote k @ '': '' @ json_render fr ind lv v @ s) =
    (case skip_ws s of
       [] \<Rightarrow> Rejected decode_error
     | e # es \<Rightarrow>
         if code e = 125 then Parsed [(k, v)] es
         else if code e = 44 then pbind (p_members fl n (skip_ws es)) (\<lambda>kvs. Parsed ((k, v) # kvs))
         else Rejected decode_error)"
proof -
  have "p_string (concat (map json_escape k) @ CHR ''\"'' # '': '' @ json_render fr ind lv v @ s)
      = Parsed k ('': '' @ json_render fr ind lv v @ s)" by (rule p_string_quote)
  moreover have "p_value fl n (json_render fr ind lv v @ s) = Parsed v s"
    by (rule readsD [OF assms(2,3,4)])
  ultimately show ?thesis
    using skip_ws_render [OF assms(1)] by (simp add: json_quote_def)
qed

lemma reads_members:
  assumes "\<And>k v. (k, v) \<in> set kvs \<Longrightarrow> json_clean v \<and> reads fl fr ind v" and "kvs \<noteq> []"
    and "2 * length (join (json_sep ind lv') (map (member_text fr ind lv') kvs)) + 1 < n"
  shows "p_members fl n (join (json_sep ind lv') (map (member_text fr ind lv') kvs) @ json_gap ind lv @ CHR ''}'' # r)
    = Parsed kvs r"
  using assms
proof (induction kvs arbitrary: n)
  case (Cons kv kvs)
  obtain k v where kv: "kv = (k, v)" by (cases kv)
  obtain m where n: "n = Suc m" using Cons.prems(3) by (cases n) auto
  have v: "json_clean v" "reads fl fr ind v" using Cons.prems(1) [of k v] kv by simp_all
  show ?case
  proof (cases "kvs = []")
    case True
    then show ?thesis
      using p_members_one [OF v, of "json_gap ind lv @ CHR ''}'' # r" lv' m k] Cons.prems(3)
      by (simp add: n kv)
  next
    case False
    obtain t where t: "json_sep ind lv' = CHR '','' # t" "\<forall>s. skip_ws (t @ s) = skip_ws s"
      using json_sep_comma [of ind lv'] by blast
    let ?rest = "join (json_sep ind lv') (map (member_text fr ind lv') kvs) @ json_gap ind lv @ CHR ''}'' # r"
    have l: "join (json_sep ind lv') (map (member_text fr ind lv') (kv # kvs))
        = json_quote k @ '': '' @ json_render fr ind lv' v @ json_sep ind lv'
          @ join (json_sep ind lv') (map (member_text fr ind lv') kvs)"
      using False by (simp add: join_Cons kv)
    have "json_clean v' \<and> reads fl fr ind v'" if "(k', v') \<in> set kvs" for k' v'
      using Cons.prems(1) [of k' v'] that by simp
    then have ih: "p_members fl m ?rest = Parsed kvs r"
      by (rule Cons.IH) (use Cons.prems(3) False l t(1) in \<open>simp_all add: n\<close>)
    obtain k2 v2 ys where y: "kvs = (k2, v2) # ys" using False by (cases kvs) auto
    have sk: "skip_ws ?rest = ?rest"
      by (cases "ys = []") (simp_all add: y join_Cons json_quote_def)
    show ?thesis
      using p_members_one [OF v stops_sep, of lv' m k ind lv' ?rest] Cons.prems(3) ih sk t
      unfolding n l append_assoc by (simp add: kv del: list.map)
  qed
qed simp

lemma readsI:
  "(\<And>lv n r. stops r \<Longrightarrow> p_value fl (Suc n) (json_render fr ind lv v @ r) = Parsed v r) \<Longrightarrow> reads fl fr ind v"
  unfolding reads_def by (metis not_less_zero old.nat.exhaust)

lemma reads_clean: "json_clean v \<Longrightarrow> reads fl fr ind v"
proof (induction v)
  case JNull
  show ?case by (rule readsI) (simp add: code_def)
next
  case (JBool b)
  show ?case by (rule readsI) (simp add: code_def)
next
  case (JInt i)
  show ?case by (rule readsI) (simp add: p_value_show del: p_value.simps)
next
  case (JStr s)
  show ?case by (rule readsI) (simp add: p_value_quote del: p_value.simps)
next
  case (JArr xs)
  have x: "x \<in> set xs \<Longrightarrow> json_clean x \<and> reads fl fr ind x" for x
    using JArr by (simp add: list_all_iff)
  show ?case unfolding reads_def
  proof (intro allI impI)
    fix lv n and r :: string
    assume n: "2 * length (json_render fr ind lv (JArr xs)) < n"
    show "p_value fl n (json_render fr ind lv (JArr xs) @ r) = Parsed (JArr xs) r"
    proof (cases xs)
      case Nil
      then show ?thesis using n by (cases n) simp_all
    next
      case (Cons y ys)
      obtain m where m: "n = Suc m" using n by (cases n) auto
      let ?text = "join (json_sep ind (Suc lv)) (map (json_render fr ind (Suc lv)) xs)"
      have p: "p_elems fl m (?text @ json_gap ind lv @ CHR '']'' # r) = Parsed xs r"
        by (rule reads_elems) (use x n Cons m in simp_all)
      have "json_clean y" using x Cons by simp
      then obtain c cs where c: "json_render fr ind (Suc lv) y = c # cs" "\<not> json_space c" "code c \<noteq> 93"
        by (rule render_Cons)
      obtain ds where "?text = c # ds"
        by (cases "ys = []") (auto simp: Cons c join_Cons)
      then show ?thesis using p c Cons by (simp add: m)
    qed
  qed
next
  case (JObj kvs)
  have x: "(k, v) \<in> set kvs \<Longrightarrow> json_clean v \<and> reads fl fr ind v" for k v
    using JObj by (force simp: list_all_iff)
  show ?case unfolding reads_def
  proof (intro allI impI)
    fix lv n and r :: string
    assume n: "2 * length (json_render fr ind lv (JObj kvs)) < n"
    show "p_value fl n (json_render fr ind lv (JObj kvs) @ r) = Parsed (JObj kvs) r"
    proof (cases kvs)
      case Nil
      then show ?thesis using n by (cases n) simp_all
    next
      case (Cons y ys)
      obtain m where m: "n = Suc m" using n by (cases n) auto
      let ?text = "join (json_sep ind (Suc lv)) (map (member_text fr ind (Suc lv)) kvs)"
      have p: "p_members fl m (?text @ json_gap ind lv @ CHR ''}'' # r) = Parsed kvs r"
        by (rule reads_members) (use x n Cons m in simp_all)
      obtain k v where y: "y = (k, v)" by (cases y)
      obtain ds where "?text = CHR ''\"'' # ds"
        by (cases "ys = []") (auto simp: Cons y join_Cons json_quote_def)
      then show ?thesis using p Cons JObj.prems by (simp add: m dict_of_distinct)
    qed
  qed
qed simp

text \<open>The reader always ends: for every text \<open>json_loads\<close> gives a value, a decoding error, or
  a value outside the model; its fuel never runs out.\<close>

lemma loads_ends:
  "case json_loads fl s of Inr v \<Rightarrow> True | Inl e \<Rightarrow> e = decode_error \<or> (\<exists>field. e = Ill_typed field)"
  using loads_errors [of fl s] by (auto simp: parse_error_def split: sum.split)

lemma loads_render:
  assumes "json_clean v"
  shows "json_loads fl (json_render fr ind lv v) = Inr v"
proof -
  have "p_value fl (Suc (2 * length (json_render fr ind lv v))) (json_render fr ind lv v @ []) = Parsed v []"
    by (rule readsD [OF reads_clean [OF assms]]) simp_all
  then show ?thesis using skip_ws_render [OF assms, of fr ind lv "[]"]
    by (simp add: json_loads_def skip_ws_def del: p_value.simps)
qed

text \<open>Writing and reading are inverse: a document without floats whose objects have distinct
  keys comes back unchanged from \<open>json.loads\<close> after \<open>json.dumps\<close>.\<close>

lemma loads_dumps: "json_clean v \<Longrightarrow> json_loads fl (json_dumps fr v) = Inr v"
  by (simp add: json_dumps_def loads_render)

end
