(* ===== verification/Documents.thy ===== *)
theory Documents
  imports Workflow_Validation Run_Report Json_Text
begin

text \<open>
  Texts of workflows and reports: \<open>Workflow.from_json\<close> and \<open>Workflow.from_file\<close> of
  \<open>sdk-python/orchestrator/spec.py\<close>, and the round trip of \<open>Report.to_json\<close>. The file system
  and the YAML library, which may be missing, are parameters.
\<close>

definition workflow_from_json :: "(rat \<Rightarrow> rat) \<Rightarrow> string \<Rightarrow> workflow res" where
  "workflow_from_json fl s = rbind (json_loads fl s) (workflow_from_dict fl)"

definition ends_with :: "string \<Rightarrow> string \<Rightarrow> bool" where
  "ends_with suffix s \<longleftrightarrow> is_prefix (rev suffix) (rev s)"

definition workflow_from_file :: "(rat \<Rightarrow> rat) \<Rightarrow> (string \<Rightarrow> json res) option \<Rightarrow> (string \<Rightarrow> string res)
    \<Rightarrow> string \<Rightarrow> workflow res" where
  "workflow_from_file fl yaml read_file path =
     rbind (read_file path) (\<lambda>s.
     if ends_with ''.yaml'' path \<or> ends_with ''.yml'' path
     then (case yaml of
             None \<Rightarrow> Inl (SpecError YamlRequired)
           | Some safe_load \<Rightarrow> rbind (safe_load s) (workflow_from_dict fl))
     else workflow_from_json fl s)"

text \<open>What a loaded workflow satisfies, whatever the source.\<close>

lemma loaded_parsed:
  "workflow_from_dict fl doc = Inr w \<Longrightarrow> parse_workflow fl doc = Inr w \<and> well_formed w"
  by (auto simp: workflow_from_dict_def result_simps dest: validate_result)

lemma from_json_dict: "workflow_from_json fl s = Inr w \<Longrightarrow> \<exists>doc. workflow_from_dict fl doc = Inr w"
  by (auto simp: workflow_from_json_def result_simps)

lemma from_file_dict: "workflow_from_file fl yaml rd path = Inr w \<Longrightarrow> \<exists>doc. workflow_from_dict fl doc = Inr w"
  by (auto simp: workflow_from_file_def result_simps dest: from_json_dict split: if_splits option.splits)

text \<open>Loading a file: a \<open>.json\<close> file with the text of a document loads as the document does,
  a YAML file needs the library, and whatever the file and the library give, a workflow that
  is returned is well-formed.\<close>

lemma file_loading:
  assumes "json_clean doc"
  shows "workflow_from_file fl yaml (\<lambda>p. Inr (json_dumps fr doc)) (stem @ ''.json'') = workflow_from_dict fl doc
    \<and> workflow_from_file fl None (\<lambda>p. Inr contents) (stem @ ''.yaml'') = Inl (SpecError YamlRequired)
    \<and> (case workflow_from_file fl yaml rd path of Inl e \<Rightarrow> True | Inr w \<Rightarrow> well_formed w)"
proof -
  have "json_loads fl (json_dumps fr doc) = Inr doc" by (rule loads_dumps [OF assms])
  moreover have "workflow_from_file fl yaml rd path = Inr w \<Longrightarrow> well_formed w" for w
    by (blast dest: from_file_dict loaded_parsed)
  ultimately show ?thesis
    by (auto simp: workflow_from_file_def workflow_from_json_def ends_with_def split: sum.split)
qed

text \<open>C32. The text of a report reads back: \<open>Report.from_dict(json.loads(report.to_json()))\<close> is the
  report, without what the dictionary leaves out, whatever the indentation, when the values
  the user put in have no floats and no repeated keys.\<close>

theorem report_text_round_trip:
  assumes "json_clean (report_to_dict r)"
  shows "rbind (json_loads fl (report_to_json fr indent r)) report_from_dict = Inr (public_report r)"
  by (simp add: report_to_json_def loads_render [OF assms] report_dict_round_trip)

definition sample_report :: report where
  "sample_report = \<lparr>rp_workflow = JStr ''w'', rp_run_id = ''r_1'', rp_status = Failed, rp_started_at = ''t'',
     rp_duration_ms = 12,
     rp_tasks = [\<lparr>ts_id = ''a'', ts_status = Failed, ts_duration_ms = 7, ts_attempts = 2, ts_llm = None,
       ts_decisions = [\<lparr>dc_at_ms = 1, dc_summary = ''s'', dc_rationale = None, dc_data = JNull\<rparr>],
       ts_error = Some ''E: e'', ts_output = JNull, ts_tool_calls = None\<rparr>],
     rp_critical_path = [], rp_totals = new_totals, rp_errors = [''E: e''], rp_output = JNull\<rparr>"

theorem report_text_round_trip_witness:
  "rbind (json_loads (\<lambda>r. r) (report_to_json (\<lambda>r. []) 2 sample_report)) report_from_dict
     = Inr (public_report sample_report)"
proof -
  have "json_clean (report_to_dict sample_report)" by code_simp
  then show ?thesis by (rule report_text_round_trip)
qed

end
