(* ===== verification/Orchestrator_Run.thy ===== *)
theory Orchestrator_Run
  imports Sequential_Spec Rate_Limit Documents
begin

text \<open>
  The class \<open>Orchestrator\<close> of \<open>sdk-python/orchestrator/engine.py\<close>: the check of the inputs,
  the set-up of the buckets, the run loop of theory \<open>Scheduler\<close> under a list of batches, the
  assembly of the report, \<open>run_sync\<close> and the subprocess engine. The engine binary and the file
  system are arguments. With \<open>max_parallel = 0\<close> a future that waits for the semaphore is in no batch.
\<close>

section \<open>Before the loop\<close>

fun check_required :: "(string \<times> json) list \<Rightarrow> (string, json) dict \<Rightarrow> unit res" where
  "check_required [] inputs = Inr ()"
| "check_required ((name, schema) # rest) inputs =
     rbind (py_get schema ''required'' JNull) (\<lambda>r.
     if truthy r \<and> name \<notin> set (dkeys inputs)
     then Inl (ValueError (''missing required input: '' @ repr_str name))
     else check_required rest inputs)"

definition validate_inputs :: "workflow \<Rightarrow> (string, json) dict \<Rightarrow> unit res" where
  "validate_inputs w inputs = rbind (py_items (wf_inputs_schema w)) (\<lambda>kvs. check_required kvs inputs)"

text \<open>The buckets: one for the run, two for each provider, whose token bucket is never
  acquired. \<open>now name\<close> is the clock reading of the constructor.\<close>

type_synonym buckets = "limiter \<times> (string, limiter) dict \<times> (string, limiter) dict"

definition make_buckets :: "(string \<Rightarrow> rat) \<Rightarrow> workflow \<Rightarrow> buckets res" where
  "make_buckets now w =
     rbind (bucket_for (now ''global'') (wf_rate_limit w) ''global'') (\<lambda>global.
     rbind (rtraverse (\<lambda>(n, p). rmap (Pair n)
       (bucket_for (now (n @ ''.req'')) (pv_rate_limit p) (n @ ''.req''))) (wf_providers w)) (\<lambda>req.
     rbind (rtraverse (\<lambda>(n, p). rmap (Pair n)
       (token_bucket_for (now (n @ ''.tok'')) (pv_rate_limit p) (n @ ''.tok''))) (wf_providers w)) (\<lambda>tok.
     Inr (global, req, tok))))"

text \<open>\<open>asyncio.Semaphore(workflow.max_parallel)\<close>\<close>

definition make_semaphore :: "workflow \<Rightarrow> int res" where
  "make_semaphore w =
     (if wf_max_parallel w < 0 then Inl (ValueError ''Semaphore initial value must be >= 0'')
      else Inr (wf_max_parallel w))"

section \<open>The report\<close>

record run_clock =
  rc_started_at :: string
  rc_t0 :: rat
  rc_t1 :: rat
  rc_bucket :: "string \<Rightarrow> rat"

definition run_status :: "sched \<Rightarrow> status" where
  "run_status s =
     (if sc_failed s \<or> list_ex (\<lambda>(tid, sp). ts_status sp = Failed) (sc_spans s) then Failed else Succeeded)"

definition run_output :: "run_env \<Rightarrow> workflow \<Rightarrow> (string, json) dict \<Rightarrow> sched \<Rightarrow> json" where
  "run_output env w inputs s =
     (if run_status s = Succeeded \<and> truthy (wf_output w)
      then (case resolve_template (ev_fr env) (run_scope inputs (sc_results s)) (wf_output w) of
              Inl e \<Rightarrow> JNull | Inr v \<Rightarrow> v)
      else JNull)"

text \<open>Recursion that does not end is a \<open>RecursionError\<close>, a kind of \<open>RuntimeError\<close>.\<close>

definition make_report :: "run_env \<Rightarrow> run_clock \<Rightarrow> workflow \<Rightarrow> (string, json) dict \<Rightarrow> sched \<Rightarrow> report res" where
  "make_report env clk w inputs s =
     (case compute_critical_path (Suc (length (sc_spans s))) (sc_spans s) (dep_graph w) of
        None \<Rightarrow> Inl (RuntimeError ''maximum recursion depth exceeded'')
      | Some path \<Rightarrow> Inr
          \<lparr>rp_workflow = wf_name w,
           rp_run_id = ev_run_id env,
           rp_status = run_status s,
           rp_started_at = rc_started_at clk,
           rp_duration_ms = millis (ev_fl env) (rc_t0 clk) (rc_t1 clk),
           rp_tasks = concat (map (\<lambda>t. case dget (sc_spans s) (tk_id t) of None \<Rightarrow> [] | Some sp \<Rightarrow> [sp]) (wf_tasks w)),
           rp_critical_path = path,
           rp_totals = sc_totals s,
           rp_errors = (case sc_first_error s of None \<Rightarrow> [] | Some e \<Rightarrow> if e \<noteq> [] then [e] else []),
           rp_output = run_output env w inputs s\<rparr>)"

section \<open>Orchestrator.run\<close>

text \<open>The run under a schedule; \<open>None\<close> when the batches are no complete schedule of it.\<close>

definition run_python :: "run_env \<Rightarrow> run_clock \<Rightarrow> workflow \<Rightarrow> (string, json) dict \<Rightarrow> string list list \<Rightarrow> report res option" where
  "run_python env clk w inputs batches =
     (case rbind (validate_inputs w inputs) (\<lambda>_. rbind (make_buckets (rc_bucket clk) w) (\<lambda>_. make_semaphore w)) of
        Inl e \<Rightarrow> Some (Inl e)
      | Inr _ \<Rightarrow>
          (case run_turns env w inputs batches (Loop (init_sched w)) of
             Some (Finished s) \<Rightarrow> Some (make_report env clk w inputs s)
           | Some (Raised e) \<Rightarrow> Some (Inl e)
           | _ \<Rightarrow> None))"

section \<open>The subprocess engine\<close>

record host =
  hs_platform :: string
  hs_maxsize :: int
  hs_machine :: string
  hs_bin_path :: "string \<Rightarrow> string"
  hs_exists :: "string \<Rightarrow> bool"
  hs_which :: int

definition engine_binary :: "host \<Rightarrow> string res" where
  "engine_binary h =
     (if hs_platform h = ''darwin'' then
        (let arch = (if 2 ^ 32 < hs_maxsize h
                     then (if hs_machine h = ''arm64'' then ''arm64'' else ''amd64'')
                     else ''amd64'')
         in Inr (''orchestrator-darwin-'' @ arch))
      else if hs_platform h = ''linux'' then Inr ''orchestrator-linux-amd64''
      else if hs_platform h = ''win32'' then Inr ''orchestrator-windows-amd64.exe''
      else Inl (RuntimeError (''Unsupported platform: '' @ hs_platform h)))"

definition get_engine_path :: "host \<Rightarrow> string res" where
  "get_engine_path h =
     rbind (engine_binary h) (\<lambda>name.
     if hs_exists h (hs_bin_path h name) then Inr (hs_bin_path h name)
     else if hs_which h = 0 then Inr ''orchestrator''
     else Inl (RuntimeError (''Could not find Go orchestrator engine. Expected at: '' @ hs_bin_path h name
       @ ''. Reinstall: pip install --force-reinstall agentic-workflow-orchestrator'')))"

text \<open>What \<open>Popen\<close> and \<open>communicate\<close> end with.\<close>

datatype go_result =
    GoExit int string string
  | GoTimeout
  | GoNotFound

definition start_message :: "(rat \<Rightarrow> string) \<Rightarrow> json \<Rightarrow> (string, json) dict \<Rightarrow> string" where
  "start_message fr spec inputs =
     json_dumps fr (JObj [(''type'', JStr ''start_run''), (''spec_json'', JStr (json_dumps fr spec)),
       (''inputs_json'', JStr (json_dumps fr (JObj inputs)))])"

definition report_prefix :: string where
  "report_prefix = ''{\"type\":\"report\"''"

text \<open>The last line of the output that starts like a report.\<close>

definition report_line :: "string \<Rightarrow> string option" where
  "report_line out =
     find (is_prefix report_prefix) (rev (split_on CHR ''\<newline>'' (strip out)))"

definition run_go_engine :: "(rat \<Rightarrow> rat) \<Rightarrow> (rat \<Rightarrow> string) \<Rightarrow> host \<Rightarrow> (string \<Rightarrow> string \<Rightarrow> go_result)
    \<Rightarrow> string option \<Rightarrow> workflow \<Rightarrow> (string, json) dict \<Rightarrow> report res" where
  "run_go_engine fl fr h popen path w inputs =
     rbind (validate_inputs w inputs) (\<lambda>_.
     rbind (case path of Some p \<Rightarrow> if p \<noteq> [] then Inr p else get_engine_path h | None \<Rightarrow> get_engine_path h) (\<lambda>engine_path.
     rbind (workflow_to_dict w) (\<lambda>spec.
     case popen engine_path (start_message fr spec inputs @ [CHR ''\<newline>'']) of
       GoTimeout \<Rightarrow> Inl (RuntimeError ''Go engine execution timeout (1 hour limit)'')
     | GoNotFound \<Rightarrow> Inl (RuntimeError (''Go engine binary not found at: '' @ engine_path @ [CHR ''\<newline>'']
         @ ''Install: pip install --force-reinstall agentic-workflow-orchestrator''))
     | GoExit rc out err \<Rightarrow>
         if rc \<noteq> 0 then Inl (RuntimeError (''Go engine failed: '' @ err))
         else (case report_line out of
                 None \<Rightarrow> Inl (RuntimeError ''Go engine did not return a valid report'')
               | Some line \<Rightarrow> rbind (json_loads fl line) report_from_dict))))"

definition run_sync :: "run_env \<Rightarrow> run_clock \<Rightarrow> host \<Rightarrow> (string \<Rightarrow> string \<Rightarrow> go_result)
    \<Rightarrow> string \<Rightarrow> string option \<Rightarrow> workflow \<Rightarrow> (string, json) dict \<Rightarrow> string list list \<Rightarrow> report res option" where
  "run_sync env clk h popen engine path w inputs batches =
     (if engine = ''go'' then Some (run_go_engine (ev_fl env) (ev_fr env) h popen path w inputs)
      else run_python env clk w inputs batches)"

section \<open>Facts about the end of a run\<close>

lemma finished_facts:
  assumes w: "well_formed w" and f: "config_inv env w inputs (Finished s)"
  shows "span_ids s = set (task_ids w)" "distinct (dkeys (sc_spans s))" "stored s"
    "dget (sc_spans s) tid = Some sp \<Longrightarrow> ts_id sp = tid"
    "dget (sc_spans s) tid = Some sp \<Longrightarrow> ts_error sp \<noteq> Some []"
    "sc_first_error s = Some e \<Longrightarrow> \<exists>tid sp. dget (sc_spans s) tid = Some sp \<and> ts_status sp \<noteq> Succeeded \<and> ts_error sp = Some e"
    "sc_first_error s = None \<Longrightarrow> \<not> sc_failed s \<and> (\<forall>tid sp. dget (sc_spans s) tid = Some sp \<longrightarrow> ts_status sp \<noteq> Failed)"
proof -
  have d: "distinct (task_ids w)" using w by (simp add: well_formed_def)
  have all: "span_ids s = set (task_ids w) \<and> distinct (dkeys (sc_spans s)) \<and> stored s
    \<and> (\<forall>tid sp. dget (sc_spans s) tid = Some sp \<longrightarrow>
        sp = new_span tid Skipped \<or> produced env w inputs (dget (sc_results s)) tid (Inr sp))"
  proof (cases "sc_failed s")
    case True
    then show ?thesis using f by (auto simp: aborted_def)
  next
    case False
    then have inv: "sched_inv env w inputs s" "sc_ready s = []" "sc_running s = []" using f by simp_all
    then have i: "tidy w s" "stored s" "blocked w s" "originated env w inputs s" by (simp_all add: sched_inv_def)
    have "sp = new_span tid Skipped \<or> produced env w inputs (dget (sc_results s)) tid (Inr sp)"
      if "dget (sc_spans s) tid = Some sp" for tid sp
    proof (cases "tid \<in> set (sc_skipped s)")
      case True
      then show ?thesis using i(3) that by (simp add: blocked_def)
    next
      case False
      moreover have "tid \<in> span_ids s" using that by (metis dget_Some_key list.set_map)
      ultimately show ?thesis using i(4) that unfolding originated_def by blast
    qed
    then show ?thesis using finished_all [OF w inv] i(1,2) unfolding tidy_def by simp
  qed
  show "span_ids s = set (task_ids w)" "distinct (dkeys (sc_spans s))" "stored s" using all by blast+
  show "dget (sc_spans s) tid = Some sp \<Longrightarrow> ts_id sp = tid"
    using all produced_span [OF _ d] by (fastforce simp: new_span_def)
  show "dget (sc_spans s) tid = Some sp \<Longrightarrow> ts_error sp \<noteq> Some []"
    using all execute_task_error_nonempty [OF sym] by (fastforce simp: new_span_def produced_def)
  show "sc_first_error s = Some e \<Longrightarrow> \<exists>tid sp. dget (sc_spans s) tid = Some sp \<and> ts_status sp \<noteq> Succeeded \<and> ts_error sp = Some e"
  proof (cases "sc_failed s")
    case True
    then have "aborted env w inputs s" using f by simp
    moreover assume "sc_first_error s = Some e"
    ultimately show ?thesis unfolding aborted_def by force
  next
    case False
    then have "first_error_ok s" using f by (simp add: sched_inv_def)
    moreover assume "sc_first_error s = Some e"
    ultimately show ?thesis unfolding first_error_ok_def by auto
  qed
  assume n: "sc_first_error s = None"
  then have nf: "\<not> sc_failed s" using f by (auto simp: aborted_def)
  then have inv: "sched_inv env w inputs s" using f by simp
  have "ts_status sp \<noteq> Failed" if sp: "dget (sc_spans s) tid = Some sp" for tid sp
  proof (cases "tid \<in> set (sc_skipped s)")
    case True
    then have "sp = new_span tid Skipped" using inv sp by (simp add: sched_inv_def blocked_def)
    then show ?thesis by (simp add: new_span_def)
  next
    case False
    moreover have "tid \<in> span_ids s" using sp by (metis dget_Some_key list.set_map)
    ultimately have "tid \<in> result_ids s" using inv n by (auto simp: sched_inv_def first_error_ok_def)
    then show ?thesis using succeeded_result [of s tid] inv sp by (simp add: sched_inv_def succeeded_def)
  qed
  then show "\<not> sc_failed s \<and> (\<forall>tid sp. dget (sc_spans s) tid = Some sp \<longrightarrow> ts_status sp \<noteq> Failed)"
    using nf by blast
qed

text \<open>The dependencies among the spans are acyclic and the fuel suffices.\<close>

lemma live_of_well_formed:
  assumes "well_formed w"
  shows "live_acyclic (spans, dep_graph w)"
proof -
  have "{(d, n). d \<in> set (live_deps (spans, dep_graph w) n)} \<subseteq> dep_rel w"
    by (auto simp: live_deps_def dep_rel_def deps_in_def deps_of_graph split: if_splits)
  then show ?thesis
    using assms acyclic_subset unfolding live_acyclic_def well_formed_def by blast
qed

lemma report_path:
  assumes w: "well_formed w" and f: "config_inv env w inputs (Finished s)"
  shows "\<exists>p. compute_critical_path (Suc (length (sc_spans s))) (sc_spans s) (dep_graph w) = Some p
    \<and> dep_chain (sc_spans s) (dep_graph w) p \<and> (p = [] \<longleftrightarrow> (\<forall>n. \<not> succeeded (sc_spans s) n))
    \<and> (\<forall>q. q \<noteq> [] \<longrightarrow> dep_chain (sc_spans s) (dep_graph w) q \<longrightarrow> chain_cost (sc_spans s) q \<le> chain_cost (sc_spans s) p)"
  by (rule critical_path_longest [OF live_of_well_formed [OF w] finished_facts(2) [OF w f]]) simp

text \<open>A run with a report went through the loop.\<close>

lemma run_python_report:
  assumes "well_formed w" and "run_python env clk w inputs batches = Some (Inr r)"
  shows "\<exists>s. run_turns env w inputs batches (Loop (init_sched w)) = Some (Finished s)
    \<and> config_inv env w inputs (Finished s) \<and> make_report env clk w inputs s = Inr r"
proof -
  obtain s where s: "run_turns env w inputs batches (Loop (init_sched w)) = Some (Finished s)"
    "make_report env clk w inputs s = Inr r"
    using assms(2) by (auto simp: run_python_def split: sum.splits option.splits config.splits)
  then show ?thesis using run_turns_inv [OF assms(1)] by blast
qed

lemma distinct_dict: "distinct (dkeys d) \<Longrightarrow> distinct d"
  by (simp add: distinct_map)

lemma report_tasks:
  assumes w: "well_formed w" and f: "config_inv env w inputs (Finished s)" and r: "make_report env clk w inputs s = Inr r"
  shows "rp_tasks r = map (\<lambda>t. the (dget (sc_spans s) (tk_id t))) (wf_tasks w)"
    "map ts_id (rp_tasks r) = task_ids w"
    "mset (map (\<lambda>sp. (ts_id sp, sp)) (rp_tasks r)) = mset (sc_spans s)"
proof -
  note facts = finished_facts [OF w f]
  have some: "t \<in> set (wf_tasks w) \<Longrightarrow> \<exists>sp. dget (sc_spans s) (tk_id t) = Some sp" for t
    using facts(1) by (metis image_eqI list.set_map map_of_eq_None_iff not_None_eq)
  have e: "concat (map (\<lambda>t. case dget (sc_spans s) (tk_id t) of None \<Rightarrow> [] | Some sp \<Rightarrow> [sp]) ts)
      = map (\<lambda>t. the (dget (sc_spans s) (tk_id t))) ts" if "set ts \<subseteq> set (wf_tasks w)" for ts
    using that
  proof (induction ts)
    case (Cons t ts)
    then obtain sp where "dget (sc_spans s) (tk_id t) = Some sp" using some by auto
    then show ?case using Cons by simp
  qed simp
  show t: "rp_tasks r = map (\<lambda>t. the (dget (sc_spans s) (tk_id t))) (wf_tasks w)"
    using r e [of "wf_tasks w"] by (auto simp: make_report_def split: option.splits)
  have i: "ts_id (the (dget (sc_spans s) (tk_id t))) = tk_id t" if "t \<in> set (wf_tasks w)" for t
    using some [OF that] facts(4) by auto
  show ids: "map ts_id (rp_tasks r) = task_ids w" using i by (simp add: t)
  let ?m = "map (\<lambda>sp. (ts_id sp, sp)) (rp_tasks r)"
  have "dkeys ?m = task_ids w" using ids by (simp add: comp_def)
  then have dm: "distinct (dkeys ?m)" using w by (simp add: well_formed_def)
  have "set ?m \<subseteq> set (sc_spans s)"
    using some i by (fastforce simp: t dest: map_of_SomeD)
  moreover have "card (set ?m) = card (set (sc_spans s))"
  proof -
    have "card (set ?m) = length (task_ids w)"
      using distinct_card [OF distinct_dict [OF dm]] ids by (metis length_map)
    moreover have "card (set (sc_spans s)) = length (sc_spans s)"
      by (rule distinct_card [OF distinct_dict [OF facts(2)]])
    moreover have "length (sc_spans s) = card (span_ids s)"
      using distinct_card [OF facts(2)] by simp
    moreover have "card (set (task_ids w)) = length (task_ids w)"
      using w distinct_card unfolding well_formed_def by blast
    ultimately show ?thesis using facts(1) by simp
  qed
  ultimately have "set ?m = set (sc_spans s)" by (intro card_subset_eq) simp_all
  then show "mset ?m = mset (sc_spans s)"
    using distinct_dict [OF dm] distinct_dict [OF facts(2)] by (metis set_eq_iff_mset_eq_distinct)
qed

text \<open>Every finite run of the machine is a run under some batches.\<close>

lemma steps_run_turns:
  "sched_steps env w inputs c c' \<Longrightarrow> \<exists>bs. run_turns env w inputs bs c = Some c'"
proof (induction rule: converse_rtranclp_induct)
  case base
  then show ?case by (intro exI [of _ "[]"]) simp
next
  case (step c d)
  then obtain bs where bs: "run_turns env w inputs bs d = Some c'" by blast
  from step(1) obtain s b where "c = Loop s" "d = turn env w inputs b s" "batch_ok env w inputs b s"
    by (auto elim: stepE)
  then show ?case using bs by (intro exI [of _ "b # bs"]) simp
qed

lemma report_members:
  assumes w: "well_formed w" and f: "config_inv env w inputs (Finished s)" and r: "make_report env clk w inputs s = Inr r"
  shows "sp \<in> set (rp_tasks r) \<longleftrightarrow> (\<exists>tid. dget (sc_spans s) tid = Some sp)"
proof -
  have "set (map (\<lambda>sp. (ts_id sp, sp)) (rp_tasks r)) = set (sc_spans s)"
    using report_tasks(3) [OF assms] by (metis set_mset_mset)
  then have "sp \<in> set (rp_tasks r) \<longleftrightarrow> (ts_id sp, sp) \<in> set (sc_spans s)" by auto
  also have "\<dots> \<longleftrightarrow> (\<exists>tid. dget (sc_spans s) tid = Some sp)"
  proof
    assume "(ts_id sp, sp) \<in> set (sc_spans s)"
    then have "dget (sc_spans s) (ts_id sp) = Some sp" by (rule map_of_is_SomeI [OF finished_facts(2) [OF w f]])
    then show "\<exists>tid. dget (sc_spans s) tid = Some sp" ..
  next
    assume "\<exists>tid. dget (sc_spans s) tid = Some sp"
    then obtain tid where t: "dget (sc_spans s) tid = Some sp" ..
    show "(ts_id sp, sp) \<in> set (sc_spans s)"
      using map_of_SomeD [OF t] finished_facts(4) [OF w f t] by simp
  qed
  finally show ?thesis .
qed

lemma report_spans:
  assumes w: "well_formed w" and f: "config_inv env w inputs (Finished s)" and r: "make_report env clk w inputs s = Inr r"
  shows "dget (map (\<lambda>sp. (ts_id sp, sp)) (rp_tasks r)) = dget (sc_spans s)"
proof -
  let ?m = "map (\<lambda>sp. (ts_id sp, sp)) (rp_tasks r)"
  have "set ?m = set (sc_spans s)" using report_tasks(3) [OF assms] by (metis set_mset_mset)
  moreover have "dkeys ?m = task_ids w" using report_tasks(2) [OF assms] by (simp add: comp_def)
  then have "distinct (dkeys ?m)" using w by (simp add: well_formed_def)
  ultimately show ?thesis using finished_facts(2) [OF w f] by (simp add: map_of_inject_set)
qed

lemma spans_same:
  "dget a = dget b \<Longrightarrow> succeeded a = succeeded b \<and> own_cost a = own_cost b"
  by (auto simp: succeeded_def own_cost_def fun_eq_iff)

lemma chains_same:
  assumes "dget a = dget b"
  shows "dep_chain a ds p = dep_chain b ds p" "chain_cost a p = chain_cost b p"
  using spans_same [OF assms] by (simp_all add: dep_chain_def chain_cost_def)

lemma root_exists:
  assumes w: "well_formed w"
  shows "n \<in> set (task_ids w) \<Longrightarrow> \<exists>r \<in> set (task_ids w). deps_of w r = []"
proof (induction n rule: dag.dep_induct [OF w])
  case (1 n)
  show ?case
  proof (cases "deps_of w n")
    case (Cons d ds)
    then have "d \<in> set (deps_of w n)" by simp
    then show ?thesis using "1.IH" dag.deps_nodes [OF w, of n] by blast
  qed (use "1.prems" in blast)
qed

section \<open>What a caller of the engine gets\<close>

definition demo_clock :: run_clock where
  "demo_clock = \<lparr>rc_started_at = ''t'', rc_t0 = 0, rc_t1 = 3, rc_bucket = (\<lambda>n. 0)\<rparr>"

abbreviation demo_report :: "string \<Rightarrow> string \<Rightarrow> string list list \<Rightarrow> report res option" where
  "demo_report a oe bs \<equiv> run_python demo_env demo_clock (demo_workflow a oe) demo_inputs bs"

fun is_report :: "report res option \<Rightarrow> bool" where
  "is_report (Some (Inr r)) = True"
| "is_report _ = False"

lemma is_report_obtain: "is_report x \<Longrightarrow> \<exists>r. x = Some (Inr r)"
  by (cases x rule: is_report.cases) auto

lemma demo_report_skip: "is_report (demo_report ''boom'' ''continue'' [[''b''], [''a''], []])"
  by code_simp

lemma some_schedule:
  assumes "well_formed w" and "0 < wf_max_parallel w"
  shows "\<exists>batches. run_python env clk w inputs batches \<noteq> None"
proof -
  have i: "config_inv env w inputs (Loop (init_sched w))" by (rule loop_reachable [OF assms(1)]) simp
  obtain c where c: "sched_steps env w inputs (Loop (init_sched w)) c" "\<forall>s. c \<noteq> Loop s"
    using loop_terminates [OF assms(2) i] by blast
  obtain bs where bs: "run_turns env w inputs bs (Loop (init_sched w)) = Some c"
    using steps_run_turns [OF c(1)] by blast
  have "run_python env clk w inputs bs \<noteq> None"
    using bs c(2) by (cases c) (auto simp: run_python_def split: sum.splits)
  then show ?thesis by blast
qed

text \<open>Completeness of a run: a valid workflow with a positive \<open>max_parallel\<close> has a schedule
  under which \<open>run\<close> returns a report or raises.\<close>

lemma run_returns:
  assumes "well_formed w" and "0 < wf_max_parallel w"
  shows "\<exists>batches. run_python env clk w inputs batches \<noteq> None"
  by (rule some_schedule [OF assms])

lemma report_sums:
  assumes "well_formed w" and "run_python env clk w inputs batches = Some (Inr r)"
  shows "map ts_id (rp_tasks r) = task_ids w \<and> rp_totals r = sum_list (map span_totals (rp_tasks r))"
proof -
  obtain s where f: "config_inv env w inputs (Finished s)" and r: "make_report env clk w inputs s = Inr r"
    using run_python_report [OF assms] by blast
  have "rp_totals r = sc_totals s" using r by (auto simp: make_report_def split: option.splits)
  also have "\<dots> = sum_list (map (span_totals \<circ> snd) (sc_spans s))"
    using finished_facts(3) [OF assms(1) f] by (simp add: stored_def)
  also have "\<dots> = sum_list (map (span_totals \<circ> snd) (map (\<lambda>sp. (ts_id sp, sp)) (rp_tasks r)))"
    by (rule sum_list_mset [OF report_tasks(3) [OF assms(1) f r, symmetric]])
  finally show ?thesis using report_tasks(2) [OF assms(1) f r] by (simp add: comp_def)
qed

text \<open>The tasks of a report: one span for each task, in the order of the workflow, and the
  totals are the sums over them.\<close>

lemma report_complete:
  assumes "well_formed w" and "run_python env clk w inputs batches = Some (Inr r)"
  shows "map ts_id (rp_tasks r) = task_ids w \<and> rp_totals r = sum_list (map span_totals (rp_tasks r))"
  by (rule report_sums [OF assms])

text \<open>C16. The verdict of a report: a failed report names exactly one error, that of a reported
  task that did not succeed; a succeeded report has no failed task; a report without a task
  that did not succeed on its own account has no error.\<close>

theorem report_verdict:
  assumes "well_formed w" and "run_python env clk w inputs batches = Some (Inr r)"
  shows "(rp_status r = Succeeded \<and> (\<forall>sp \<in> set (rp_tasks r). ts_status sp \<noteq> Failed)
        \<or> rp_status r = Failed \<and> rp_errors r \<noteq> [])
    \<and> (rp_errors r = [] \<or> (\<exists>sp \<in> set (rp_tasks r). \<exists>e. rp_errors r = [e] \<and> ts_status sp \<noteq> Succeeded \<and> ts_error sp = Some e))"
proof -
  obtain s where f: "config_inv env w inputs (Finished s)" and r: "make_report env clk w inputs s = Inr r"
    using run_python_report [OF assms] by blast
  note facts = finished_facts [OF assms(1) f]
  note set = report_members [OF assms(1) f r]
  have st: "rp_status r = run_status s"
    and er: "rp_errors r = (case sc_first_error s of None \<Rightarrow> [] | Some e \<Rightarrow> if e \<noteq> [] then [e] else [])"
    using r by (auto simp: make_report_def split: option.splits)
  have nofail: "run_status s = Succeeded \<Longrightarrow> \<forall>sp \<in> set (rp_tasks r). ts_status sp \<noteq> Failed"
  proof (intro ballI)
    fix sp assume a: "run_status s = Succeeded" "sp \<in> set (rp_tasks r)"
    then obtain tid where "dget (sc_spans s) tid = Some sp" using set by blast
    then have "(tid, sp) \<in> set (sc_spans s)" by (rule map_of_SomeD)
    then show "ts_status sp \<noteq> Failed" using a(1) by (auto simp: run_status_def list_ex_iff split: if_splits)
  qed
  show ?thesis
  proof (cases "sc_first_error s")
    case None
    then have "\<not> sc_failed s \<and> (\<forall>tid sp. dget (sc_spans s) tid = Some sp \<longrightarrow> ts_status sp \<noteq> Failed)"
      by (rule facts(7))
    then have "run_status s = Succeeded"
      using facts(2) by (auto simp: run_status_def list_ex_iff)
    then show ?thesis using None st er nofail by simp
  next
    case (Some e)
    obtain tid sp where sp: "dget (sc_spans s) tid = Some sp" "ts_status sp \<noteq> Succeeded" "ts_error sp = Some e"
      using facts(6) [OF Some] by blast
    have "e \<noteq> []" using facts(5) [OF sp(1)] sp(3) by auto
    then have "rp_errors r = [e]" using Some er by simp
    moreover have "sp \<in> set (rp_tasks r)" using set sp(1) by blast
    moreover have "run_status s = Succeeded \<or> run_status s = Failed" by (simp add: run_status_def)
    ultimately show ?thesis using st nofail sp by auto
  qed
qed

theorem report_verdict_witness:
  "\<exists>r. demo_report ''boom'' ''continue'' [[''b''], [''a''], []] = Some (Inr r) \<and> rp_status r \<noteq> Skipped"
proof -
  obtain r where r: "demo_report ''boom'' ''continue'' [[''b''], [''a''], []] = Some (Inr r)"
    using is_report_obtain [OF demo_report_skip] by blast
  have "well_formed (demo_workflow ''boom'' ''continue'')" by (simp add: demo_well_formed)
  from report_verdict [OF this r] show ?thesis using r by auto
qed

text \<open>C17. The critical path of a report is a chain of succeeded tasks, each a dependency of the
  next, of the greatest total duration among such chains.\<close>

theorem report_critical_path:
  fixes r :: report
  defines "spans \<equiv> map (\<lambda>sp. (ts_id sp, sp)) (rp_tasks r)"
  assumes "well_formed w" and "run_python env clk w inputs batches = Some (Inr r)"
  shows "dep_chain spans (dep_graph w) (rp_critical_path r)
    \<and> (\<forall>q. q \<noteq> [] \<longrightarrow> dep_chain spans (dep_graph w) q \<longrightarrow> chain_cost spans q \<le> chain_cost spans (rp_critical_path r))"
proof -
  obtain s where f: "config_inv env w inputs (Finished s)" and r: "make_report env clk w inputs s = Inr r"
    using run_python_report [OF assms(2,3)] by blast
  have "dget spans = dget (sc_spans s)" unfolding spans_def by (rule report_spans [OF assms(2) f r])
  note same = chains_same [OF this]
  obtain p where p: "compute_critical_path (Suc (length (sc_spans s))) (sc_spans s) (dep_graph w) = Some p"
    "dep_chain (sc_spans s) (dep_graph w) p"
    "\<forall>q. q \<noteq> [] \<longrightarrow> dep_chain (sc_spans s) (dep_graph w) q \<longrightarrow> chain_cost (sc_spans s) q \<le> chain_cost (sc_spans s) p"
    using report_path [OF assms(2) f] by blast
  have "rp_critical_path r = p" using r p(1) by (auto simp: make_report_def)
  then show ?thesis using p(2,3) same by simp
qed

theorem report_critical_path_witness:
  "\<exists>r. demo_report ''boom'' ''continue'' [[''b''], [''a''], []] = Some (Inr r)
     \<and> dep_chain (map (\<lambda>sp. (ts_id sp, sp)) (rp_tasks r)) (dep_graph (demo_workflow ''boom'' ''continue'')) (rp_critical_path r)"
proof -
  obtain r where r: "demo_report ''boom'' ''continue'' [[''b''], [''a''], []] = Some (Inr r)"
    using is_report_obtain [OF demo_report_skip] by blast
  have "well_formed (demo_workflow ''boom'' ''continue'')" by (simp add: demo_well_formed)
  from report_critical_path [OF this r] show ?thesis using r by blast
qed

section \<open>A workflow whose tasks succeed one after the other\<close>

text \<open>The tasks executed in one order that respects the dependencies, with the checks of a run
  before them: the output of the workflow when all succeed.\<close>

definition sequential_output :: "run_env \<Rightarrow> workflow \<Rightarrow> (string, json) dict \<Rightarrow> string list \<Rightarrow> json option" where
  "sequential_output env w inputs order =
     (case seq_run env w inputs order ([], []) of
        Inl e \<Rightarrow> None
      | Inr (spans, results) \<Rightarrow>
          if all_succeed spans
          then Some (if truthy (wf_output w)
                     then (case resolve_template (ev_fr env) (run_scope inputs results) (wf_output w) of
                             Inl e \<Rightarrow> JNull | Inr v \<Rightarrow> v)
                     else JNull)
          else None)"

definition checks_pass :: "run_clock \<Rightarrow> workflow \<Rightarrow> (string, json) dict \<Rightarrow> bool" where
  "checks_pass clk w inputs \<longleftrightarrow>
     is_ok (validate_inputs w inputs) \<and> is_ok (make_buckets (rc_bucket clk) w) \<and> is_ok (make_semaphore w)"

lemma successful_outcome:
  assumes w: "well_formed w" and pl: "sequential_plan w order"
    and so: "sequential_output env w inputs order = Some v" and cp: "checks_pass clk w inputs"
    and r: "run_python env clk w inputs batches = Some out"
  shows "\<exists>r. out = Inr r \<and> rp_status r = Succeeded \<and> rp_errors r = []
    \<and> rp_output r = v \<and> map ts_status (rp_tasks r) = map (\<lambda>t. Succeeded) (wf_tasks w)"
proof -
  obtain spans results where s: "seq_run env w inputs order ([], []) = Inr (spans, results)" and ok: "all_succeed spans"
    and v: "v = (if truthy (wf_output w)
        then (case resolve_template (ev_fr env) (run_scope inputs results) (wf_output w) of Inl e \<Rightarrow> JNull | Inr v \<Rightarrow> v)
        else JNull)"
    using so by (auto simp: sequential_output_def split: sum.splits if_splits)
  obtain bs k where ck: "validate_inputs w inputs = Inr ()" "make_buckets (rc_bucket clk) w = Inr bs" "make_semaphore w = Inr k"
    using cp by (cases "validate_inputs w inputs"; cases "make_buckets (rc_bucket clk) w"; cases "make_semaphore w") (auto simp: checks_pass_def)
  note plan = sequential_plan_sound [OF pl]
  note succ = sequential_success [OF w plan(2,1) s ok]
  obtain c where c: "run_turns env w inputs batches (Loop (init_sched w)) = Some c"
    and inv: "config_inv env w inputs c"
    using r ck run_turns_inv [OF w, of env inputs batches] by (auto simp: run_python_def split: option.splits)
  obtain f where f: "c = Finished f" "make_report env clk w inputs f = out"
    using r ck c succ(1) inv by (auto simp: run_python_def split: config.splits)
  have n: "\<not> sc_failed f" "dget (sc_spans f) = dget spans" "dget (sc_results f) = dget results"
    using succ(2) inv f(1) by blast+
  obtain rep where rep: "out = Inr rep"
    using f(2) report_path [OF w inv [unfolded f(1)]] by (auto simp: make_report_def)
  have o: "distinct order" "set order = set (task_ids w)"
    "\<forall>xs n ys. order = xs @ n # ys \<longrightarrow> set (deps_of w n) \<subseteq> {} \<union> set xs"
    using plan(1) by (simp_all add: topological_def)
  have dr: "distinct (dkeys results)" "distinct (dkeys (sc_results f))"
    using seq_run_ok [OF s seq_ok_empty o(1) _ o(3)] inv n(1) f(1)
    by (simp_all add: seq_ok_def sched_inv_def stored_def)
  note ff = finished_facts [OF w inv [unfolded f(1)]]
  have sp: "ts_status q = Succeeded" if "dget (sc_spans f) m = Some q" for m q
    using ok that n(2) map_of_SomeD [of spans m q] by (auto simp: all_succeed_def list_all_iff)
  have st: "run_status f = Succeeded"
    using n(1) sp ff(2) by (auto simp: run_status_def list_ex_iff)
  have e: "sc_first_error f = None"
    using ff(6) sp by (cases "sc_first_error f") auto
  have t: "map ts_status (rp_tasks rep) = map (\<lambda>t. Succeeded) (wf_tasks w)"
  proof -
    have "ts_status (the (dget (sc_spans f) (tk_id t))) = Succeeded" if t: "t \<in> set (wf_tasks w)" for t
    proof -
      have "tk_id t \<in> span_ids f" unfolding ff(1) using t by simp
      then obtain q where "dget (sc_spans f) (tk_id t) = Some q"
        using dget_None_iff [of "sc_spans f" "tk_id t"] by (cases "dget (sc_spans f) (tk_id t)") auto
      then show ?thesis using sp by simp
    qed
    then show ?thesis
      using report_tasks(1) [OF w inv [unfolded f(1)]] f(2) rep by simp
  qed
  have "rp_status rep = Succeeded" "rp_errors rep = []" "rp_output rep = run_output env w inputs f"
    using f(2) rep st e by (auto simp: make_report_def split: option.splits)
  then show ?thesis
    using rep t resolve_results [OF dr(1) dr(2) n(3) [symmetric]] by (simp add: run_output_def st v)
qed

text \<open>The verdict does not depend on timing: when the tasks of a valid workflow succeed
  executed one after the other and the checks before the loop pass, the run succeeds under
  every schedule that ends, without an error, with every task succeeded and the output of the
  sequential evaluation. A fail-fast cannot occur, and no exception.\<close>

lemma run_succeeds:
  assumes "well_formed w" and "sequential_plan w order"
    and "sequential_output env w inputs order = Some v" and "checks_pass clk w inputs"
    and "run_python env clk w inputs batches = Some out"
  shows "\<exists>r. out = Inr r \<and> rp_status r = Succeeded \<and> rp_errors r = [] \<and> rp_output r = v
    \<and> map ts_status (rp_tasks r) = map (\<lambda>t. Succeeded) (wf_tasks w)"
  by (rule successful_outcome [OF assms])

section \<open>Runs that never end, and the subprocess engine\<close>

text \<open>The first turn starts the tasks without dependencies, at least one.\<close>

lemma first_dispatch:
  assumes w: "well_formed w" and "wf_tasks w \<noteq> []"
  shows "\<exists>s1. dispatch env w inputs (sc_ready (init_sched w)) (init_sched w) = Inr s1
    \<and> sc_running s1 \<noteq> [] \<and> sc_results s1 = []
    \<and> (\<forall>tid \<in> set (dkeys (sc_running s1)). \<exists>t \<in> set (wf_tasks w). dget (task_map w) tid = Some t \<and> tk_depends_on t = [])"
proof -
  let ?s = "init_sched w"
  have d: "distinct (task_ids w)" using w by (simp add: well_formed_def)
  have "config_inv env w inputs (Loop ?s)" by (rule loop_reachable [OF w]) simp
  then have i: "sched_inv env w inputs ?s" by simp
  have ready: "tid \<in> set (sc_ready ?s) \<longleftrightarrow> (\<exists>t \<in> set (wf_tasks w). tid = tk_id t \<and> tk_depends_on t = [])" for tid
    by (auto simp: init_sched_def dget_indegrees [OF d] deps_of_task [OF d])
  let ?run = "\<lambda>tid. (tid, execute_task env w (the (dget (task_map w) tid)) inputs (sc_results ?s))"
  let ?s1 = "?s\<lparr>sc_ready := [], sc_running := sc_running ?s @ map ?run (sc_ready ?s)\<rparr>"
  have disp: "dispatch env w inputs (sc_ready ?s) ?s = Inr ?s1"
    by (rule dispatch_spec) (use ready_not_skipped [OF i] in blast)
  have "\<exists>r \<in> set (task_ids w). deps_of w r = []"
    using root_exists [OF w, of "tk_id (hd (wf_tasks w))"] assms(2) by (cases "wf_tasks w") auto
  then have "sc_ready ?s \<noteq> []" using ready deps_of_task [OF d] by fastforce
  then have "sc_running ?s1 \<noteq> []" by simp
  moreover have "dkeys (sc_running ?s1) = sc_ready ?s" by (simp add: init_sched_def comp_def)
  then have "\<exists>t \<in> set (wf_tasks w). dget (task_map w) tid = Some t \<and> tk_depends_on t = []"
    if "tid \<in> set (dkeys (sc_running ?s1))" for tid
    using that ready dget_task_map [OF d] by metis
  ultimately show ?thesis using disp by (intro exI [of _ ?s1]) (simp add: init_sched_def)
qed

text \<open>C30. A zero \<open>max_parallel\<close> hangs: take a valid workflow with at least one task and \<open>max_parallel\<close> zero,
  and inputs that are accepted, and let the rate buckets be built. When every task without dependencies
  needs the semaphore, no schedule of the run ends.\<close>

theorem zero_parallel_hangs:
  assumes "well_formed w" and "wf_tasks w \<noteq> []" and "wf_max_parallel w = 0"
    and "validate_inputs w inputs = Inr ()" and "is_ok (make_buckets (rc_bucket clk) w)"
    and "list_all (\<lambda>t. tk_depends_on t \<noteq> [] \<or> needs_slot env w t inputs []) (wf_tasks w)"
  shows "run_python env clk w inputs batches = None"
proof -
  let ?s = "init_sched w"
  obtain s1 where s1: "dispatch env w inputs (sc_ready ?s) ?s = Inr s1" "sc_running s1 \<noteq> []" "sc_results s1 = []"
    and running: "\<And>tid. tid \<in> set (dkeys (sc_running s1)) \<Longrightarrow>
      \<exists>t \<in> set (wf_tasks w). dget (task_map w) tid = Some t \<and> tk_depends_on t = []"
    using first_dispatch [OF assms(1,2), of env inputs] by blast
  have stuck: "\<not> slot_free env w inputs s1 tid" if r: "tid \<in> set (dkeys (sc_running s1))" for tid
  proof -
    obtain t where "t \<in> set (wf_tasks w)" "dget (task_map w) tid = Some t" "tk_depends_on t = []"
      using running [OF r] by blast
    then show ?thesis using assms(3,6) s1(3) by (auto simp: slot_free_def list_all_iff)
  qed
  have "\<not> batch_ok env w inputs b ?s" for b
  proof
    assume "batch_ok env w inputs b ?s"
    then have b: "b \<noteq> []" "set b \<subseteq> set (dkeys (sc_running s1))" "list_all (slot_free env w inputs s1) b"
      using s1(2) by (simp_all add: batch_ok_def s1(1))
    then obtain x xs where "b = x # xs" by (cases b) auto
    then show False using b(2,3) stuck [of x] by simp
  qed
  then have "run_turns env w inputs batches (Loop ?s) = (if batches = [] then Some (Loop ?s) else None)"
    by (cases batches) simp_all
  then show ?thesis
    using assms(4,5) by (cases "make_buckets (rc_bucket clk) w")
      (simp_all add: run_python_def make_semaphore_def assms(3))
qed

theorem zero_parallel_hangs_witness:
  "run_python demo_env demo_clock ((demo_workflow ''copy'' ''continue'')\<lparr>wf_max_parallel := 0\<rparr>) demo_inputs [[''a'', ''b'']]
     = None"
proof -
  let ?w = "(demo_workflow ''copy'' ''continue'')\<lparr>wf_max_parallel := 0\<rparr>"
  have "well_formed (demo_workflow ''copy'' ''continue'')" by (simp add: demo_well_formed)
  moreover have "dep_rel ?w = dep_rel (demo_workflow ''copy'' ''continue'')"
    by (simp add: dep_rel_def deps_of_def task_map_def)
  ultimately have "well_formed ?w" by (simp add: well_formed_def provider_known_def)
  moreover have "wf_tasks ?w \<noteq> []" "wf_max_parallel ?w = 0" by (simp_all add: demo_workflow_def)
  moreover have "validate_inputs ?w demo_inputs = Inr ()" by code_simp
  moreover have "is_ok (make_buckets (rc_bucket demo_clock) ?w)" by code_simp
  moreover have "list_all (\<lambda>t. tk_depends_on t \<noteq> [] \<or> needs_slot demo_env ?w t demo_inputs []) (wf_tasks ?w)"
    by code_simp
  ultimately show ?thesis by (rule zero_parallel_hangs)
qed

definition demo_host :: host where
  "demo_host = \<lparr>hs_platform = ''linux'', hs_maxsize = 2 ^ 63, hs_machine = ''x86_64'', hs_bin_path = (\<lambda>n. ''bin/'' @ n),
     hs_exists = (\<lambda>p. True), hs_which = 1\<rparr>"

text \<open>C31. The default engine fails on every workflow with a task: it serializes the workflow
  with attributes a task does not have, so the exception comes before the subprocess is
  started, whatever the engine would answer.\<close>

theorem go_engine_unusable:
  assumes "wf_tasks w \<noteq> []"
  shows "run_sync env clk h popen ''go'' (Some (c # cs)) w inputs batches
      = Some (rbind (validate_inputs w inputs) (\<lambda>_. Inl (AttributeError ''description'')))
    \<and> (\<exists>e. run_sync env clk h popen ''go'' path w inputs batches = Some (Inl e))"
proof -
  have d: "workflow_to_dict w = Inl (AttributeError ''description'')" by (rule to_dict_raises [OF assms])
  have "\<exists>e. run_go_engine (ev_fl env) (ev_fr env) h popen path w inputs = Inl e"
    unfolding run_go_engine_def d
    by (cases "validate_inputs w inputs";
        cases "case path of Some p \<Rightarrow> if p \<noteq> [] then Inr p else get_engine_path h | None \<Rightarrow> get_engine_path h") auto
  then show ?thesis by (simp add: run_sync_def run_go_engine_def d)
qed

theorem go_engine_unusable_witness:
  "run_sync demo_env demo_clock demo_host (\<lambda>p msg. GoTimeout) ''go'' (Some ''bin'') (demo_workflow ''copy'' ''continue'') demo_inputs []
     = Some (Inl (AttributeError ''description''))"
proof -
  have v: "validate_inputs (demo_workflow ''copy'' ''continue'') demo_inputs = Inr ()" by code_simp
  have "wf_tasks (demo_workflow ''copy'' ''continue'') \<noteq> []" by (simp add: demo_workflow_def)
  from go_engine_unusable [OF this] show ?thesis by (simp add: v)
qed

text \<open>The answer of the engine is not understood: when the report line holds the report in an
  envelope, as the engine writes it, the SDK looks for the fields of the report in the envelope
  and raises.\<close>

lemma go_report_rejected:
  assumes "validate_inputs w inputs = Inr ()" and "workflow_to_dict w = Inr spec"
    and "popen (c # cs) (start_message fr spec inputs @ [CHR ''\<newline>'']) = GoExit 0 out err"
    and "report_line out = Some line"
    and "json_loads fl line = Inr (JObj [(''type'', JStr ''report''), (''report'', doc)])"
  shows "run_go_engine fl fr h popen (Some (c # cs)) w inputs = Inl (KeyError ''workflow'')"
  by (simp add: run_go_engine_def assms report_from_dict_def totals_from_dict_def as_int_def)

end
