(* ===== verification/Mcp_Integration.thy ===== *)
theory Mcp_Integration
  imports Skill_Registry
begin

text \<open>
  \<open>sdk-python/orchestrator/mcp_integration.py\<close>: servers with a life cycle, the managed
  registry that caches them, the wrappers of the three levels and the tool registry. A server
  is a mutable object that the cache and its users share, so servers live in a heap and are
  named by references. An operation takes the world and returns a result and the new world;
  a world is kept also when the operation raises. The lock of the registry makes
  \<open>get_or_spawn\<close> and \<open>cleanup\<close> single steps. The printed lines are not modelled. A mock
  handler is a function of the tool name and the arguments.
\<close>

section \<open>Servers\<close>

type_synonym mcp_handler = "string \<Rightarrow> json \<Rightarrow> json res"

record mcp_tool =
  mt_name :: string
  mt_description :: string
  mt_schema :: "(string, json) dict"

definition new_tool :: "string \<Rightarrow> string \<Rightarrow> (string, json) dict option \<Rightarrow> mcp_tool" where
  "new_tool name description schema =
     \<lparr>mt_name = name, mt_description = description,
      mt_schema = (case schema of None \<Rightarrow> [] | Some s \<Rightarrow> s)\<rparr>"

text \<open>\<open>sv_process\<close>: no process, or whether the process still runs.\<close>

record mcp_server =
  sv_name :: string
  sv_tools :: "(string, mcp_tool) dict"
  sv_handler :: "mcp_handler option"
  sv_process :: "bool option"
  sv_connected :: bool

definition new_server :: "string \<Rightarrow> string list \<Rightarrow> mcp_handler option \<Rightarrow> mcp_server" where
  "new_server name tools handler =
     \<lparr>sv_name = name, sv_tools = dict_of (map (\<lambda>t. (t, new_tool t [] None)) tools),
      sv_handler = handler, sv_process = None, sv_connected = False\<rparr>"

record mcp_spec =
  sp_tools :: "string list"
  sp_command :: "string list option"
  sp_handler :: "mcp_handler option"

type_synonym ref = nat

record mcp_world =
  mw_heap :: "mcp_server list"
  mw_servers :: "(string, ref) dict"
  mw_specs :: "(string, mcp_spec) dict"

definition new_world :: mcp_world where
  "new_world = \<lparr>mw_heap = [], mw_servers = [], mw_specs = []\<rparr>"

section \<open>Operations with a world\<close>

type_synonym 'a action = "mcp_world \<Rightarrow> 'a res \<times> mcp_world"

definition abind :: "'a action \<Rightarrow> ('a \<Rightarrow> 'b action) \<Rightarrow> 'b action" where
  "abind m f = (\<lambda>w. case m w of (Inl e, w') \<Rightarrow> (Inl e, w') | (Inr x, w') \<Rightarrow> f x w')"

text \<open>\<open>try: m finally: c\<close>: an exception of \<open>c\<close> replaces the result of \<open>m\<close>.\<close>

definition try_finally :: "'a action \<Rightarrow> unit action \<Rightarrow> 'a action" where
  "try_finally m c = (\<lambda>w. case m w of (r, w') \<Rightarrow>
     (case c w' of (Inl e, w'') \<Rightarrow> (Inl e, w'') | (Inr _, w'') \<Rightarrow> (r, w'')))"

definition server_at :: "mcp_world \<Rightarrow> ref \<Rightarrow> mcp_server" where
  "server_at w r = mw_heap w ! r"

definition update_server :: "ref \<Rightarrow> (mcp_server \<Rightarrow> mcp_server) \<Rightarrow> mcp_world \<Rightarrow> mcp_world" where
  "update_server r f w = w\<lparr>mw_heap := (mw_heap w)[r := f (server_at w r)]\<rparr>"

definition alloc_server :: "mcp_server \<Rightarrow> ref action" where
  "alloc_server s w = (Inr (length (mw_heap w)), w\<lparr>mw_heap := mw_heap w @ [s]\<rparr>)"

definition server_connect :: "ref \<Rightarrow> unit action" where
  "server_connect r w = (Inr (), update_server r (\<lambda>s. s\<lparr>sv_connected := True\<rparr>) w)"

definition server_disconnect :: "ref \<Rightarrow> unit action" where
  "server_disconnect r w = (Inr (), update_server r (\<lambda>s.
     s\<lparr>sv_process := map_option (\<lambda>_. False) (sv_process s), sv_connected := False\<rparr>) w)"

definition server_call_tool :: "ref \<Rightarrow> string \<Rightarrow> json \<Rightarrow> json action" where
  "server_call_tool r tool args =
     abind (\<lambda>w. if sv_connected (server_at w r) then (Inr (), w) else server_connect r w) (\<lambda>_ w.
       let s = server_at w r in
       if tool \<notin> set (dkeys (sv_tools s))
       then (Inl (ValueError (''Unknown tool: '' @ tool @ '' on '' @ sv_name s)), w)
       else case sv_handler s of
              Some h \<Rightarrow> (h tool args, w)
            | None \<Rightarrow> (Inl (NotImplementedError (''MCP server '' @ sv_name s @ '' not connected'')), w))"

section \<open>The managed registry\<close>

definition mcp_register :: "string \<Rightarrow> string list \<Rightarrow> string list option \<Rightarrow> mcp_handler option \<Rightarrow> mcp_world \<Rightarrow> mcp_world" where
  "mcp_register name tools command handler w =
     w\<lparr>mw_specs := dset name \<lparr>sp_tools = tools, sp_command = command, sp_handler = handler\<rparr> (mw_specs w)\<rparr>"

definition store_server :: "string \<Rightarrow> ref \<Rightarrow> mcp_world \<Rightarrow> mcp_world" where
  "store_server name r w = w\<lparr>mw_servers := dset name r (mw_servers w)\<rparr>"

definition get_or_spawn :: "string \<Rightarrow> ref action" where
  "get_or_spawn name w =
     (case dget (mw_servers w) name of
        Some r \<Rightarrow> (Inr r, w)
      | None \<Rightarrow>
          (case dget (mw_specs w) name of
             None \<Rightarrow> (Inl (ValueError (''Unknown MCP server: '' @ name @ ''. Register it first.'')), w)
           | Some spec \<Rightarrow>
               abind (alloc_server (new_server name (sp_tools spec) (sp_handler spec))) (\<lambda>r.
               abind (server_connect r) (\<lambda>_ w'.
               (Inr r, store_server name r w'))) w))"

definition get_cached :: "string \<Rightarrow> mcp_world \<Rightarrow> ref option" where
  "get_cached name w = dget (mw_servers w) name"

fun disconnect_all :: "ref list \<Rightarrow> unit action" where
  "disconnect_all [] w = (Inr (), w)"
| "disconnect_all (r # rs) w = abind (server_disconnect r) (\<lambda>_. disconnect_all rs) w"

definition mcp_cleanup :: "unit action" where
  "mcp_cleanup w = abind (disconnect_all (map snd (mw_servers w))) (\<lambda>_ w'. (Inr (), w'\<lparr>mw_servers := []\<rparr>)) w"

definition list_servers :: "mcp_world \<Rightarrow> string list" where
  "list_servers w = dkeys (mw_specs w)"

definition list_server_tools :: "string \<Rightarrow> mcp_world \<Rightarrow> string list" where
  "list_server_tools name w = (case dget (mw_specs w) name of None \<Rightarrow> [] | Some spec \<Rightarrow> sp_tools spec)"

section \<open>The wrappers\<close>

text \<open>What both wrappers do first: a cached server with a registry, else a temporary one.\<close>

definition acquire_server :: "bool \<Rightarrow> string \<Rightarrow> string \<Rightarrow> ref action" where
  "acquire_server managed server tool =
     (if managed then get_or_spawn server
      else abind (alloc_server (new_server server [tool] None)) (\<lambda>r.
           abind (server_connect r) (\<lambda>_ w. (Inr r, w))))"

definition release_server :: "bool \<Rightarrow> ref \<Rightarrow> unit action" where
  "release_server managed r = (if managed then (\<lambda>w. (Inr (), w)) else server_disconnect r)"

text \<open>The context of the wrapped skill gets one more attribute.\<close>

record 'c mcp_ctx =
  mc_ctx :: 'c
  mc_result :: "json option"

definition mcp_skill :: "bool \<Rightarrow> string \<Rightarrow> string \<Rightarrow> ('c mcp_ctx \<Rightarrow> json \<Rightarrow> 'a action)
    \<Rightarrow> 'c mcp_ctx \<Rightarrow> json \<Rightarrow> 'a action" where
  "mcp_skill managed server tool fn ctx inputs =
     abind (acquire_server managed server tool) (\<lambda>r.
     try_finally
       (abind (server_call_tool r tool inputs) (\<lambda>result. fn (ctx\<lparr>mc_result := Some result\<rparr>) inputs))
       (release_server managed r))"

definition mcp_tool_wrapper :: "bool \<Rightarrow> string \<Rightarrow> string \<Rightarrow> (string, json) dict \<Rightarrow> json action" where
  "mcp_tool_wrapper managed server tool kwargs =
     abind (acquire_server managed server tool) (\<lambda>r.
     try_finally (server_call_tool r tool (JObj kwargs)) (release_server managed r))"

section \<open>The tool registry\<close>

type_synonym tool_impl = "(string, json) dict \<Rightarrow> json action"

record tool_registry =
  tr_tools :: "(string, tool_impl) dict"
  tr_managed :: bool

definition new_tool_registry :: "bool \<Rightarrow> tool_registry" where
  "new_tool_registry managed = \<lparr>tr_tools = [], tr_managed = managed\<rparr>"

definition register_mcp_tool :: "string \<Rightarrow> string \<Rightarrow> string \<Rightarrow> tool_registry \<Rightarrow> tool_impl \<times> tool_registry" where
  "register_mcp_tool namespace server tool tr =
     (let f = mcp_tool_wrapper (tr_managed tr) server tool
      in (f, tr\<lparr>tr_tools := dset namespace f (tr_tools tr)\<rparr>))"

definition register_tool :: "string \<Rightarrow> tool_impl \<Rightarrow> tool_registry \<Rightarrow> tool_registry" where
  "register_tool name f tr = tr\<lparr>tr_tools := dset name f (tr_tools tr)\<rparr>"

text \<open>\<open>call(self, name, **kwargs)\<close>: a keyword that repeats a parameter is a \<open>TypeError\<close>.\<close>

definition tool_call :: "tool_registry \<Rightarrow> string \<Rightarrow> (string, json) dict \<Rightarrow> json action" where
  "tool_call tr name kwargs w =
     (if kwargs_clash kwargs then (Inl TypeError, w)
      else case dget (tr_tools tr) name of
             None \<Rightarrow> (Inl (ValueError (''Unknown tool: '' @ name)), w)
           | Some f \<Rightarrow> f kwargs w)"

definition list_registered :: "tool_registry \<Rightarrow> string list" where
  "list_registered tr = dkeys (tr_tools tr)"

section \<open>MCPOrchestrator\<close>

text \<open>The run is an action: what its skills do to the servers, and its report or exception.\<close>

definition run_sync_with_mcp :: "'a action \<Rightarrow> 'a action" where
  "run_sync_with_mcp run = try_finally run mcp_cleanup"

section \<open>What the operations do to the world\<close>

named_theorems world_simps \<open>the world as values\<close>

declare abind_def [world_simps] try_finally_def [world_simps] server_at_def [world_simps]
  update_server_def [world_simps] alloc_server_def [world_simps] server_connect_def [world_simps]
  server_disconnect_def [world_simps] store_server_def [world_simps]

lemma new_server_simps [simp]:
  "sv_name (new_server n ts h) = n" "sv_handler (new_server n ts h) = h"
  "sv_connected (new_server n ts h) = False" "sv_process (new_server n ts h) = None"
  "fst ` set (sv_tools (new_server n ts h)) = set ts"
proof -
  have "fst ` set (fold (\<lambda>(k, v). dset k v) (map (\<lambda>t. (t, f t)) ts) d) = set ts \<union> fst ` set d"
    for f :: "string \<Rightarrow> mcp_tool" and d
    by (induction ts arbitrary: d) auto
  then show "fst ` set (sv_tools (new_server n ts h)) = set ts"
    by (simp add: new_server_def dict_of_def)
qed (simp_all add: new_server_def)

text \<open>The answer of a server that has these tools and this handler.\<close>

definition mcp_reply :: "string \<Rightarrow> string set \<Rightarrow> mcp_handler option \<Rightarrow> string \<Rightarrow> json \<Rightarrow> json res" where
  "mcp_reply name tools handler tool args =
     (if tool \<notin> tools then Inl (ValueError (''Unknown tool: '' @ tool @ '' on '' @ name))
      else case handler of
             Some h \<Rightarrow> h tool args
           | None \<Rightarrow> Inl (NotImplementedError (''MCP server '' @ name @ '' not connected'')))"

definition server_reply :: "mcp_server \<Rightarrow> string \<Rightarrow> json \<Rightarrow> json res" where
  "server_reply s = mcp_reply (sv_name s) (set (dkeys (sv_tools s))) (sv_handler s)"

lemma call_connected:
  "sv_connected (server_at w r) \<Longrightarrow> server_call_tool r tool args w = (server_reply (server_at w r) tool args, w)"
  by (auto simp: server_call_tool_def abind_def server_reply_def mcp_reply_def Let_def split: option.splits)

lemma server_updates [simp]:
  "sv_connected (server_at (update_server r f w) i) =
     (if i = r \<and> r < length (mw_heap w) then sv_connected (f (server_at w r)) else sv_connected (server_at w i))"
  "length (mw_heap (update_server r f w)) = length (mw_heap w)"
  "mw_servers (update_server r f w) = mw_servers w" "mw_specs (update_server r f w) = mw_specs w"
  by (cases "r < length (mw_heap w)") (auto simp: update_server_def server_at_def list_update_beyond)+

lemma update_keeps:
  "(\<And>s. g (f s) = g s) \<Longrightarrow> g (server_at (update_server r f w) i) = g (server_at w i)"
  by (cases "r < length (mw_heap w)"; cases "i = r") (auto simp: update_server_def server_at_def list_update_beyond)

text \<open>Connecting and disconnecting leave the name of a server and its answers.\<close>

definition same_server :: "mcp_server \<Rightarrow> mcp_server \<Rightarrow> bool" where
  "same_server s t \<longleftrightarrow> sv_name t = sv_name s \<and> server_reply t = server_reply s"

lemma same_server [simp]:
  "same_server s s" "same_server s (s\<lparr>sv_connected := c\<rparr>)" "same_server s (s\<lparr>sv_process := q, sv_connected := c\<rparr>)"
  by (simp_all add: same_server_def server_reply_def)

lemma same_server_trans: "same_server s t \<Longrightarrow> same_server t u \<Longrightarrow> same_server s u"
  by (simp add: same_server_def)

lemma same_update:
  "(\<And>s. same_server s (f s)) \<Longrightarrow> same_server (server_at w i) (server_at (update_server r f w) i)"
  unfolding same_server_def by (simp add: update_keeps)

lemma call_reply:
  "r < length (mw_heap w) \<Longrightarrow> fst (server_call_tool r tool args w) = server_reply (server_at w r) tool args"
  by (auto simp: server_call_tool_def server_reply_def mcp_reply_def Let_def world_simps split: option.splits)

lemma call_world:
  "snd (server_call_tool r tool args w) =
     (if sv_connected (server_at w r) then w else snd (server_connect r w))"
  by (auto simp: server_call_tool_def abind_def server_connect_def Let_def split: option.splits)

lemma disconnect_all_spec:
  "\<exists>h. disconnect_all rs w = (Inr (), w\<lparr>mw_heap := h\<rparr>) \<and> length h = length (mw_heap w)
     \<and> (\<forall>i < length h. sv_connected (h ! i) = (sv_connected (mw_heap w ! i) \<and> i \<notin> set rs)
          \<and> same_server (mw_heap w ! i) (h ! i))"
proof (induction rs arbitrary: w)
  case Nil
  show ?case by (intro exI [of _ "mw_heap w"]) simp
next
  case (Cons r rs)
  define w1 where "w1 = snd (server_disconnect r w)"
  have len: "length (mw_heap w1) = length (mw_heap w)" by (simp add: world_simps w1_def)
  have w1: "i < length (mw_heap w) \<Longrightarrow> sv_connected (mw_heap w1 ! i) = (sv_connected (mw_heap w ! i) \<and> i \<noteq> r)
       \<and> same_server (mw_heap w ! i) (mw_heap w1 ! i)" for i
    by (cases "i = r") (auto simp: world_simps w1_def)
  obtain h where h: "disconnect_all rs w1 = (Inr (), w1\<lparr>mw_heap := h\<rparr>)" "length h = length (mw_heap w1)"
    "\<forall>i < length h. sv_connected (h ! i) = (sv_connected (mw_heap w1 ! i) \<and> i \<notin> set rs)
       \<and> same_server (mw_heap w1 ! i) (h ! i)"
    using Cons.IH [of w1] by blast
  have "disconnect_all (r # rs) w = (Inr (), w\<lparr>mw_heap := h\<rparr>)"
    using h(1) by (simp add: world_simps w1_def)
  moreover have "length h = length (mw_heap w)" using h(2) by (simp add: world_simps w1_def)
  moreover have "\<forall>i < length h. sv_connected (h ! i) = (sv_connected (mw_heap w ! i) \<and> i \<notin> set (r # rs))
       \<and> same_server (mw_heap w ! i) (h ! i)"
    using h(2,3) len w1 by (auto intro: same_server_trans)
  ultimately show ?case by (intro exI [of _ h]) simp
qed

lemma cleanup_spec:
  "\<exists>h. mcp_cleanup w = (Inr (), w\<lparr>mw_heap := h, mw_servers := []\<rparr>) \<and> length h = length (mw_heap w)
     \<and> (\<forall>i < length h. sv_connected (h ! i) = (sv_connected (mw_heap w ! i) \<and> i \<notin> snd ` set (mw_servers w))
          \<and> same_server (mw_heap w ! i) (h ! i))"
proof -
  obtain h where h: "disconnect_all (map snd (mw_servers w)) w = (Inr (), w\<lparr>mw_heap := h\<rparr>)"
    "length h = length (mw_heap w)"
    "\<forall>i < length h. sv_connected (h ! i) = (sv_connected (mw_heap w ! i) \<and> i \<notin> set (map snd (mw_servers w)))
       \<and> same_server (mw_heap w ! i) (h ! i)"
    using disconnect_all_spec [of "map snd (mw_servers w)" w] by blast
  show ?thesis using h by (intro exI [of _ h]) (simp add: mcp_cleanup_def abind_def)
qed

lemma spawn_new:
  "dget (mw_servers w) name = None \<Longrightarrow> dget (mw_specs w) name = Some spec \<Longrightarrow>
   get_or_spawn name w = (Inr (length (mw_heap w)),
     w\<lparr>mw_heap := mw_heap w @ [(new_server name (sp_tools spec) (sp_handler spec))\<lparr>sv_connected := True\<rparr>],
       mw_servers := dset name (length (mw_heap w)) (mw_servers w)\<rparr>)"
  by (simp add: get_or_spawn_def world_simps)

text \<open>A temporary server has no handler: the call raises and the server is disconnected.\<close>

lemma temporary_call:
  "abind (acquire_server False server tool) (\<lambda>r.
     try_finally (abind (server_call_tool r tool args) (f r)) (release_server False r)) w =
   (Inl (NotImplementedError (''MCP server '' @ server @ '' not connected'')),
    w\<lparr>mw_heap := mw_heap w @ [new_server server [tool] None]\<rparr>)"
proof -
  let ?h = "mw_heap w @ [(new_server server [tool] None)\<lparr>sv_connected := True\<rparr>]"
  have a: "acquire_server False server tool w = (Inr (length (mw_heap w)), w\<lparr>mw_heap := ?h\<rparr>)"
    by (simp add: acquire_server_def world_simps)
  have c: "server_call_tool (length (mw_heap w)) tool args (w\<lparr>mw_heap := ?h\<rparr>) =
      (Inl (NotImplementedError (''MCP server '' @ server @ '' not connected'')), w\<lparr>mw_heap := ?h\<rparr>)"
    by (subst call_connected) (simp_all add: server_at_def server_reply_def mcp_reply_def new_server_def dict_of_def)
  have d: "release_server False (length (mw_heap w)) (w\<lparr>mw_heap := ?h\<rparr>) =
      (Inr (), w\<lparr>mw_heap := mw_heap w @ [new_server server [tool] None]\<rparr>)"
    by (simp add: release_server_def world_simps new_server_def)
  show ?thesis by (simp only: abind_def try_finally_def a c d prod.case sum.case)
qed

lemma temporary_tool:
  "mcp_tool_wrapper False server tool kwargs w =
   (Inl (NotImplementedError (''MCP server '' @ server @ '' not connected'')),
    w\<lparr>mw_heap := mw_heap w @ [new_server server [tool] None]\<rparr>)"
proof -
  have "abind (server_call_tool r tool args) (\<lambda>x w. (Inr x, w)) = server_call_tool r tool args" for r args
    by (auto simp: abind_def fun_eq_iff split: prod.splits sum.splits)
  then show ?thesis
    using temporary_call [of server tool "JObj kwargs" "\<lambda>r x w. (Inr x, w)" w]
    by (simp add: mcp_tool_wrapper_def)
qed

lemma managed_skill:
  "mcp_skill True server tool fn ctx inputs w =
     (case get_or_spawn server w of
        (Inl e, w1) \<Rightarrow> (Inl e, w1)
      | (Inr r, w1) \<Rightarrow>
          (case server_call_tool r tool inputs w1 of
             (Inl e, w2) \<Rightarrow> (Inl e, w2)
           | (Inr v, w2) \<Rightarrow> fn (ctx\<lparr>mc_result := Some v\<rparr>) inputs w2))"
  by (simp add: mcp_skill_def acquire_server_def release_server_def abind_def try_finally_def
      split: prod.splits sum.splits)

lemma managed_tool:
  "mcp_tool_wrapper True server tool kwargs w =
     (case get_or_spawn server w of
        (Inl e, w1) \<Rightarrow> (Inl e, w1)
      | (Inr r, w1) \<Rightarrow> server_call_tool r tool (JObj kwargs) w1)"
  by (simp add: mcp_tool_wrapper_def acquire_server_def release_server_def abind_def try_finally_def
      split: prod.splits sum.splits)

section \<open>Programs over the registry\<close>

text \<open>What the code around a registry can do to a world through the operations of this file:
  any sequence of registrations, look-ups, constructions of servers, calls, connections and
  disconnections of any server it has a reference to, tool calls, and wrapped skills that do
  the same. The set says which of three things are among them: \<open>cleanup\<close>, disconnecting a
  server, and connecting or calling a server that is not cached (one that the program made
  itself or kept across \<open>cleanup\<close>).\<close>

datatype mcp_act = Cleaning | Closing | Opening

inductive mcp_reach :: "mcp_act set \<Rightarrow> mcp_world \<Rightarrow> mcp_world \<Rightarrow> bool" for C where
  stay: "mcp_reach C w w"
| seq: "mcp_reach C w v \<Longrightarrow> mcp_reach C v u \<Longrightarrow> mcp_reach C w u"
| register: "mcp_reach C w (mcp_register n ts cmd h w)"
| spawn: "mcp_reach C w (snd (get_or_spawn n w))"
| construct: "mcp_reach C w (snd (alloc_server (new_server n ts h) w))"
| connect: "Opening \<in> C \<or> get_cached n w = Some r \<Longrightarrow> mcp_reach C w (snd (server_connect r w))"
| disconnect: "Closing \<in> C \<Longrightarrow> mcp_reach C w (snd (server_disconnect r w))"
| call: "Opening \<in> C \<or> get_cached n w = Some r \<Longrightarrow> mcp_reach C w (snd (server_call_tool r tool args w))"
| tool: "mcp_reach C w (snd (mcp_tool_wrapper m server tool kwargs w))"
| skill: "(\<And>x v. mcp_reach C v (snd (fn x inputs v))) \<Longrightarrow>
    mcp_reach C w (snd (mcp_skill m server tool (fn :: skill_ctx mcp_ctx \<Rightarrow> json \<Rightarrow> json action) ctx inputs w))"
| cleanup: "Cleaning \<in> C \<Longrightarrow> mcp_reach C w (snd (mcp_cleanup w))"

text \<open>The elementary changes that these programs consist of.\<close>

inductive mcp_step :: "mcp_act set \<Rightarrow> mcp_world \<Rightarrow> mcp_world \<Rightarrow> bool" for C where
  register: "mcp_step C w (mcp_register n ts cmd h w)"
| spawn: "mcp_step C w (snd (get_or_spawn n w))"
| construct: "mcp_step C w (w\<lparr>mw_heap := mw_heap w @ [new_server n ts h]\<rparr>)"
| connect: "Opening \<in> C \<or> dget (mw_servers w) n = Some r \<Longrightarrow> mcp_step C w (snd (server_connect r w))"
| disconnect: "Closing \<in> C \<Longrightarrow> mcp_step C w (snd (server_disconnect r w))"
| cleanup: "Cleaning \<in> C \<Longrightarrow> mcp_step C w (snd (mcp_cleanup w))"

lemma get_or_spawn_cached: "get_or_spawn n w = (Inr r, v) \<Longrightarrow> dget (mw_servers v) n = Some r"
proof (cases "dget (mw_servers w) n")
  case None
  then show "get_or_spawn n w = (Inr r, v) \<Longrightarrow> dget (mw_servers v) n = Some r"
    using spawn_new [OF None] by (cases "dget (mw_specs w) n") (auto simp: get_or_spawn_def)
qed (auto simp: get_or_spawn_def)

lemma call_steps:
  "Opening \<in> C \<or> dget (mw_servers w) n = Some r \<Longrightarrow> (mcp_step C)\<^sup>*\<^sup>* w (snd (server_call_tool r tool args w))"
  by (auto simp: call_world intro: mcp_step.connect)

lemma tool_steps: "(mcp_step C)\<^sup>*\<^sup>* w (snd (mcp_tool_wrapper m server tool kwargs w))"
proof (cases m)
  case True
  obtain x v where s: "get_or_spawn server w = (x, v)" by fastforce
  then have v: "mcp_step C w v" using mcp_step.spawn [of C w server] by simp
  show ?thesis
  proof (cases x)
    case (Inr r)
    have "(mcp_step C)\<^sup>*\<^sup>* v (snd (server_call_tool r tool (JObj kwargs) v))"
      by (rule call_steps [OF disjI2 [OF get_or_spawn_cached]]) (use s Inr in simp)
    then show ?thesis using v by (simp add: True managed_tool s Inr converse_rtranclp_into_rtranclp)
  qed (use v in \<open>simp add: True managed_tool s\<close>)
qed (auto simp: temporary_tool intro: mcp_step.construct)

lemma skill_steps:
  assumes fn: "\<And>x v. (mcp_step C)\<^sup>*\<^sup>* v (snd (fn x inputs v))"
  shows "(mcp_step C)\<^sup>*\<^sup>* w (snd (mcp_skill m server tool fn ctx inputs w))"
proof (cases m)
  case True
  obtain x v where s: "get_or_spawn server w = (x, v)" by fastforce
  then have v: "mcp_step C w v" using mcp_step.spawn [of C w server] by simp
  show ?thesis
  proof (cases x)
    case (Inr r)
    obtain y u where c: "server_call_tool r tool inputs v = (y, u)" by fastforce
    have "(mcp_step C)\<^sup>*\<^sup>* v u"
      using call_steps [of C v server r tool inputs] get_or_spawn_cached [of server w r v] s Inr c by simp
    then have "(mcp_step C)\<^sup>*\<^sup>* w u" using v by (simp add: converse_rtranclp_into_rtranclp)
    then show ?thesis using fn
      by (cases y) (auto simp: True managed_skill s Inr c intro: rtranclp_trans)
  qed (use v in \<open>simp add: True managed_skill s\<close>)
qed (auto simp: mcp_skill_def temporary_call intro: mcp_step.construct)

lemma reach_steps: "mcp_reach C w v \<Longrightarrow> (mcp_step C)\<^sup>*\<^sup>* w v"
proof (induction rule: mcp_reach.induct)
  case (construct w n ts h)
  then show ?case using mcp_step.construct by (auto simp: alloc_server_def)
next
  case (skill fn inputs w m server tool ctx)
  then show ?case by (intro skill_steps) simp
qed (auto simp: get_cached_def intro: mcp_step.intros rtranclp_trans call_steps tool_steps)

text \<open>Every cached server is cached under its name, and its name has a specification; it is
  connected unless the program disconnects servers. Where the program only uses cached servers,
  no other server is connected.\<close>

definition mcp_inv :: "mcp_act set \<Rightarrow> mcp_world \<Rightarrow> bool" where
  "mcp_inv C w \<longleftrightarrow>
     (\<forall>n r. dget (mw_servers w) n = Some r \<longrightarrow>
        r < length (mw_heap w) \<and> sv_name (server_at w r) = n \<and> dget (mw_specs w) n \<noteq> None
        \<and> (sv_connected (server_at w r) \<or> Closing \<in> C))
   \<and> (\<forall>r < length (mw_heap w). sv_connected (server_at w r) \<longrightarrow> (\<exists>n. dget (mw_servers w) n = Some r) \<or> Opening \<in> C)"

lemma mcp_inv_cached:
  "mcp_inv C w \<Longrightarrow> dget (mw_servers w) n = Some r \<Longrightarrow>
     r < length (mw_heap w) \<and> sv_name (server_at w r) = n \<and> dget (mw_specs w) n \<noteq> None
     \<and> (sv_connected (server_at w r) \<or> Closing \<in> C)"
  unfolding mcp_inv_def by blast

lemma mcp_inv_connected:
  "mcp_inv C w \<Longrightarrow> Opening \<notin> C \<Longrightarrow> r < length (mw_heap w) \<Longrightarrow> sv_connected (server_at w r) \<Longrightarrow>
     \<exists>n. dget (mw_servers w) n = Some r"
  unfolding mcp_inv_def by blast

lemma mcp_inv_new: "mcp_inv C new_world"
  by (simp add: mcp_inv_def new_world_def)

lemma mcp_inv_cleanup:
  assumes "mcp_inv C w" shows "mcp_inv C (snd (mcp_cleanup w))"
proof -
  obtain h where h: "mcp_cleanup w = (Inr (), w\<lparr>mw_heap := h, mw_servers := []\<rparr>)" "length h = length (mw_heap w)"
    "\<forall>i < length h. sv_connected (h ! i) = (sv_connected (mw_heap w ! i) \<and> i \<notin> snd ` set (mw_servers w))
       \<and> same_server (mw_heap w ! i) (h ! i)"
    using cleanup_spec by blast
  have "\<not> sv_connected (h ! i)" if "i < length h" "Opening \<notin> C" for i
  proof
    assume "sv_connected (h ! i)"
    then have c: "sv_connected (mw_heap w ! i)" "i \<notin> snd ` set (mw_servers w)" using h(3) that by auto
    have "\<exists>n. dget (mw_servers w) n = Some i"
      by (rule mcp_inv_connected [OF assms that(2)]) (use c(1) that h(2) in \<open>simp_all add: server_at_def\<close>)
    then obtain n where "dget (mw_servers w) n = Some i" ..
    then show False using c(2) by (force dest: map_of_SomeD)
  qed
  then show ?thesis by (auto simp: h(1) mcp_inv_def server_at_def)
qed

lemma mcp_inv_spawn:
  assumes i: "mcp_inv C w" shows "mcp_inv C (snd (get_or_spawn n w))"
proof (cases "dget (mw_servers w) n = None \<and> dget (mw_specs w) n \<noteq> None")
  case True
  then obtain spec where c: "dget (mw_servers w) n = None" "dget (mw_specs w) n = Some spec" by blast
  let ?k = "length (mw_heap w)"
  define w' where "w' = snd (get_or_spawn n w)"
  have w': "mw_heap w' = mw_heap w @ [(new_server n (sp_tools spec) (sp_handler spec))\<lparr>sv_connected := True\<rparr>]"
    "mw_servers w' = dset n ?k (mw_servers w)" "mw_specs w' = mw_specs w"
    by (simp_all add: w'_def spawn_new [OF c])
  have at: "r < ?k \<Longrightarrow> server_at w' r = server_at w r"
    "server_at w' ?k = (new_server n (sp_tools spec) (sp_handler spec))\<lparr>sv_connected := True\<rparr>" for r
    by (simp_all add: server_at_def w' nth_append)
  have "r < length (mw_heap w') \<and> sv_name (server_at w' r) = m \<and> dget (mw_specs w') m \<noteq> None
      \<and> (sv_connected (server_at w' r) \<or> Closing \<in> C)" if "dget (mw_servers w') m = Some r" for m r
  proof (cases "m = n")
    case False
    then show ?thesis using mcp_inv_cached [OF i, of m r] that at(1) by (auto simp: w')
  qed (use that at(2) c(2) in \<open>simp add: w'\<close>)
  moreover have "(\<exists>m. dget (mw_servers w') m = Some r) \<or> Opening \<in> C"
    if "r < length (mw_heap w')" "sv_connected (server_at w' r)" for r
  proof (cases "r = ?k")
    case True
    then show ?thesis by (intro disjI1 exI [of _ n]) (simp add: w')
  next
    case False
    then have r: "r < ?k" using that(1) by (simp add: w')
    then have "(\<exists>m. dget (mw_servers w) m = Some r) \<or> Opening \<in> C"
      using mcp_inv_connected [OF i _ r] that(2) at(1) by auto
    moreover have "dget (mw_servers w') m = Some r" if "dget (mw_servers w) m = Some r" for m
      using that c(1) by (auto simp: w')
    ultimately show ?thesis by blast
  qed
  ultimately have "mcp_inv C w'" unfolding mcp_inv_def by blast
  then show ?thesis by (simp add: w'_def)
qed (use i in \<open>auto simp: get_or_spawn_def split: option.splits\<close>)

lemma mcp_inv_step:
  assumes "mcp_inv C w" and "mcp_step C w v"
  shows "mcp_inv C v"
  using assms(2)
proof cases
  case (construct n ts h)
  then show ?thesis using assms(1) by (auto simp: mcp_inv_def server_at_def nth_append less_Suc_eq)
next
  case (connect n r)
  have n: "sv_name (server_at v i) = sv_name (server_at w i)" for i
    by (simp add: connect(1) server_connect_def update_keeps)
  show ?thesis using assms(1) connect(2) n by (auto simp: mcp_inv_def connect(1) server_connect_def)
next
  case (disconnect r)
  have n: "sv_name (server_at v i) = sv_name (server_at w i)" for i
    by (simp add: disconnect(1) server_disconnect_def update_keeps)
  show ?thesis using assms(1) disconnect(2) n by (auto simp: mcp_inv_def disconnect(1) server_disconnect_def split: if_splits)
next
  case (register n ts cmd h)
  then show ?thesis using assms(1) by (auto simp: mcp_inv_def mcp_register_def server_at_def)
qed (use assms(1) mcp_inv_cleanup mcp_inv_spawn in simp_all)

lemma mcp_reach_inv: "mcp_reach C w v \<Longrightarrow> mcp_inv C w \<Longrightarrow> mcp_inv C v"
  by (rule rtranclp_induct [OF reach_steps]) (auto intro: mcp_inv_step)

text \<open>What lasts: the servers and their answers, the connections where nothing is disconnected,
  the cache without \<open>cleanup\<close>.\<close>

definition mcp_lasts :: "mcp_act set \<Rightarrow> mcp_world \<Rightarrow> mcp_world \<Rightarrow> bool" where
  "mcp_lasts C w v \<longleftrightarrow> length (mw_heap w) \<le> length (mw_heap v)
     \<and> (\<forall>r < length (mw_heap w). same_server (server_at w r) (server_at v r)
          \<and> (sv_connected (server_at w r) \<longrightarrow> sv_connected (server_at v r) \<or> Closing \<in> C \<or> Cleaning \<in> C))
     \<and> (dget (mw_servers w) \<subseteq>\<^sub>m dget (mw_servers v) \<or> Cleaning \<in> C)"

lemma mcp_lasts_step:
  assumes "mcp_step C w v" shows "mcp_lasts C w v"
  using assms
proof cases
  case (spawn n)
  then show ?thesis
  proof (cases "dget (mw_servers w) n = None \<and> dget (mw_specs w) n \<noteq> None")
    case True
    then obtain spec where c: "dget (mw_servers w) n = None" "dget (mw_specs w) n = Some spec" by blast
    show ?thesis using c(1)
      by (auto simp: spawn spawn_new [OF c] mcp_lasts_def server_at_def nth_append map_le_def)
  qed (use spawn in \<open>auto simp: get_or_spawn_def mcp_lasts_def split: option.splits\<close>)
next
  case (connect n r)
  then show ?thesis by (auto simp: mcp_lasts_def server_connect_def intro!: same_update)
next
  case (disconnect r)
  then show ?thesis by (auto simp: mcp_lasts_def server_disconnect_def intro!: same_update)
next
  case cleanup
  then show ?thesis using cleanup_spec [of w] by (auto simp: mcp_lasts_def server_at_def)
qed (auto simp: mcp_lasts_def mcp_register_def server_at_def nth_append)

lemma mcp_lasts_trans: "mcp_lasts C w v \<Longrightarrow> mcp_lasts C v u \<Longrightarrow> mcp_lasts C w u"
  unfolding mcp_lasts_def by (meson less_le_trans le_trans map_le_trans same_server_trans)

lemma mcp_reach_lasts:
  assumes "mcp_reach C w v" shows "mcp_lasts C w v"
  using reach_steps [OF assms]
proof (induction rule: rtranclp_induct)
  case base
  show ?case by (simp add: mcp_lasts_def)
qed (blast intro: mcp_lasts_trans mcp_lasts_step)

interpretation mcp: machine "\<lambda>w. w = new_world" "mcp_reach C" "mcp_inv C" for C
  by unfold_locales (auto simp: mcp_inv_new intro: mcp_reach_inv)

interpretation cache: keyed_store "\<lambda>w n. get_cached n w" store_server
  by unfold_locales (simp_all add: get_cached_def store_server_def)

interpretation toolbox: keyed_store "\<lambda>tr. dget (tr_tools tr)" register_tool
  by unfold_locales (simp_all add: register_tool_def)

section \<open>What the users of the servers can rely on\<close>

text \<open>Without a managed registry both wrappers raise \<open>NotImplementedError\<close> whatever the tool and
  the wrapped skill do, the skill is never entered, and the temporary server stays
  disconnected.\<close>

lemma unmanaged_wrappers:
  "mcp_skill False server tool fn ctx inputs w =
     (Inl (NotImplementedError (''MCP server '' @ server @ '' not connected'')),
      w\<lparr>mw_heap := mw_heap w @ [new_server server [tool] None]\<rparr>)
   \<and> mcp_tool_wrapper False server tool kwargs w =
     (Inl (NotImplementedError (''MCP server '' @ server @ '' not connected'')),
      w\<lparr>mw_heap := mw_heap w @ [new_server server [tool] None]\<rparr>)"
  by (simp add: mcp_skill_def temporary_call temporary_tool)

text \<open>C27. Caching of servers: in every reachable world, once \<open>get_or_spawn\<close> has returned a server, it
  returns the same server object after any operations of servers and registry except \<open>cleanup\<close>,
  the program's own connections and disconnections included. The server has that name and answers
  every call as before. A server just spawned is connected, and a connected one stays connected
  unless the program disconnects servers.\<close>

theorem managed_cache:
  assumes "mcp_reach UNIV new_world w" and "get_or_spawn n w = (Inr r, w1)" and "mcp_reach C w1 w2" and "Cleaning \<notin> C"
  shows "get_or_spawn n w2 = (Inr r, w2) \<and> sv_name (server_at w2 r) = n
    \<and> fst (server_call_tool r tool args w2) = server_reply (server_at w1 r) tool args
    \<and> (get_cached n w = None \<longrightarrow> sv_connected (server_at w1 r))
    \<and> (sv_connected (server_at w1 r) \<and> Closing \<notin> C \<longrightarrow> sv_connected (server_at w2 r))"
proof -
  have i: "mcp_inv UNIV w" by (rule mcp.reachable_inv [OF refl]) (use assms(1) in blast)
  have i1: "mcp_inv UNIV w1" using mcp_inv_spawn [OF i, of n] assms(2) by simp
  have c1: "dget (mw_servers w1) n = Some r" by (rule get_or_spawn_cached [OF assms(2)])
  have r: "r < length (mw_heap w1)" "sv_name (server_at w1 r) = n" using mcp_inv_cached [OF i1 c1] by simp_all
  have l: "mcp_lasts C w1 w2" by (rule mcp_reach_lasts [OF assms(3)])
  have s: "same_server (server_at w1 r) (server_at w2 r)" "r < length (mw_heap w2)"
    using l r(1) unfolding mcp_lasts_def by auto
  have c2: "dget (mw_servers w2) n = Some r" using l assms(4) c1 unfolding mcp_lasts_def by (metis domI map_le_def)
  have "sv_connected (server_at w1 r)" if u: "dget (mw_servers w) n = None"
    using assms(2) spawn_new [OF u] by (cases "dget (mw_specs w) n") (auto simp: get_or_spawn_def u server_at_def)
  moreover have "sv_connected (server_at w1 r) \<and> Closing \<notin> C \<longrightarrow> sv_connected (server_at w2 r)"
    using l r(1) assms(4) unfolding mcp_lasts_def by blast
  ultimately show ?thesis
    using c2 s r(2) by (simp add: get_or_spawn_def get_cached_def call_reply same_server_def)
qed

definition demo_server_world :: mcp_world where
  "demo_server_world =
     mcp_register ''web'' [''get''] None (Some (\<lambda>tool args. Inr (JStr tool))) new_world"

lemma demo_world_reachable: "mcp_reach C new_world demo_server_world"
  unfolding demo_server_world_def by (rule mcp_reach.register)

theorem managed_cache_witness:
  "\<exists>r w1. get_or_spawn ''web'' demo_server_world = (Inr r, w1)
     \<and> fst (get_or_spawn ''web'' (snd (server_disconnect r w1))) = Inr r
     \<and> fst (server_call_tool r ''get'' JNull (snd (server_disconnect r w1))) = Inr (JStr ''get'')"
proof -
  have "dget (mw_servers demo_server_world) ''web'' = None"
    "\<exists>spec. dget (mw_specs demo_server_world) ''web'' = Some spec"
    by (simp_all add: demo_server_world_def new_world_def mcp_register_def)
  then obtain w1 where s: "get_or_spawn ''web'' demo_server_world = (Inr 0, w1)"
    using spawn_new by (fastforce simp: demo_server_world_def new_world_def mcp_register_def)
  have "mcp_reach {Closing} w1 (snd (server_disconnect 0 w1))" by (rule mcp_reach.disconnect) simp
  moreover have "server_reply (server_at w1 0) ''get'' JNull = Inr (JStr ''get'')"
  proof -
    have "server_reply (server_at (snd (get_or_spawn ''web'' demo_server_world)) 0) ''get'' JNull = Inr (JStr ''get'')"
      by code_simp
    then show ?thesis by (simp add: s)
  qed
  ultimately show ?thesis
    using managed_cache [OF demo_world_reachable s, of "{Closing}" _ "''get''" JNull] s by auto
qed

text \<open>C28. Clean-up after a run: whatever the run did to the servers through the operations of servers and
  registry, and however it ended, \<open>run_sync_with_mcp\<close> gives its result unchanged, empties the cache
  and disconnects every server the cache held. No server at all is left connected if the program
  connects or calls only cached servers, not one it made itself or kept across a \<open>cleanup\<close>.\<close>

theorem run_cleans_up:
  assumes "mcp_reach C new_world w" and "mcp_reach C w (snd (run w))"
  shows "fst (run_sync_with_mcp run w) = fst (run w)
    \<and> mw_servers (snd (run_sync_with_mcp run w)) = []
    \<and> (\<forall>n r. get_cached n (snd (run w)) = Some r \<longrightarrow> \<not> sv_connected (server_at (snd (run_sync_with_mcp run w)) r))
    \<and> (Opening \<notin> C \<longrightarrow> list_all (\<lambda>s. \<not> sv_connected s) (mw_heap (snd (run_sync_with_mcp run w))))"
proof -
  let ?v = "snd (run w)"
  have v: "mcp_inv C ?v" using mcp_reach_inv [OF assms(2)] mcp_reach_inv [OF assms(1) mcp_inv_new] by simp
  then have i: "mcp_inv C (snd (mcp_cleanup ?v))" by (rule mcp_inv_cleanup)
  obtain h where h: "mcp_cleanup ?v = (Inr (), ?v\<lparr>mw_heap := h, mw_servers := []\<rparr>)" "length h = length (mw_heap ?v)"
    "\<forall>i < length h. sv_connected (h ! i) = (sv_connected (mw_heap ?v ! i) \<and> i \<notin> snd ` set (mw_servers ?v))
       \<and> same_server (mw_heap ?v ! i) (h ! i)"
    using cleanup_spec by blast
  have r: "run_sync_with_mcp run w = (fst (run w), snd (mcp_cleanup ?v))"
    by (cases "run w") (use h in \<open>simp add: run_sync_with_mcp_def try_finally_def\<close>)
  have "\<not> sv_connected (server_at (snd (mcp_cleanup ?v)) j)"
    if "Opening \<notin> C" "j < length (mw_heap (snd (mcp_cleanup ?v)))" for j
    using mcp_inv_connected [OF i that] by (auto simp: h(1))
  moreover have "\<not> sv_connected (h ! j)" if c: "dget (mw_servers ?v) n = Some j" for n j
  proof -
    have "j < length h" using mcp_inv_cached [OF v c] h(2) by simp
    moreover have "j \<in> snd ` set (mw_servers ?v)" using c by (force dest: map_of_SomeD)
    ultimately show ?thesis using h(3) by blast
  qed
  ultimately show ?thesis by (simp add: r h(1) list_all_length server_at_def get_cached_def)
qed

theorem run_cleans_up_witness:
  "fst (run_sync_with_mcp (mcp_tool_wrapper True ''web'' ''get'' []) demo_server_world) = Inr (JStr ''get'')
   \<and> list_all (\<lambda>s. \<not> sv_connected s)
       (mw_heap (snd (run_sync_with_mcp (mcp_tool_wrapper True ''web'' ''get'' []) demo_server_world)))"
proof -
  have "fst (mcp_tool_wrapper True ''web'' ''get'' [] demo_server_world) = Inr (JStr ''get'')"
    by code_simp
  then show ?thesis
    using run_cleans_up [OF demo_world_reachable, of "{Cleaning, Closing}" "mcp_tool_wrapper True ''web'' ''get'' []",
        OF mcp_reach.tool]
    by simp
qed

text \<open>The server a name stands for: the cached one, else the one its specification describes.\<close>

definition server_for :: "mcp_world \<Rightarrow> string \<Rightarrow> mcp_server option" where
  "server_for w n =
     (case dget (mw_servers w) n of
        Some r \<Rightarrow> Some (server_at w r)
      | None \<Rightarrow> map_option (\<lambda>sp. new_server n (sp_tools sp) (sp_handler sp)) (dget (mw_specs w) n))"

lemma managed_tool_reply:
  assumes "mcp_inv C w"
  shows "fst (mcp_tool_wrapper True server tool kwargs w) =
    (case server_for w server of
       None \<Rightarrow> Inl (ValueError (''Unknown MCP server: '' @ server @ ''. Register it first.''))
     | Some s \<Rightarrow> server_reply s tool (JObj kwargs))"
proof (cases "dget (mw_servers w) server")
  case (Some r)
  then show ?thesis using mcp_inv_cached [OF assms Some]
    by (simp add: managed_tool get_or_spawn_def server_for_def call_reply)
next
  case None
  show ?thesis
  proof (cases "dget (mw_specs w) server")
    case (Some spec)
    then show ?thesis using None
      by (simp add: managed_tool spawn_new server_for_def call_reply server_at_def server_reply_def)
  qed (simp add: managed_tool get_or_spawn_def server_for_def None)
qed

text \<open>C29. Direct tool calls: in every reachable world, a call of a registered MCP tool through the tool
  registry rejects arguments that repeat a parameter. With a managed registry it otherwise answers as
  the server does, connected or not, and raises for an unknown server; without one it raises
  \<open>NotImplementedError\<close>. Other tools keep their functions.\<close>

theorem registered_tool_call:
  assumes "mcp_reach UNIV new_world w"
  shows "fst (tool_call (snd (register_mcp_tool namespace server tool tr)) namespace kwargs w) =
      (if ''self'' \<in> fst ` set kwargs \<or> ''name'' \<in> fst ` set kwargs then Inl TypeError
       else if tr_managed tr then
         (case server_for w server of
            None \<Rightarrow> Inl (ValueError (''Unknown MCP server: '' @ server @ ''. Register it first.''))
          | Some s \<Rightarrow> server_reply s tool (JObj kwargs))
       else Inl (NotImplementedError (''MCP server '' @ server @ '' not connected'')))
    \<and> (other = namespace \<or> tool_call (snd (register_mcp_tool namespace server tool tr)) other = tool_call tr other)"
proof -
  have "mcp_inv UNIV w" using mcp_reach_inv [OF assms mcp_inv_new] .
  note reply = managed_tool_reply [OF this]
  have reg: "snd (register_mcp_tool namespace server tool tr)
      = register_tool namespace (mcp_tool_wrapper (tr_managed tr) server tool) tr"
    by (simp add: register_mcp_tool_def register_tool_def Let_def)
  show ?thesis
    by (cases "tr_managed tr")
      (auto simp: reg tool_call_def kwargs_clash_def toolbox.lookup_store reply temporary_tool fun_eq_iff)
qed

theorem registered_tool_call_witness:
  "fst (tool_call (snd (register_mcp_tool ''mcp.web.get'' ''web'' ''get'' (new_tool_registry True)))
     ''mcp.web.get'' [(''url'', JStr ''u'')] demo_server_world) = Inr (JStr ''get'')"
proof -
  have "server_for demo_server_world ''web''
      = Some (new_server ''web'' [''get''] (Some (\<lambda>tool args. Inr (JStr tool))))"
    by (simp add: server_for_def demo_server_world_def mcp_register_def new_world_def)
  then show ?thesis
    using registered_tool_call [OF demo_world_reachable, of "''mcp.web.get''" "''web''" "''get''" "new_tool_registry True"
        "[(''url'', JStr ''u'')]"]
    by (simp add: new_tool_registry_def server_reply_def mcp_reply_def)
qed

end
