(* ===== verification/Parallelism.thy ===== *)
theory Parallelism
  imports Task_Execution
begin

text \<open>
  The bound on parallel work in \<open>Orchestrator._execute_task\<close> of
  \<open>sdk-python/orchestrator/engine.py\<close>: all coroutines of a run share one
  \<open>asyncio.Semaphore(max_parallel)\<close>, and each attempt holds it from its entry into
  \<open>async with sem\<close> through the rate buckets and the handler to its end. The theory follows
  every coroutine through the points where it can be suspended (\<open>phase\<close>), with the semaphore
  of the standard library: a counter and a queue of waiters, of which a released permit wakes
  the first. A state is left by an event of one coroutine; the events interleave freely. A synchronous
  handler that a timeout cuts off goes on in its thread; what is bounded are the handlers a
  coroutine awaits.
\<close>

section \<open>Phases and the semaphore\<close>

text \<open>The number is that of the attempt. \<open>Granted\<close>: the permit is assigned, the coroutine has
  not resumed yet. \<open>Limiting\<close>: inside the \<open>async with\<close>, before the handler.\<close>

datatype phase =
    Idle
  | Waiting int
  | Granted int
  | Limiting int
  | Handling int
  | Sleeping int
  | Over

fun holds_permit :: "phase \<Rightarrow> bool" where
  "holds_permit (Granted k) = True"
| "holds_permit (Limiting k) = True"
| "holds_permit (Handling k) = True"
| "holds_permit _ = False"

fun is_waiting :: "phase \<Rightarrow> bool" where
  "is_waiting (Waiting k) = True"
| "is_waiting _ = False"

fun is_queued :: "phase \<Rightarrow> bool" where
  "is_queued (Waiting k) = True"
| "is_queued (Granted k) = True"
| "is_queued _ = False"

fun is_handling :: "phase \<Rightarrow> bool" where
  "is_handling (Handling k) = True"
| "is_handling _ = False"

fun attempt_no :: "phase \<Rightarrow> int option" where
  "attempt_no (Waiting k) = Some k"
| "attempt_no (Granted k) = Some k"
| "attempt_no (Limiting k) = Some k"
| "attempt_no (Handling k) = Some k"
| "attempt_no (Sleeping k) = Some k"
| "attempt_no _ = None"

record slots =
  sl_value :: int
  sl_waiters :: "string list"
  sl_phase :: "(string, phase) dict"

definition phase_of :: "slots \<Rightarrow> string \<Rightarrow> phase" where
  "phase_of s t = (case dget (sl_phase s) t of None \<Rightarrow> Over | Some p \<Rightarrow> p)"

definition set_phase :: "string \<Rightarrow> phase \<Rightarrow> slots \<Rightarrow> slots" where
  "set_phase t p s = s\<lparr>sl_phase := dset t p (sl_phase s)\<rparr>"

text \<open>\<open>_wake_up_next\<close>: the first waiter whose future is not done gets a permit.\<close>

definition grant :: "string \<Rightarrow> slots \<Rightarrow> slots" where
  "grant t s = (case phase_of s t of
     Waiting k \<Rightarrow> set_phase t (Granted k) (s\<lparr>sl_value := sl_value s - 1\<rparr>)
   | _ \<Rightarrow> s)"

definition wake_next :: "slots \<Rightarrow> slots" where
  "wake_next s = (case find (\<lambda>t. is_waiting (phase_of s t)) (sl_waiters s) of None \<Rightarrow> s | Some t \<Rightarrow> grant t s)"

text \<open>The loop at the end of \<open>acquire\<close>: as many waiters as there are permits.\<close>

fun wake_all :: "nat \<Rightarrow> slots \<Rightarrow> slots" where
  "wake_all 0 s = s"
| "wake_all (Suc n) s = (if 0 < sl_value s then wake_all n (wake_next s) else s)"

definition sem_locked :: "slots \<Rightarrow> bool" where
  "sem_locked s \<longleftrightarrow> sl_value s = 0 \<or> sl_waiters s \<noteq> []"

definition sem_acquire :: "int \<Rightarrow> string \<Rightarrow> slots \<Rightarrow> slots" where
  "sem_acquire k t s =
     (if sem_locked s then set_phase t (Waiting k) (s\<lparr>sl_waiters := sl_waiters s @ [t]\<rparr>)
      else set_phase t (Limiting k) (s\<lparr>sl_value := sl_value s - 1\<rparr>))"

definition sem_release :: "slots \<Rightarrow> slots" where
  "sem_release s = wake_next (s\<lparr>sl_value := sl_value s + 1\<rparr>)"

definition leave_queue :: "string \<Rightarrow> slots \<Rightarrow> slots" where
  "leave_queue t s = s\<lparr>sl_waiters := remove1 t (sl_waiters s)\<rparr>"

section \<open>The events of a coroutine\<close>

text \<open>\<open>bound t\<close> is the number of attempts of the task, \<open>retry.max + 1\<close>.\<close>

definition enter_attempt :: "(string \<Rightarrow> int) \<Rightarrow> int \<Rightarrow> string \<Rightarrow> slots \<Rightarrow> slots" where
  "enter_attempt bound k t s = (if k \<le> bound t then sem_acquire k t s else set_phase t Over s)"

datatype slot_event =
    Start string
  | Resume string
  | Limited string
  | Complete string
  | Fail string
  | Wake string
  | Cancel string

text \<open>\<open>Complete\<close>: the handler returned. \<open>Fail\<close>: an exception or a timeout; the permit is
  released before the pause. \<open>Cancel\<close>: a fail-fast elsewhere; a permit that is held, or that was
  just granted, goes back.\<close>

fun apply_event :: "(string \<Rightarrow> int) \<Rightarrow> slot_event \<Rightarrow> slots \<Rightarrow> slots option" where
  "apply_event bound (Start t) s =
     (case phase_of s t of Idle \<Rightarrow> Some (enter_attempt bound 1 t s) | _ \<Rightarrow> None)"
| "apply_event bound (Resume t) s =
     (case phase_of s t of
        Granted k \<Rightarrow> Some (wake_all (length (sl_waiters s)) (set_phase t (Limiting k) (leave_queue t s)))
      | _ \<Rightarrow> None)"
| "apply_event bound (Limited t) s =
     (case phase_of s t of Limiting k \<Rightarrow> Some (set_phase t (Handling k) s) | _ \<Rightarrow> None)"
| "apply_event bound (Complete t) s =
     (case phase_of s t of Handling k \<Rightarrow> Some (sem_release (set_phase t Over s)) | _ \<Rightarrow> None)"
| "apply_event bound (Fail t) s =
     (case phase_of s t of
        Handling k \<Rightarrow> Some (sem_release (set_phase t (if k < bound t then Sleeping k else Over) s))
      | _ \<Rightarrow> None)"
| "apply_event bound (Wake t) s =
     (case phase_of s t of Sleeping k \<Rightarrow> Some (enter_attempt bound (k + 1) t s) | _ \<Rightarrow> None)"
| "apply_event bound (Cancel t) s =
     (case phase_of s t of
        Idle \<Rightarrow> Some (set_phase t Over s)
      | Waiting k \<Rightarrow> Some (wake_all (length (sl_waiters s)) (set_phase t Over (leave_queue t s)))
      | Granted k \<Rightarrow> Some (wake_all (length (sl_waiters s))
          (set_phase t Over ((leave_queue t s)\<lparr>sl_value := sl_value s + 1\<rparr>)))
      | Limiting k \<Rightarrow> Some (sem_release (set_phase t Over s))
      | Handling k \<Rightarrow> Some (sem_release (set_phase t Over s))
      | Sleeping k \<Rightarrow> Some (set_phase t Over s)
      | Over \<Rightarrow> None)"

inductive slot_step :: "(string \<Rightarrow> int) \<Rightarrow> slots \<Rightarrow> slots \<Rightarrow> bool" for bound where
  "apply_event bound e s = Some s' \<Longrightarrow> slot_step bound s s'"

abbreviation slot_steps :: "(string \<Rightarrow> int) \<Rightarrow> slots \<Rightarrow> slots \<Rightarrow> bool" where
  "slot_steps bound \<equiv> (slot_step bound)\<^sup>*\<^sup>*"

definition init_slots :: "int \<Rightarrow> string list \<Rightarrow> slots" where
  "init_slots cap ids = \<lparr>sl_value = cap, sl_waiters = [], sl_phase = map (\<lambda>t. (t, Idle)) ids\<rparr>"

definition attempt_limit :: "workflow \<Rightarrow> string \<Rightarrow> int" where
  "attempt_limit w tid = (case dget (task_map w) tid of None \<Rightarrow> 0 | Some t \<Rightarrow> rt_max (task_retry w t) + 1)"

definition run_slots :: "workflow \<Rightarrow> slots" where
  "run_slots w = init_slots (wf_max_parallel w) (task_ids w)"

fun run_events :: "(string \<Rightarrow> int) \<Rightarrow> slot_event list \<Rightarrow> slots \<Rightarrow> slots option" where
  "run_events bound [] s = Some s"
| "run_events bound (e # es) s = (case apply_event bound e s of None \<Rightarrow> None | Some s' \<Rightarrow> run_events bound es s')"

section \<open>Counting phases\<close>

definition count_phase :: "(phase \<Rightarrow> bool) \<Rightarrow> slots \<Rightarrow> int" where
  "count_phase P s = int (length (filter (\<lambda>(t, p). P p) (sl_phase s)))"

lemma phase_of_set [simp]: "phase_of (set_phase t p s) u = (if u = t then p else phase_of s u)"
  by (simp add: phase_of_def set_phase_def)

lemma set_phase_simps [simp]:
  "sl_value (set_phase t p s) = sl_value s" "sl_waiters (set_phase t p s) = sl_waiters s"
  by (simp_all add: set_phase_def)

lemma distinct_set_phase [simp]:
  "distinct (dkeys (sl_phase (set_phase t p s))) = distinct (dkeys (sl_phase s))"
  by (simp add: set_phase_def)

lemma leave_queue_simps [simp]:
  "sl_value (leave_queue t s) = sl_value s" "sl_waiters (leave_queue t s) = remove1 t (sl_waiters s)"
  "phase_of (leave_queue t s) = phase_of s" "sl_phase (leave_queue t s) = sl_phase s"
  "count_phase P (leave_queue t s) = count_phase P s"
  by (simp_all add: leave_queue_def phase_of_def count_phase_def fun_eq_iff)

lemma frame_simps [simp]:
  "phase_of (s\<lparr>sl_value := v\<rparr>) = phase_of s" "phase_of (s\<lparr>sl_waiters := ws\<rparr>) = phase_of s"
  "count_phase P (s\<lparr>sl_value := v\<rparr>) = count_phase P s" "count_phase P (s\<lparr>sl_waiters := ws\<rparr>) = count_phase P s"
  by (simp_all add: phase_of_def count_phase_def fun_eq_iff)

lemma count_dset:
  "distinct (dkeys d) \<Longrightarrow> dget d t = Some p \<Longrightarrow>
     int (length (filter (\<lambda>(t, p). P p) (dset t q d)))
       = int (length (filter (\<lambda>(t, p). P p) d)) - of_bool (P p) + of_bool (P q)"
proof (induction t q d rule: dset.induct)
  case (2 k v k' v' d)
  show ?case
  proof (cases "k = k'")
    case True
    then show ?thesis using "2.prems" by auto
  next
    case False
    then show ?thesis using 2 by auto
  qed
qed simp

definition known :: "slots \<Rightarrow> string \<Rightarrow> bool" where
  "known s t \<longleftrightarrow> t \<in> set (dkeys (sl_phase s))"

lemma count_set_phase:
  assumes "distinct (dkeys (sl_phase s))" and "known s t"
  shows "count_phase P (set_phase t q s) = count_phase P s - of_bool (P (phase_of s t)) + of_bool (P q)"
proof -
  obtain p where "dget (sl_phase s) t = Some p"
    using assms(2) by (cases "dget (sl_phase s) t") (auto simp: known_def map_of_eq_None_iff)
  then show ?thesis using count_dset [OF assms(1)] by (simp add: count_phase_def set_phase_def phase_of_def)
qed

lemma known_phase: "phase_of s t \<noteq> Over \<Longrightarrow> known s t"
  by (auto simp: phase_of_def known_def dest: dget_Some_key split: option.splits)

lemma known_simps [simp]:
  "known (s\<lparr>sl_value := v\<rparr>) t = known s t" "known (s\<lparr>sl_waiters := ws\<rparr>) t = known s t"
  "known (leave_queue u s) t = known s t" "known (set_phase u p s) t \<longleftrightarrow> t = u \<or> known s t"
  by (auto simp: known_def leave_queue_def set_phase_def)

lemma count_nonneg: "0 \<le> count_phase P s"
  by (simp add: count_phase_def)

lemma count_mono: "(\<And>p. P p \<Longrightarrow> Q p) \<Longrightarrow> count_phase P s \<le> count_phase Q s"
proof -
  assume a: "\<And>p. P p \<Longrightarrow> Q p"
  have "length (filter (\<lambda>(t, p). P p) d) \<le> length (filter (\<lambda>(t, p). Q p) d)" for d :: "(string, phase) dict"
    by (induction d) (use a in auto)
  then show ?thesis by (simp add: count_phase_def)
qed

section \<open>The accounts of the semaphore\<close>

text \<open>Permits are neither lost nor invented: those left and those held are \<open>cap\<close> together; the
  queue is exactly the coroutines that wait or were just granted.\<close>

definition balanced :: "int \<Rightarrow> slots \<Rightarrow> bool" where
  "balanced cap s \<longleftrightarrow> distinct (dkeys (sl_phase s)) \<and> distinct (sl_waiters s)
     \<and> (\<forall>t. t \<in> set (sl_waiters s) \<longleftrightarrow> is_queued (phase_of s t))
     \<and> sl_value s + count_phase holds_permit s = cap \<and> 0 \<le> sl_value s"

text \<open>No permit lies idle while a coroutine waits, unless one that was granted its permit is about
  to resume (it wakes the others then).\<close>

definition work_conserving :: "slots \<Rightarrow> bool" where
  "work_conserving s \<longleftrightarrow> sl_value s = 0 \<or> (\<forall>t. \<not> is_waiting (phase_of s t)) \<or> (\<exists>t k. phase_of s t = Granted k)"

lemma is_waiting_queued: "is_waiting p \<Longrightarrow> is_queued p"
  by (cases p) auto

lemma balanced_known: "balanced cap s \<Longrightarrow> t \<in> set (sl_waiters s) \<Longrightarrow> known s t"
  by (rule known_phase) (auto simp: balanced_def)

lemma grant_balanced:
  assumes "balanced cap s" and "0 < sl_value s" and "is_waiting (phase_of s t)"
  shows "balanced cap (grant t s) \<and> sl_value (grant t s) = sl_value s - 1
    \<and> phase_of (grant t s) = (phase_of s)(t := (case phase_of s t of Waiting k \<Rightarrow> Granted k | p \<Rightarrow> p))"
proof -
  obtain k where k: "phase_of s t = Waiting k" using assms(3) by (cases "phase_of s t") auto
  have g: "grant t s = set_phase t (Granted k) (s\<lparr>sl_value := sl_value s - 1\<rparr>)" by (simp add: grant_def k)
  have kn: "known s t" by (rule known_phase) (simp add: k)
  have d: "distinct (dkeys (sl_phase s))" using assms(1) by (simp add: balanced_def)
  have "count_phase holds_permit (grant t s) = count_phase holds_permit s + 1"
    using count_set_phase [of "s\<lparr>sl_value := sl_value s - 1\<rparr>" t holds_permit "Granted k"] d kn k
    by (simp add: g)
  moreover have "distinct (dkeys (sl_phase (grant t s)))" using d by (simp add: g set_phase_def)
  moreover have "u \<in> set (sl_waiters s) \<longleftrightarrow> is_queued (phase_of (grant t s) u)" for u
    using assms(1) k by (auto simp: balanced_def g)
  ultimately have "balanced cap (grant t s)" using assms(1,2) by (simp add: balanced_def g)
  then show ?thesis by (simp add: g k fun_eq_iff)
qed

text \<open>Waking changes waiting coroutines to granted ones and nothing else.\<close>

definition woken :: "slots \<Rightarrow> slots \<Rightarrow> bool" where
  "woken s s' \<longleftrightarrow> sl_waiters s' = sl_waiters s \<and> dkeys (sl_phase s') = dkeys (sl_phase s)
     \<and> (\<forall>t. phase_of s' t = phase_of s t \<or> (\<exists>k. phase_of s t = Waiting k \<and> phase_of s' t = Granted k))"

lemma woken_refl [simp]: "woken s s"
  by (simp add: woken_def)

lemma woken_trans: "woken s u \<Longrightarrow> woken u v \<Longrightarrow> woken s v"
  unfolding woken_def by (metis phase.distinct(13))

lemma dkeys_set_phase: "known s t \<Longrightarrow> dkeys (sl_phase (set_phase t p s)) = dkeys (sl_phase s)"
  by (simp add: set_phase_def known_def dkeys_dset_old)

lemma wake_next_none: "balanced cap s \<Longrightarrow> \<forall>t. \<not> is_waiting (phase_of s t) \<Longrightarrow> wake_next s = s"
proof -
  assume "\<forall>t. \<not> is_waiting (phase_of s t)"
  then have "find (\<lambda>t. is_waiting (phase_of s t)) (sl_waiters s) = None" by (simp add: find_None_iff)
  then show ?thesis by (simp add: wake_next_def)
qed

lemma wake_next_some:
  assumes "balanced cap s" and "0 < sl_value s" and "is_waiting (phase_of s t)"
  shows "balanced cap (wake_next s) \<and> sl_value (wake_next s) = sl_value s - 1 \<and> woken s (wake_next s)
    \<and> (\<exists>u k. phase_of (wake_next s) u = Granted k)
    \<and> length (filter (\<lambda>u. is_waiting (phase_of s u)) (sl_waiters s))
      = Suc (length (filter (\<lambda>u. is_waiting (phase_of (wake_next s) u)) (sl_waiters s)))"
proof -
  have "t \<in> set (sl_waiters s)" using assms(1,3) is_waiting_queued by (simp add: balanced_def)
  then obtain u where u: "find (\<lambda>t. is_waiting (phase_of s t)) (sl_waiters s) = Some u"
    using assms(3) by (cases "find (\<lambda>t. is_waiting (phase_of s t)) (sl_waiters s)") (auto simp: find_None_iff)
  then have w: "is_waiting (phase_of s u)" "u \<in> set (sl_waiters s)"
    by (auto simp: find_Some_iff)
  then obtain k where k: "phase_of s u = Waiting k" by (cases "phase_of s u") auto
  have e: "wake_next s = grant u s" by (simp add: wake_next_def u)
  note g = grant_balanced [OF assms(1,2) w(1)]
  have kn: "known s u" by (rule known_phase) (simp add: k)
  have "woken s (wake_next s)"
    using kn by (simp add: woken_def e grant_def k dkeys_set_phase)
  moreover have "phase_of (wake_next s) u = Granted k" by (simp add: e g k)
  moreover have fu: "\<not> is_waiting (phase_of (wake_next s) u)" "is_waiting (phase_of s u)"
    and fo: "\<And>v. v \<noteq> u \<Longrightarrow> phase_of (wake_next s) v = phase_of s v" by (simp_all add: e g k)
  have "length (filter (\<lambda>v. is_waiting (phase_of s v)) ws)
      = Suc (length (filter (\<lambda>v. is_waiting (phase_of (wake_next s) v)) ws))"
    if "distinct ws" "u \<in> set ws" for ws
    using that
  proof (induction ws)
    case (Cons v ws)
    have "u \<notin> set ws \<Longrightarrow> filter (\<lambda>v. is_waiting (phase_of (wake_next s) v)) ws = filter (\<lambda>v. is_waiting (phase_of s v)) ws"
      by (intro filter_cong refl) (metis fo)
    then show ?case using Cons fu fo [of v] by (cases "u = v") simp_all
  qed simp
  ultimately show ?thesis using g w(2) assms(1) by (auto simp: e balanced_def)
qed

lemma wake_all_spec:
  assumes "balanced cap s" and "length (filter (\<lambda>t. is_waiting (phase_of s t)) (sl_waiters s)) \<le> n"
  shows "balanced cap (wake_all n s) \<and> work_conserving (wake_all n s) \<and> woken s (wake_all n s)"
  using assms
proof (induction n arbitrary: s)
  case 0
  have "\<not> is_waiting (phase_of s t)" for t
    using 0 is_waiting_queued [of "phase_of s t"] by (auto simp: balanced_def filter_empty_conv)
  then show ?case using 0 by (simp add: work_conserving_def)
next
  case (Suc n)
  show ?case
  proof (cases "0 < sl_value s")
    case False
    then show ?thesis using Suc.prems by (simp add: work_conserving_def balanced_def)
  next
    case True
    show ?thesis
    proof (cases "\<exists>t. is_waiting (phase_of s t)")
      case False
      then have "wake_next s = s" using wake_next_none [OF Suc.prems(1)] by blast
      moreover have "wake_all n s = s" if "wake_next s = s" using that by (induction n) auto
      ultimately show ?thesis using Suc.prems False True by (simp add: work_conserving_def)
    next
      case wt: True
      then obtain t where t: "is_waiting (phase_of s t)" ..
      note w = wake_next_some [OF Suc.prems(1) True t]
      have "sl_waiters (wake_next s) = sl_waiters s" using w by (simp add: woken_def)
      then have "balanced cap (wake_all n (wake_next s)) \<and> work_conserving (wake_all n (wake_next s))
          \<and> woken (wake_next s) (wake_all n (wake_next s))"
        using w Suc.prems(2) by (intro Suc.IH) simp_all
      then show ?thesis using True w woken_trans by auto
    qed
  qed
qed

lemma sem_release_spec:
  assumes "balanced (cap - 1) s"
  shows "balanced cap (sem_release s) \<and> work_conserving (sem_release s)
    \<and> woken (s\<lparr>sl_value := sl_value s + 1\<rparr>) (sem_release s)"
proof -
  let ?s = "s\<lparr>sl_value := sl_value s + 1\<rparr>"
  have b: "balanced cap ?s" "0 < sl_value ?s" using assms by (auto simp: balanced_def)
  show ?thesis
  proof (cases "\<exists>t. is_waiting (phase_of s t)")
    case False
    then have "wake_next ?s = ?s" using wake_next_none [OF b(1)] by simp
    then show ?thesis using b False by (simp add: sem_release_def work_conserving_def)
  next
    case True
    then obtain t where t: "is_waiting (phase_of ?s t)" by auto
    then show ?thesis using wake_next_some [OF b t] by (simp add: sem_release_def work_conserving_def)
  qed
qed

section \<open>Every event keeps the accounts\<close>

definition numbered :: "(string \<Rightarrow> int) \<Rightarrow> slots \<Rightarrow> bool" where
  "numbered bound s \<longleftrightarrow> (\<forall>t k. attempt_no (phase_of s t) = Some k \<longrightarrow> 1 \<le> k \<and> k \<le> bound t)"

definition slots_inv :: "(string \<Rightarrow> int) \<Rightarrow> int \<Rightarrow> slots \<Rightarrow> bool" where
  "slots_inv bound cap s \<longleftrightarrow> balanced cap s \<and> work_conserving s \<and> numbered bound s"

lemma numbered_woken: "numbered bound s \<Longrightarrow> woken s s' \<Longrightarrow> numbered bound s'"
  unfolding numbered_def woken_def by (metis attempt_no.simps(1,2))

lemma numbered_set: "numbered bound s \<Longrightarrow> (\<And>k. attempt_no p = Some k \<Longrightarrow> 1 \<le> k \<and> k \<le> bound t) \<Longrightarrow>
    numbered bound (set_phase t p s)"
  by (simp add: numbered_def)

lemma numberedD: "numbered bound s \<Longrightarrow> attempt_no (phase_of s t) = Some k \<Longrightarrow> 1 \<le> k \<and> k \<le> bound t"
  by (simp add: numbered_def)

lemma numbered_Over [simp]: "numbered bound s \<Longrightarrow> numbered bound (set_phase t Over s)"
  by (simp add: numbered_def)

lemma numbered_frame [simp]:
  "numbered bound (s\<lparr>sl_value := v\<rparr>) = numbered bound s" "numbered bound (s\<lparr>sl_waiters := ws\<rparr>) = numbered bound s"
  "numbered bound (leave_queue t s) = numbered bound s"
  by (simp_all add: numbered_def)

lemma conserving_change:
  "work_conserving s \<Longrightarrow> \<not> is_waiting p \<Longrightarrow> (\<forall>k. phase_of s t \<noteq> Granted k) \<Longrightarrow> work_conserving (set_phase t p s)"
  unfolding work_conserving_def by (auto; metis)

lemma balanced_value: "balanced cap s \<Longrightarrow> 0 \<le> sl_value s + d \<Longrightarrow> balanced (cap + d) (s\<lparr>sl_value := sl_value s + d\<rparr>)"
  by (simp add: balanced_def)

text \<open>A coroutine changes its phase outside the queue, leaves the queue, or joins it.\<close>

lemma change_phase:
  assumes "balanced cap s" and "known s t" and "\<not> is_queued (phase_of s t)" and "\<not> is_queued p"
  shows "balanced (cap - of_bool (holds_permit (phase_of s t)) + of_bool (holds_permit p)) (set_phase t p s)"
proof -
  have d: "distinct (dkeys (sl_phase s))" using assms(1) by (simp add: balanced_def)
  have "u \<in> set (sl_waiters s) \<longleftrightarrow> is_queued (phase_of (set_phase t p s) u)" for u
    using assms(1,3,4) by (auto simp: balanced_def)
  then show ?thesis
    using assms(1) d count_set_phase [OF d assms(2)] by (simp add: balanced_def del: distinct_map)
qed

lemma leave_phase:
  assumes "balanced cap s" and "is_queued (phase_of s t)" and "\<not> is_queued p"
  shows "balanced (cap - of_bool (holds_permit (phase_of s t)) + of_bool (holds_permit p)) (set_phase t p (leave_queue t s))"
proof -
  have kn: "known s t" by (rule known_phase) (use assms(2) in auto)
  have d: "distinct (dkeys (sl_phase s))" "distinct (sl_waiters s)" using assms(1) by (simp_all add: balanced_def)
  have "u \<in> set (remove1 t (sl_waiters s)) \<longleftrightarrow> is_queued (phase_of (set_phase t p (leave_queue t s)) u)" for u
    using assms(1,3) d(2) by (auto simp: balanced_def)
  then show ?thesis
    using assms(1) d count_set_phase [of "leave_queue t s" t] kn
    by (simp add: balanced_def del: distinct_map)
qed

lemma join_phase:
  assumes "balanced cap s" and "known s t" and "\<not> is_queued (phase_of s t)"
  shows "balanced (cap - of_bool (holds_permit (phase_of s t)))
    (set_phase t (Waiting k) (s\<lparr>sl_waiters := sl_waiters s @ [t]\<rparr>))"
proof -
  have d: "distinct (dkeys (sl_phase s))" using assms(1) by (simp add: balanced_def)
  have "u \<in> set (sl_waiters s @ [t]) \<longleftrightarrow> is_queued (phase_of (set_phase t (Waiting k) s) u)" for u
    using assms(1) by (auto simp: balanced_def)
  moreover have "t \<notin> set (sl_waiters s)" using assms(1,3) by (simp add: balanced_def)
  ultimately show ?thesis
    using assms(1) d count_set_phase [of "s\<lparr>sl_waiters := sl_waiters s @ [t]\<rparr>" t] assms(2)
    by (simp add: balanced_def del: distinct_map)
qed

lemma enter_attempt_inv:
  assumes i: "slots_inv bound cap s" and kn: "known s t" and p: "phase_of s t = Idle \<or> phase_of s t = Sleeping j"
    and k: "1 \<le> k"
  shows "slots_inv bound cap (enter_attempt bound k t s)"
proof -
  have b: "balanced cap s" "work_conserving s" "numbered bound s" using i by (simp_all add: slots_inv_def)
  have np: "\<not> is_queued (phase_of s t)" "\<not> holds_permit (phase_of s t)" "\<forall>k. phase_of s t \<noteq> Granted k"
    using p by auto
  consider "bound t < k" | "k \<le> bound t" "sem_locked s" | "k \<le> bound t" "\<not> sem_locked s" by linarith
  then show ?thesis
  proof cases
    case 1
    then show ?thesis using change_phase [OF b(1) kn np(1), of Over] np conserving_change [OF b(2)] b(3)
      by (simp add: enter_attempt_def slots_inv_def)
  next
    case 2
    let ?s = "set_phase t (Waiting k) (s\<lparr>sl_waiters := sl_waiters s @ [t]\<rparr>)"
    have "work_conserving ?s"
    proof (cases "sl_value s = 0 \<or> (\<exists>u k. phase_of s u = Granted k)")
      case True
      then show ?thesis using np(3) by (auto simp: work_conserving_def)
    next
      case False
      then obtain u where "u \<in> set (sl_waiters s)" using 2(2) by (cases "sl_waiters s") (auto simp: sem_locked_def)
      then have "is_queued (phase_of s u)" using b(1) by (simp add: balanced_def)
      then show ?thesis using False b(2) by (cases "phase_of s u") (auto simp: work_conserving_def dest: spec [of _ u])
    qed
    moreover have "numbered bound ?s" by (rule numbered_set) (use b(3) k 2(1) in auto)
    ultimately show ?thesis
      using 2 join_phase [OF b(1) kn np(1), of k] np(2) by (simp add: enter_attempt_def sem_acquire_def slots_inv_def)
  next
    case 3
    let ?v = "s\<lparr>sl_value := sl_value s - 1\<rparr>"
    have "balanced (cap - 1) ?v" using balanced_value [OF b(1), of "- 1"] b(1) 3(2) by (auto simp: sem_locked_def balanced_def)
    then have "balanced cap (set_phase t (Limiting k) ?v)"
      using change_phase [of "cap - 1" ?v t "Limiting k"] kn np by simp
    moreover have "work_conserving (set_phase t (Limiting k) ?v)"
      using 3(2) b(1) is_waiting_queued by (auto simp: work_conserving_def sem_locked_def balanced_def)
    moreover have "numbered bound (set_phase t (Limiting k) ?v)" by (rule numbered_set) (use b(3) k 3(1) in auto)
    ultimately show ?thesis using 3 by (simp add: enter_attempt_def sem_acquire_def slots_inv_def)
  qed
qed

lemma release_inv:
  assumes i: "slots_inv bound cap s" and p: "phase_of s t = Limiting k \<or> phase_of s t = Handling k"
    and q: "q = Over \<or> q = Sleeping k"
  shows "slots_inv bound cap (sem_release (set_phase t q s))"
proof -
  have kn: "known s t" by (rule known_phase) (use p in auto)
  have b: "balanced cap s" "numbered bound s" using i by (simp_all add: slots_inv_def)
  have "balanced (cap - 1) (set_phase t q s)"
    using change_phase [OF b(1) kn, of q] p q by auto
  note r = sem_release_spec [OF this]
  have "attempt_no (phase_of s t) = Some k" using p by auto
  then have "1 \<le> k \<and> k \<le> bound t" using b(2) unfolding numbered_def by blast
  then have "numbered bound ((set_phase t q s)\<lparr>sl_value := sl_value s + 1\<rparr>)"
    using numbered_set [OF b(2), of q t] q by auto
  then have "numbered bound (sem_release (set_phase t q s))"
    by (rule numbered_woken) (use r in simp)
  then show ?thesis using r by (simp add: slots_inv_def)
qed

lemma leave_inv:
  assumes "balanced cap (set_phase t q (leave_queue t s))" and "numbered bound s"
    and "\<And>k. attempt_no q = Some k \<Longrightarrow> 1 \<le> k \<and> k \<le> bound t"
  shows "slots_inv bound cap (wake_all (length (sl_waiters s)) (set_phase t q (leave_queue t s)))"
proof -
  have "length (filter P (remove1 t ws)) \<le> length ws" for P and ws :: "string list"
    by (metis length_filter_le length_remove1 le_trans diff_le_self)
  then have "balanced cap (wake_all (length (sl_waiters s)) (set_phase t q (leave_queue t s)))
    \<and> work_conserving (wake_all (length (sl_waiters s)) (set_phase t q (leave_queue t s)))
    \<and> woken (set_phase t q (leave_queue t s)) (wake_all (length (sl_waiters s)) (set_phase t q (leave_queue t s)))"
    by (intro wake_all_spec [OF assms(1)]) simp
  then show ?thesis
    using numbered_woken numbered_set [of bound "leave_queue t s" q t] assms(2,3) by (auto simp: slots_inv_def)
qed

lemma queued_inv:
  assumes i: "slots_inv bound cap s"
  shows "phase_of s t = Granted k \<Longrightarrow> slots_inv bound cap (wake_all (length (sl_waiters s)) (set_phase t (Limiting k) (leave_queue t s)))"
    and "phase_of s t = Waiting k \<Longrightarrow> slots_inv bound cap (wake_all (length (sl_waiters s)) (set_phase t Over (leave_queue t s)))"
    and "phase_of s t = Granted k \<Longrightarrow> slots_inv bound cap (wake_all (length (sl_waiters s))
        (set_phase t Over ((leave_queue t s)\<lparr>sl_value := sl_value s + 1\<rparr>)))"
proof -
  have b: "balanced cap s" "numbered bound s" using i by (simp_all add: slots_inv_def)
  have k: "1 \<le> k \<and> k \<le> bound t" if "attempt_no (phase_of s t) = Some k"
    using b(2) that unfolding numbered_def by blast
  show "phase_of s t = Granted k \<Longrightarrow> slots_inv bound cap (wake_all (length (sl_waiters s)) (set_phase t (Limiting k) (leave_queue t s)))"
    using leave_phase [OF b(1), of t "Limiting k"] k by (intro leave_inv b(2)) auto
  show "phase_of s t = Waiting k \<Longrightarrow> slots_inv bound cap (wake_all (length (sl_waiters s)) (set_phase t Over (leave_queue t s)))"
    using leave_phase [OF b(1), of t Over] by (intro leave_inv b(2)) auto
  let ?v = "s\<lparr>sl_value := sl_value s + 1\<rparr>"
  have e: "(leave_queue t s)\<lparr>sl_value := sl_value s + 1\<rparr> = leave_queue t ?v" by (simp add: leave_queue_def)
  have "balanced (cap + 1) ?v" using balanced_value [OF b(1), of 1] b(1) by (simp add: balanced_def)
  then show "phase_of s t = Granted k \<Longrightarrow> slots_inv bound cap (wake_all (length (sl_waiters s))
        (set_phase t Over ((leave_queue t s)\<lparr>sl_value := sl_value s + 1\<rparr>)))"
    using leave_phase [of "cap + 1" ?v t Over] leave_inv [of cap t Over ?v bound] b(2) by (simp add: e)
qed

lemma simple_inv:
  assumes i: "slots_inv bound cap s" and kn: "known s t"
    and p: "phase_of s t = Idle \<and> q = Over \<or> phase_of s t = Sleeping k \<and> q = Over \<or> phase_of s t = Limiting k \<and> q = Handling k"
  shows "slots_inv bound cap (set_phase t q s)"
proof -
  have b: "balanced cap s" "work_conserving s" "numbered bound s" using i by (simp_all add: slots_inv_def)
  have "phase_of s t = Limiting k \<Longrightarrow> 1 \<le> k \<and> k \<le> bound t" using numberedD [OF b(3), of t k] by simp
  then have "numbered bound (set_phase t q s)" using p by (intro numbered_set [OF b(3)]) auto
  moreover have "work_conserving (set_phase t q s)" using p by (intro conserving_change [OF b(2)]) auto
  ultimately show ?thesis using change_phase [OF b(1) kn, of q] p by (auto simp: slots_inv_def)
qed

lemma event_inv:
  assumes i: "slots_inv bound cap s" and e: "apply_event bound ev s = Some s'"
  shows "slots_inv bound cap s'"
proof -
  note known = known_phase [of s]
  have sl: "phase_of s t = Sleeping k \<Longrightarrow> 1 \<le> k" for t k
    using i numberedD [of bound s t k] by (simp add: slots_inv_def)
  show ?thesis
  proof (cases ev)
    case (Start t)
    then show ?thesis using e enter_attempt_inv [OF i known, of t _ 1] by (auto split: phase.splits)
  next
    case (Resume t)
    then show ?thesis using e queued_inv(1) [OF i] by (auto split: phase.splits)
  next
    case (Limited t)
    then show ?thesis using e simple_inv [OF i known] by (auto split: phase.splits)
  next
    case (Complete t)
    then show ?thesis using e release_inv [OF i] by (auto split: phase.splits)
  next
    case (Fail t)
    then show ?thesis using e release_inv [OF i] by (auto split: phase.splits if_splits)
  next
    case (Wake t)
    then obtain k where k: "phase_of s t = Sleeping k" "s' = enter_attempt bound (k + 1) t s"
      using e by (auto split: phase.splits)
    then show ?thesis using enter_attempt_inv [OF i known, of t k "k + 1"] sl [of t k] by simp
  next
    case (Cancel t)
    then show ?thesis using e queued_inv(2,3) [OF i] release_inv [OF i] simple_inv [OF i known]
      by (auto split: phase.splits)
  qed
qed

section \<open>Progress\<close>

text \<open>The work that is left: an attempt takes at most five more events.\<close>

fun phase_weight :: "int \<Rightarrow> phase \<Rightarrow> nat" where
  "phase_weight n Idle = 6 * nat n + 6"
| "phase_weight n (Waiting k) = 6 * nat (n - k) + 5"
| "phase_weight n (Granted k) = 6 * nat (n - k) + 4"
| "phase_weight n (Limiting k) = 6 * nat (n - k) + 3"
| "phase_weight n (Handling k) = 6 * nat (n - k) + 2"
| "phase_weight n (Sleeping k) = 6 * nat (n - k) + 1"
| "phase_weight n Over = 0"

definition slots_weight :: "(string \<Rightarrow> int) \<Rightarrow> slots \<Rightarrow> nat" where
  "slots_weight bound s = sum_list (map (\<lambda>t. phase_weight (bound t) (phase_of s t)) (dkeys (sl_phase s)))"

lemma weight_woken: "woken s s' \<Longrightarrow> slots_weight bound s' \<le> slots_weight bound s"
proof -
  assume w: "woken s s'"
  have "phase_weight (bound t) (phase_of s' t) \<le> phase_weight (bound t) (phase_of s t)" for t
  proof -
    have "phase_of s' t = phase_of s t \<or> (\<exists>k. phase_of s t = Waiting k \<and> phase_of s' t = Granted k)"
      using w unfolding woken_def by blast
    then show ?thesis by auto
  qed
  moreover have "dkeys (sl_phase s') = dkeys (sl_phase s)" using w by (simp add: woken_def)
  ultimately show ?thesis unfolding slots_weight_def by (simp add: sum_list_mono del: map_map)
qed

lemma weight_set:
  assumes "known s t" and "phase_weight (bound t) p < phase_weight (bound t) (phase_of s t)"
  shows "slots_weight bound (set_phase t p s) < slots_weight bound s"
proof -
  have "sum_list (map (\<lambda>u. phase_weight (bound u) (if u = t then p else phase_of s u)) ks)
      \<le> sum_list (map (\<lambda>u. phase_weight (bound u) (phase_of s u)) ks)" for ks
    by (intro sum_list_mono) (use assms(2) in auto)
  then have "t \<in> set ks \<Longrightarrow> sum_list (map (\<lambda>u. phase_weight (bound u) (if u = t then p else phase_of s u)) ks)
      < sum_list (map (\<lambda>u. phase_weight (bound u) (phase_of s u)) ks)" for ks
    by (induction ks) (use assms(2) in \<open>auto simp: add_less_le_mono add_le_less_mono\<close>)
  then show ?thesis using assms(1)
    by (simp add: slots_weight_def dkeys_set_phase known_def del: map_map)
qed

lemma weight_frame [simp]:
  "slots_weight bound (s\<lparr>sl_value := v\<rparr>) = slots_weight bound s"
  "slots_weight bound (s\<lparr>sl_waiters := ws\<rparr>) = slots_weight bound s"
  "slots_weight bound (leave_queue t s) = slots_weight bound s"
  by (simp_all add: slots_weight_def leave_queue_def phase_of_def)

lemma woken_next: "woken s (wake_next s)"
proof (cases "find (\<lambda>t. is_waiting (phase_of s t)) (sl_waiters s)")
  case (Some u)
  then have "is_waiting (phase_of s u)" by (auto simp: find_Some_iff)
  then obtain k where "phase_of s u = Waiting k" by (cases "phase_of s u") auto
  moreover have "known s u" by (rule known_phase) (simp add: calculation)
  ultimately show ?thesis by (simp add: wake_next_def Some grant_def woken_def dkeys_set_phase)
qed (simp add: wake_next_def)

lemma woken_release: "woken s (sem_release s)"
  using woken_next [of "s\<lparr>sl_value := sl_value s + 1\<rparr>"] by (simp add: sem_release_def woken_def)

lemma woken_all: "woken s (wake_all n s)"
  by (induction n arbitrary: s) (auto intro: woken_trans woken_next)

lemma weight_wakes [simp]:
  "slots_weight bound (wake_all n s) \<le> slots_weight bound s"
  "slots_weight bound (sem_release s) \<le> slots_weight bound s"
  using weight_woken [OF woken_all] weight_woken [OF woken_next [of "s\<lparr>sl_value := sl_value s + 1\<rparr>"]]
  by (simp_all add: sem_release_def)

lemma weight_enter:
  assumes "known s t" and "phase_of s t = Idle \<and> k = 1 \<or> phase_of s t = Sleeping (k - 1)" and "1 \<le> k"
  shows "slots_weight bound (enter_attempt bound k t s) < slots_weight bound s"
proof -
  have "k \<le> bound t \<Longrightarrow> phase_weight (bound t) (Waiting k) < phase_weight (bound t) (phase_of s t)"
    "k \<le> bound t \<Longrightarrow> phase_weight (bound t) (Limiting k) < phase_weight (bound t) (phase_of s t)"
    "phase_weight (bound t) Over < phase_weight (bound t) (phase_of s t)"
    using assms(2,3) by auto
  then show ?thesis
    using assms(1) weight_set [of "s\<lparr>sl_waiters := sl_waiters s @ [t]\<rparr>" t bound "Waiting k"]
      weight_set [of "s\<lparr>sl_value := sl_value s - 1\<rparr>" t bound "Limiting k"] weight_set [of s t bound Over]
    by (simp add: enter_attempt_def sem_acquire_def)
qed

lemma event_weight:
  assumes "slots_inv bound cap s" and e: "apply_event bound ev s = Some s'"
  shows "slots_weight bound s' < slots_weight bound s"
proof -
  have set: "known s t \<Longrightarrow> phase_weight (bound t) p < phase_weight (bound t) (phase_of s t) \<Longrightarrow>
      slots_weight bound (set_phase t p s) < slots_weight bound s"
    and leave: "known s t \<Longrightarrow> phase_weight (bound t) p < phase_weight (bound t) (phase_of s t) \<Longrightarrow>
      slots_weight bound (set_phase t p (leave_queue t s)) < slots_weight bound s"
    and leave_v: "known s t \<Longrightarrow> phase_weight (bound t) p < phase_weight (bound t) (phase_of s t) \<Longrightarrow>
      slots_weight bound (set_phase t p ((leave_queue t s)\<lparr>sl_value := v\<rparr>)) < slots_weight bound s" for t p v
    using weight_set [of s t bound p] weight_set [of "leave_queue t s" t bound p]
      weight_set [of "(leave_queue t s)\<lparr>sl_value := v\<rparr>" t bound p] by simp_all
  have sl: "phase_of s t = Sleeping k \<Longrightarrow> 1 \<le> k" for t k
    using assms(1) numberedD [of bound s t k] by (simp add: slots_inv_def)
  note le = le_less_trans [OF weight_wakes(1)] le_less_trans [OF weight_wakes(2)]
  show ?thesis
  proof (cases ev)
    case (Wake t)
    then obtain k where k: "phase_of s t = Sleeping k" "s' = enter_attempt bound (k + 1) t s"
      using e by (auto split: phase.splits)
    then show ?thesis using weight_enter [OF known_phase, of s t "k + 1"] sl [of t k] by simp
  qed (use e in \<open>auto intro!: le set leave leave_v weight_enter known_phase split: phase.splits if_splits\<close>)
qed

section \<open>The machine of a run\<close>

lemma init_slots_inv:
  assumes "distinct ids" and "0 \<le> cap"
  shows "slots_inv bound cap (init_slots cap ids)"
proof -
  have "dget (map (\<lambda>t. (t, Idle)) ids) t = (if t \<in> set ids then Some Idle else None)" for t
    by (induction ids) auto
  then have p: "phase_of (init_slots cap ids) t = (if t \<in> set ids then Idle else Over)" for t
    by (simp add: phase_of_def init_slots_def)
  have "count_phase holds_permit (init_slots cap ids) = 0"
    by (simp add: count_phase_def init_slots_def filter_empty_conv)
  then show ?thesis using assms p
    by (simp add: slots_inv_def balanced_def work_conserving_def numbered_def init_slots_def comp_def)
qed

interpretation sem: bounded_machine "\<lambda>s. \<exists>ids. distinct ids \<and> s = init_slots (max 0 cap) ids" "slot_step bound"
    "slots_inv bound (max 0 cap)" "slots_weight bound" for bound cap
  by unfold_locales (auto simp: init_slots_inv elim!: slot_step.cases intro: event_inv event_weight)

lemma run_inv:
  assumes "distinct (task_ids w)" and "0 \<le> wf_max_parallel w" and "slot_steps bound (run_slots w) s"
  shows "slots_inv bound (wf_max_parallel w) s"
  using sem.reachable_inv [of "run_slots w" "wf_max_parallel w" bound s] assms
  by (auto simp: run_slots_def max_def)

lemma all_over:
  assumes i: "slots_inv bound cap s" and "0 < cap"
    and stuck: "\<And>e. (\<forall>t. e \<noteq> Cancel t) \<Longrightarrow> apply_event bound e s = None"
  shows "phase_of s t = Over \<and> sl_value s = cap"
proof -
  have b: "balanced cap s" "work_conserving s" using i by (simp_all add: slots_inv_def)
  have p: "phase_of s u = Over \<or> is_waiting (phase_of s u)" for u
    using stuck [of "Start u"] stuck [of "Resume u"] stuck [of "Limited u"] stuck [of "Complete u"] stuck [of "Wake u"]
    by (cases "phase_of s u") auto
  then have "\<not> holds_permit (phase_of s u)" for u by (cases "phase_of s u") (use p [of u] in auto)
  moreover have "dget (sl_phase s) u = Some q" if "(u, q) \<in> set (sl_phase s)" for u q
    using that b(1) by (simp add: balanced_def)
  ultimately have "\<not> holds_permit q" if "(u, q) \<in> set (sl_phase s)" for u q
    using that by (metis phase_of_def option.simps(5))
  then have "count_phase holds_permit s = 0" by (auto simp: count_phase_def filter_empty_conv)
  then have v: "sl_value s = cap" using b(1) by (simp add: balanced_def)
  moreover have "phase_of s u \<noteq> Granted k" for u k using p [of u] by auto
  ultimately have "\<not> is_waiting (phase_of s t)" using b(2) assms(2) by (auto simp: work_conserving_def)
  then show ?thesis using p [of t] v by simp
qed

lemma run_events_steps: "run_events bound es s = Some s' \<Longrightarrow> (slot_step bound ^^ length es) s s'"
proof (induction es arbitrary: s)
  case (Cons e es)
  then obtain u where "apply_event bound e s = Some u" "run_events bound es u = Some s'"
    by (auto split: option.splits)
  then have "slot_step bound s u" "(slot_step bound ^^ length es) u s'"
    using Cons.IH by (auto intro: slot_step.intros)
  then show ?case by (metis length_Cons relpowp_Suc_I2)
qed simp

definition two_tasks :: workflow where
  "two_tasks = sample_workflow\<lparr>wf_tasks := [sample_task, sample_task\<lparr>tk_id := ''u''\<rparr>]\<rparr>"

text \<open>C8. The bound on parallel work: in every state that the coroutines of a run can reach, under
  any interleaving of attempts, failures, pauses and cancellations, the run awaits at most
  \<open>max_parallel\<close> handlers, the permits left and the permits held are \<open>max_parallel\<close> together, and no task
  is beyond its last attempt.\<close>

theorem parallelism_bounded:
  assumes "distinct (task_ids w)" and "0 \<le> wf_max_parallel w"
    and "slot_steps (attempt_limit w) (run_slots w) s"
  shows "count_phase is_handling s \<le> wf_max_parallel w
    \<and> sl_value s + count_phase holds_permit s = wf_max_parallel w
    \<and> (attempt_no (phase_of s t) = Some k \<longrightarrow> 1 \<le> k \<and> k \<le> attempt_limit w t)"
proof -
  have i: "slots_inv (attempt_limit w) (wf_max_parallel w) s" by (rule run_inv [OF assms])
  have "is_handling p \<Longrightarrow> holds_permit p" for p by (cases p) auto
  then have "count_phase is_handling s \<le> count_phase holds_permit s" by (rule count_mono)
  then show ?thesis using i numberedD by (auto simp: slots_inv_def balanced_def)
qed

theorem parallelism_bounded_witness:
  "\<exists>s. run_events (attempt_limit two_tasks) [Start ''t'', Start ''u'', Limited ''t''] (run_slots two_tasks) = Some s
     \<and> is_waiting (phase_of s ''u'') \<and> count_phase is_handling s \<le> 1"
proof -
  let ?s = "\<lparr>sl_value = 0, sl_waiters = [''u''], sl_phase = [(''t'', Handling 1), (''u'', Waiting 1)]\<rparr>"
  have r: "run_events (attempt_limit two_tasks) [Start ''t'', Start ''u'', Limited ''t''] (run_slots two_tasks) = Some ?s"
    by code_simp
  have w: "distinct (task_ids two_tasks)" "0 \<le> wf_max_parallel two_tasks" "wf_max_parallel two_tasks = 1"
    by (simp_all add: two_tasks_def sample_workflow_def sample_task_def)
  from parallelism_bounded [OF w(1,2) relpowp_imp_rtranclp [OF run_events_steps [OF r]]]
  have "count_phase is_handling ?s \<le> 1" unfolding w(3) by blast
  then show ?thesis using r by (intro exI [of _ ?s] conjI) (simp_all add: phase_of_def)
qed

text \<open>No permit is lost: the coroutines of a run make a bounded number of events, and when
  \<open>max_parallel\<close> is positive they only stop, cancellations aside, when all are over and all
  permits are back.\<close>

lemma permits_return:
  assumes "distinct (task_ids w)" and "0 < wf_max_parallel w"
    and "(slot_step (attempt_limit w) ^^ n) (run_slots w) s"
  shows "n \<le> slots_weight (attempt_limit w) (run_slots w)
    \<and> ((\<forall>e. (\<forall>t. e \<noteq> Cancel t) \<longrightarrow> apply_event (attempt_limit w) e s = None) \<longrightarrow>
        phase_of s t = Over \<and> sl_value s = wf_max_parallel w)"
proof -
  have "slots_inv (attempt_limit w) (max 0 (wf_max_parallel w)) (run_slots w)"
    using assms(1,2) by (simp add: run_slots_def init_slots_inv)
  then have "n + slots_weight (attempt_limit w) s \<le> slots_weight (attempt_limit w) (run_slots w)"
    by (rule sem.run_length [OF assms(3)])
  moreover have "slots_inv (attempt_limit w) (wf_max_parallel w) s"
    using run_inv [OF assms(1) _ relpowp_imp_rtranclp [OF assms(3)]] assms(2) by simp
  ultimately show ?thesis using all_over [OF _ assms(2)] by fastforce
qed

end
