(* ===== verification/Rate_Limited_Run.thy ===== *)
theory Rate_Limited_Run
  imports Orchestrator_Run Parallelism
begin

text \<open>
  The coroutines of a run between the semaphore and the rate limits, \<open>Orchestrator._execute_task\<close>
  of \<open>sdk-python/orchestrator/engine.py\<close> with \<open>TokenBucket.acquire\<close> of \<open>ratelimit.py\<close>: the
  theories \<open>Parallelism\<close> and \<open>Rate_Limit\<close> put together. A coroutine with a permit passes the bucket
  of the run, then that of its provider, then calls \<open>_invoke\<close>. The passes of all coroutines, their
  other events and the passing of time interleave freely; arithmetic is exact where a rate is bounded.
\<close>

section \<open>The state\<close>

text \<open>\<open>ds_past\<close>: the coroutines that have passed the bucket of the run and are at that of their
  provider. \<open>ds_calls\<close>: the calls of \<open>_invoke\<close> so far, the last first; the code keeps no such
  list, the theorems speak about it.\<close>

record gated =
  ds_now :: rat
  ds_slots :: slots
  ds_global :: limiter
  ds_req :: "(string, limiter) dict"
  ds_past :: "string list"
  ds_calls :: "string list"

definition init_dispatch :: "rat \<Rightarrow> workflow \<Rightarrow> buckets \<Rightarrow> gated" where
  "init_dispatch start w bs = (case bs of (global, req, tok) \<Rightarrow>
     \<lparr>ds_now = start, ds_slots = run_slots w, ds_global = global, ds_req = req, ds_past = [], ds_calls = []\<rparr>)"

definition task_provider :: "workflow \<Rightarrow> string \<Rightarrow> json" where
  "task_provider w t = (case dget (task_map w) t of None \<Rightarrow> JNull | Some tk \<Rightarrow> tk_provider tk)"

section \<open>The passes\<close>

text \<open>A bucket that does not serve the request leaves the coroutine asleep inside \<open>acquire\<close>,
  which keeps the permit.\<close>

definition call_handler :: "workflow \<Rightarrow> string \<Rightarrow> gated \<Rightarrow> gated option" where
  "call_handler w t d = map_option
     (\<lambda>s. d\<lparr>ds_slots := s, ds_past := removeAll t (ds_past d), ds_calls := t # ds_calls d\<rparr>)
     (apply_event (attempt_limit w) (Limited t) (ds_slots d))"

text \<open>An exception of \<open>acquire\<close> or of the look-up ends the attempt as one of the handler does.\<close>

definition raise_limiting :: "workflow \<Rightarrow> string \<Rightarrow> gated \<Rightarrow> gated option" where
  "raise_limiting w t d = map_option
     (\<lambda>s. d\<lparr>ds_slots := s, ds_past := removeAll t (ds_past d)\<rparr>)
     (run_events (attempt_limit w) [Limited t, Fail t] (ds_slots d))"

definition pass_global :: "(rat \<Rightarrow> rat) \<Rightarrow> workflow \<Rightarrow> string \<Rightarrow> gated \<Rightarrow> gated option" where
  "pass_global fl w t d =
     (case acquire fl 1 [ds_now d] (ds_global d) of
        Inl e \<Rightarrow> raise_limiting w t d
      | Inr (l, ws, ok) \<Rightarrow>
          if \<not> ok then Some (d\<lparr>ds_global := l\<rparr>)
          else if truthy (task_provider w t) then Some (d\<lparr>ds_global := l, ds_past := t # ds_past d\<rparr>)
          else call_handler w t (d\<lparr>ds_global := l\<rparr>))"

text \<open>\<open>prov_req.get(task.provider, NullBucket())\<close>\<close>

definition pass_provider :: "(rat \<Rightarrow> rat) \<Rightarrow> workflow \<Rightarrow> string \<Rightarrow> gated \<Rightarrow> gated option" where
  "pass_provider fl w t d =
     (case task_provider w t of
        JStr p \<Rightarrow>
          (case dget (ds_req d) p of
             None \<Rightarrow> call_handler w t d
           | Some l \<Rightarrow>
               (case acquire fl 1 [ds_now d] l of
                  Inl e \<Rightarrow> raise_limiting w t d
                | Inr (l', ws, ok) \<Rightarrow>
                    let d' = d\<lparr>ds_req := dset p l' (ds_req d)\<rparr> in
                    if ok then call_handler w t d' else Some d'))
      | JArr _ \<Rightarrow> raise_limiting w t d
      | JObj _ \<Rightarrow> raise_limiting w t d
      | _ \<Rightarrow> call_handler w t d)"

section \<open>The events\<close>

datatype dispatch_event =
    Elapse rat
  | Pass string
  | Other slot_event

text \<open>The event \<open>Limited\<close> of the semaphore is what the passes refine.\<close>

fun is_limited :: "slot_event \<Rightarrow> bool" where
  "is_limited (Limited t) = True"
| "is_limited _ = False"

fun cancelled :: "slot_event \<Rightarrow> string list" where
  "cancelled (Cancel t) = [t]"
| "cancelled _ = []"

fun apply_dispatch :: "(rat \<Rightarrow> rat) \<Rightarrow> workflow \<Rightarrow> dispatch_event \<Rightarrow> gated \<Rightarrow> gated option" where
  "apply_dispatch fl w (Elapse r) d = (if ds_now d \<le> r then Some (d\<lparr>ds_now := r\<rparr>) else None)"
| "apply_dispatch fl w (Pass t) d =
     (case phase_of (ds_slots d) t of
        Limiting k \<Rightarrow> if t \<in> set (ds_past d) then pass_provider fl w t d else pass_global fl w t d
      | _ \<Rightarrow> None)"
| "apply_dispatch fl w (Other e) d =
     (if is_limited e then None
      else map_option (\<lambda>s. d\<lparr>ds_slots := s, ds_past := filter (\<lambda>t. t \<notin> set (cancelled e)) (ds_past d)\<rparr>)
             (apply_event (attempt_limit w) e (ds_slots d)))"

fun run_dispatch :: "(rat \<Rightarrow> rat) \<Rightarrow> workflow \<Rightarrow> dispatch_event list \<Rightarrow> gated \<Rightarrow> gated option" where
  "run_dispatch fl w [] d = Some d"
| "run_dispatch fl w (e # es) d = Option.bind (apply_dispatch fl w e d) (run_dispatch fl w es)"

inductive dispatch_step :: "(rat \<Rightarrow> rat) \<Rightarrow> workflow \<Rightarrow> gated \<Rightarrow> gated \<Rightarrow> bool" for fl w where
  "apply_dispatch fl w e d = Some d' \<Longrightarrow> dispatch_step fl w d d'"

abbreviation dispatch_steps :: "(rat \<Rightarrow> rat) \<Rightarrow> workflow \<Rightarrow> gated \<Rightarrow> gated \<Rightarrow> bool" where
  "dispatch_steps fl w \<equiv> (dispatch_step fl w)\<^sup>*\<^sup>*"

lemma run_dispatch_append:
  "run_dispatch fl w (es @ fs) d = Option.bind (run_dispatch fl w es d) (run_dispatch fl w fs)"
  by (induction es arbitrary: d) (auto split: bind_split)

lemma run_dispatch_steps: "run_dispatch fl w es d = Some d' \<Longrightarrow> dispatch_steps fl w d d'"
  by (induction es arbitrary: d)
    (auto simp: bind_eq_Some_conv intro: dispatch_step.intros converse_rtranclp_into_rtranclp)

section \<open>The limits refine the semaphore\<close>

text \<open>Every step is a run of events of the semaphore, so what theory \<open>Parallelism\<close> proves of its
  states holds here.\<close>

lemma slot_stepI: "apply_event bound e s = Some s' \<Longrightarrow> slot_steps bound s s'"
  by (auto intro: slot_step.intros)

lemma call_handler_Some:
  "call_handler w t d = Some d' \<longleftrightarrow> (\<exists>k. phase_of (ds_slots d) t = Limiting k \<and>
     d' = d\<lparr>ds_slots := set_phase t (Handling k) (ds_slots d), ds_past := removeAll t (ds_past d), ds_calls := t # ds_calls d\<rparr>)"
  by (auto simp: call_handler_def split: phase.splits)

lemma raise_limiting_Some:
  "raise_limiting w t d = Some d' \<longleftrightarrow> (\<exists>s. run_events (attempt_limit w) [Limited t, Fail t] (ds_slots d) = Some s \<and>
     d' = d\<lparr>ds_slots := s, ds_past := removeAll t (ds_past d)\<rparr>)"
  by (auto simp: raise_limiting_def)

text \<open>How a pass ends: the case rules of the two buckets.\<close>

lemma pass_global_cases [consumes 1, case_names raised waits past calls]:
  assumes "pass_global fl w t d = Some d'"
  obtains (raised) e where "acquire fl 1 [ds_now d] (ds_global d) = Inl e" "raise_limiting w t d = Some d'"
  | (waits) l ws where "acquire fl 1 [ds_now d] (ds_global d) = Inr (l, ws, False)" "d' = d\<lparr>ds_global := l\<rparr>"
  | (past) l ws where "acquire fl 1 [ds_now d] (ds_global d) = Inr (l, ws, True)" "truthy (task_provider w t)"
      "d' = d\<lparr>ds_global := l, ds_past := t # ds_past d\<rparr>"
  | (calls) l ws where "acquire fl 1 [ds_now d] (ds_global d) = Inr (l, ws, True)" "\<not> truthy (task_provider w t)"
      "call_handler w t (d\<lparr>ds_global := l\<rparr>) = Some d'"
  using assms unfolding pass_global_def
  by (auto split: sum.splits prod.splits if_splits)

lemma pass_provider_cases [consumes 1, case_names raised free waits calls]:
  assumes "pass_provider fl w t d = Some d'"
  obtains (raised) "raise_limiting w t d = Some d'"
      "\<And>p l. task_provider w t = JStr p \<Longrightarrow> dget (ds_req d) p = Some l \<Longrightarrow> \<not> is_ok (acquire fl 1 [ds_now d] l)"
  | (free) "call_handler w t d = Some d'" "\<And>p. task_provider w t = JStr p \<Longrightarrow> dget (ds_req d) p = None"
  | (waits) p l l' ws where "task_provider w t = JStr p" "dget (ds_req d) p = Some l"
      "acquire fl 1 [ds_now d] l = Inr (l', ws, False)" "d' = d\<lparr>ds_req := dset p l' (ds_req d)\<rparr>"
  | (calls) p l l' ws where "task_provider w t = JStr p" "dget (ds_req d) p = Some l"
      "acquire fl 1 [ds_now d] l = Inr (l', ws, True)" "call_handler w t (d\<lparr>ds_req := dset p l' (ds_req d)\<rparr>) = Some d'"
proof (cases "task_provider w t")
  case (JStr p)
  show thesis
  proof (cases "dget (ds_req d) p")
    case (Some l)
    note p = JStr Some
    show thesis
    proof (cases "acquire fl 1 [ds_now d] l")
      case (Inl e)
      show thesis by (rule that(1)) (use assms p Inl in \<open>simp_all add: pass_provider_def\<close>)
    next
      case (Inr r)
      with that(3,4) [OF p] assms p show thesis
        by (cases r) (auto simp: pass_provider_def Let_def split: if_splits)
    qed
  qed (use that(2) assms JStr in \<open>simp add: pass_provider_def\<close>)
qed (use that assms in \<open>auto simp: pass_provider_def\<close>)

lemma call_handler_slots:
  "call_handler w t d = Some d' \<Longrightarrow> slot_steps (attempt_limit w) (ds_slots d) (ds_slots d')"
  by (rule slot_stepI [of _ "Limited t"]) (auto simp: call_handler_Some)

lemma raise_limiting_slots:
  "raise_limiting w t d = Some d' \<Longrightarrow> slot_steps (attempt_limit w) (ds_slots d) (ds_slots d')"
  by (auto simp: raise_limiting_Some simp del: run_events.simps dest!: run_events_steps relpowp_imp_rtranclp)

lemma dispatch_refines:
  assumes "dispatch_step fl w d d'"
  shows "slot_steps (attempt_limit w) (ds_slots d) (ds_slots d')"
  using assms
proof cases
  case (1 e)
  show ?thesis
  proof (cases e)
    case (Pass t)
    then have "pass_provider fl w t d = Some d' \<or> pass_global fl w t d = Some d'"
      using 1 by (auto split: phase.splits if_splits)
    then show ?thesis
      by (auto elim!: pass_global_cases pass_provider_cases dest!: call_handler_slots raise_limiting_slots)
  qed (use 1 in \<open>auto split: if_splits intro: slot_stepI\<close>)
qed

lemma dispatch_steps_refine:
  "dispatch_steps fl w d d' \<Longrightarrow> slot_steps (attempt_limit w) (ds_slots d) (ds_slots d')"
  by (induction rule: rtranclp_induct) (auto dest: dispatch_refines intro: rtranclp_trans)

section \<open>The invariant\<close>

text \<open>A bucket as the run has it: full enough for a request at most, and read no later than now.\<close>

definition limiter_ok :: "rat \<Rightarrow> limiter \<Rightarrow> bool" where
  "limiter_ok now l = (case l of NullBucket \<Rightarrow> True
     | TokenBucket b \<Rightarrow> bucket_ok b \<and> 1 \<le> bk_capacity b \<and> bk_updated b \<le> now)"

text \<open>The settings of a bucket never change.\<close>

definition same_limits :: "limiter \<Rightarrow> limiter \<Rightarrow> bool" where
  "same_limits l l' = (case (l, l') of
     (NullBucket, NullBucket) \<Rightarrow> True
   | (TokenBucket b, TokenBucket c) \<Rightarrow> bk_rate c = bk_rate b \<and> bk_per c = bk_per b \<and> bk_capacity c = bk_capacity b
   | _ \<Rightarrow> False)"

lemma acquire_pass:
  "limiter_ok now l \<Longrightarrow> acquire fl 1 [now] l =
     (case l of NullBucket \<Rightarrow> Inr (NullBucket, [], True)
      | TokenBucket b \<Rightarrow> (case try_acquire fl 1 now b of
           (b', None) \<Rightarrow> Inr (TokenBucket b', [], True)
         | (b', Some wait) \<Rightarrow> Inr (TokenBucket b', [wait], False)))"
  by (auto simp: acquire_def limiter_ok_def split: limiter.splits prod.splits option.splits)

lemma pass_keeps:
  assumes "limiter_ok now l" and "acquire exact 1 [now] l = Inr (l', ws, ok)"
  shows "limiter_ok now l' \<and> same_limits l l'"
proof (cases l)
  case (TokenBucket b)
  then have ok: "bucket_ok b" "1 \<le> bk_capacity b" "bk_updated b \<le> now" using assms(1) by (simp_all add: limiter_ok_def)
  obtain b' r where b': "try_acquire exact 1 now b = (b', r)" by (cases "try_acquire exact 1 now b")
  have "l' = TokenBucket b'" using assms TokenBucket b' by (auto simp: acquire_pass split: option.splits)
  moreover have "bucket_ok b' \<and> bk_updated b' = now" using gate.pass_ok [OF ok(1,3) _ b'] by simp
  ultimately show ?thesis using TokenBucket try_acquire_frame [OF b'] ok
    by (simp add: limiter_ok_def same_limits_def)
qed (use assms in \<open>auto simp: limiter_ok_def same_limits_def acquire_def\<close>)

definition dispatch_inv :: "workflow \<Rightarrow> gated \<Rightarrow> bool" where
  "dispatch_inv w d \<longleftrightarrow> slots_inv (attempt_limit w) (wf_max_parallel w) (ds_slots d)
     \<and> limiter_ok (ds_now d) (ds_global d)
     \<and> (\<forall>p l. dget (ds_req d) p = Some l \<longrightarrow> limiter_ok (ds_now d) l)
     \<and> distinct (ds_past d) \<and> (\<forall>t \<in> set (ds_past d). \<exists>k. phase_of (ds_slots d) t = Limiting k)"

lemma slot_steps_inv: "slot_steps bound s s' \<Longrightarrow> slots_inv bound cap s \<Longrightarrow> slots_inv bound cap s'"
  by (induction rule: rtranclp_induct) (auto elim: slot_step.cases intro: event_inv)

lemma woken_limiting: "woken s s' \<Longrightarrow> phase_of s t = Limiting k \<Longrightarrow> phase_of s' t = Limiting k"
  by (elim woken_def [THEN iffD1, THEN conjunct2, THEN conjunct2, THEN spec [of _ t], THEN disjE]) auto

lemmas limiting_kept = woken_limiting [OF woken_all] woken_limiting [OF woken_release]

lemma other_keeps_limiting:
  assumes "apply_event bound f s = Some s'" and "\<not> is_limited f" and "t \<notin> set (cancelled f)"
    and "phase_of s t = Limiting k"
  shows "phase_of s' t = Limiting k"
  using assms
  by (cases f) (auto simp: enter_attempt_def sem_acquire_def intro!: limiting_kept split: phase.splits if_splits)

lemma raise_keeps_limiting:
  assumes "run_events bound [Limited t, Fail t] s = Some s'" and "phase_of s u = Limiting k" and "u \<noteq> t"
  shows "phase_of s' u = Limiting k"
  using assms by (auto intro!: limiting_kept split: phase.splits if_splits)

lemma limiter_later: "limiter_ok now l \<Longrightarrow> now \<le> now' \<Longrightarrow> limiter_ok now' l"
  by (auto simp: limiter_ok_def split: limiter.splits)

lemma calls_inv:
  assumes "dispatch_inv w d" and "call_handler w t d = Some d'"
  shows "dispatch_inv w d'"
  using assms slot_steps_inv [OF call_handler_slots [OF assms(2)]]
  by (auto simp: dispatch_inv_def call_handler_Some distinct_removeAll)

lemma raises_inv:
  assumes "dispatch_inv w d" and "raise_limiting w t d = Some d'"
  shows "dispatch_inv w d'"
proof -
  obtain s where s: "run_events (attempt_limit w) [Limited t, Fail t] (ds_slots d) = Some s"
    "d' = d\<lparr>ds_slots := s, ds_past := removeAll t (ds_past d)\<rparr>"
    using assms(2) unfolding raise_limiting_Some by blast
  have "\<exists>k. phase_of s u = Limiting k" if "u \<in> set (ds_past d)" "u \<noteq> t" for u
    using assms(1) raise_keeps_limiting [OF s(1) _ that(2)] that(1) by (auto simp: dispatch_inv_def)
  then show ?thesis using assms slot_steps_inv [OF raise_limiting_slots [OF assms(2)]] s(2)
    by (simp add: dispatch_inv_def distinct_removeAll)
qed

lemma passes_inv:
  assumes i: "dispatch_inv w d" and l: "phase_of (ds_slots d) t = Limiting k"
  shows "t \<notin> set (ds_past d) \<Longrightarrow> pass_global exact w t d = Some d' \<Longrightarrow> dispatch_inv w d'"
    and "pass_provider exact w t d = Some d' \<Longrightarrow> dispatch_inv w d'"
proof -
  have g: "acquire exact 1 [ds_now d] (ds_global d) = Inr (l, ws, ok) \<Longrightarrow> dispatch_inv w (d\<lparr>ds_global := l\<rparr>)" for l ws ok
    using i pass_keeps [of "ds_now d" "ds_global d"] by (simp add: dispatch_inv_def)
  have p: "dget (ds_req d) p = Some l \<Longrightarrow> acquire exact 1 [ds_now d] l = Inr (l', ws, ok) \<Longrightarrow>
      dispatch_inv w (d\<lparr>ds_req := dset p l' (ds_req d)\<rparr>)" for p l l' ws ok
    using i pass_keeps [of "ds_now d" l] by (simp add: dispatch_inv_def)
  show "dispatch_inv w d'" if "t \<notin> set (ds_past d)" "pass_global exact w t d = Some d'"
    using that(2)
  proof (cases rule: pass_global_cases)
    case (past l' ws)
    then show ?thesis using g [OF past(1)] that(1) assms(2) by (simp add: dispatch_inv_def)
  qed (auto intro: raises_inv [OF i] calls_inv [OF g] g)
  show "dispatch_inv w d'" if "pass_provider exact w t d = Some d'"
    using that by (cases rule: pass_provider_cases) (auto intro: raises_inv [OF i] calls_inv [OF i] calls_inv [OF p] p)
qed

lemma dispatch_step_inv:
  assumes i: "dispatch_inv w d" and e: "apply_dispatch exact w e d = Some d'"
  shows "dispatch_inv w d'"
proof (cases e)
  case (Elapse r)
  then show ?thesis using i e by (auto simp: dispatch_inv_def intro: limiter_later [of "ds_now d"] split: if_splits)
next
  case (Pass t)
  then show ?thesis using e passes_inv [OF i] by (auto split: phase.splits if_splits)
next
  case (Other f)
  then obtain s where s: "\<not> is_limited f" "apply_event (attempt_limit w) f (ds_slots d) = Some s"
    "d' = d\<lparr>ds_slots := s, ds_past := filter (\<lambda>t. t \<notin> set (cancelled f)) (ds_past d)\<rparr>"
    using e by (auto split: if_splits)
  have "\<exists>k. phase_of s u = Limiting k" if "u \<in> set (ds_past d)" "u \<notin> set (cancelled f)" for u
    using i other_keeps_limiting [OF s(2,1) that(2)] that(1) by (auto simp: dispatch_inv_def)
  then show ?thesis using i event_inv [OF _ s(2)] s(3) by (simp add: dispatch_inv_def)
qed

lemma bucket_for_ok: "bucket_for now rl name = Inr l \<Longrightarrow> now \<le> start \<Longrightarrow> limiter_ok start l"
proof (cases l)
  case (TokenBucket b)
  assume a: "bucket_for now rl name = Inr l" "now \<le> start"
  then have "bk_updated b = now" using TokenBucket
    by (auto simp: bucket_for_def init_bucket_def result_simps Let_def split: if_splits option.splits)
  then show ?thesis using bucket_for_capacity [of now rl name b] a TokenBucket by (simp add: limiter_ok_def)
qed (simp add: limiter_ok_def)

lemma make_buckets_req:
  assumes "make_buckets now w = Inr (global, req, tok)"
  shows "bucket_for (now ''global'') (wf_rate_limit w) ''global'' = Inr global"
    and "dget req p = Some l \<longleftrightarrow> (\<exists>v. dget (wf_providers w) p = Some v \<and> bucket_for (now (p @ ''.req'')) (pv_rate_limit v) (p @ ''.req'') = Inr l)"
proof -
  show "bucket_for (now ''global'') (wf_rate_limit w) ''global'' = Inr global"
    using assms by (auto simp: make_buckets_def result_simps)
  have "rtraverse (\<lambda>(n, p). rmap (Pair n) (bucket_for (now (n @ ''.req'')) (pv_rate_limit p) (n @ ''.req''))) ps = Inr rs \<Longrightarrow>
    dget rs p = Some l \<longleftrightarrow> (\<exists>v. dget ps p = Some v \<and> bucket_for (now (p @ ''.req'')) (pv_rate_limit v) (p @ ''.req'') = Inr l)" for ps rs
    by (induction ps arbitrary: rs) (auto simp: result_simps split: prod.splits)
  then show "dget req p = Some l \<longleftrightarrow> (\<exists>v. dget (wf_providers w) p = Some v \<and> bucket_for (now (p @ ''.req'')) (pv_rate_limit v) (p @ ''.req'') = Inr l)"
    using assms by (auto simp: make_buckets_def result_simps)
qed

lemma make_buckets_total_req:
  assumes "make_buckets now w = Inr (global, req, tok)" and "dget (wf_providers w) p = Some v"
  shows "\<exists>l. dget req p = Some l \<and> bucket_for (now (p @ ''.req'')) (pv_rate_limit v) (p @ ''.req'') = Inr l"
proof -
  have "rtraverse (\<lambda>(n, p). rmap (Pair n) (bucket_for (now (n @ ''.req'')) (pv_rate_limit p) (n @ ''.req''))) ps = Inr rs \<Longrightarrow>
    dget ps p = Some v \<Longrightarrow> \<exists>l. dget rs p = Some l" for ps rs
    by (induction ps arbitrary: rs) (auto simp: result_simps split: prod.splits if_splits)
  then have "\<exists>l. dget req p = Some l"
    using assms by (auto simp: make_buckets_def result_simps)
  then show ?thesis using make_buckets_req(2) [OF assms(1), of p] assms(2) by auto
qed

lemma init_dispatch_inv:
  assumes "make_buckets now w = Inr bs" and "\<forall>n. now n \<le> start" and "distinct (task_ids w)" and "0 \<le> wf_max_parallel w"
  shows "dispatch_inv w (init_dispatch start w bs)"
proof -
  obtain global req tok where bs: "bs = (global, req, tok)" by (cases bs)
  note req = make_buckets_req [OF assms(1) [unfolded bs]]
  show ?thesis using assms(2) init_slots_inv [OF assms(3,4)] bucket_for_ok [OF req(1)] bucket_for_ok
    by (auto simp: dispatch_inv_def init_dispatch_def bs run_slots_def req(2))
qed

end
