(* ===== verification/Rate_Limited_Correct.thy ===== *)
theory Rate_Limited_Correct
  imports Rate_Limited_Run
begin

text \<open>
  What the rate limits of a run promise, over the machine of theory \<open>Rate_Limited_Run\<close>: the buckets
  are meters, so that no window of a run sees more calls than the limits allow, and no coroutine
  is stuck between the semaphore and the buckets.
\<close>

section \<open>The buckets of a run as meters\<close>

text \<open>What a bucket holds at the reading \<open>now\<close>, and the settings \<open>bucket_for\<close> gives it.\<close>

definition stock :: "rat \<Rightarrow> limiter \<Rightarrow> rat" where
  "stock now l = (case l of NullBucket \<Rightarrow> 0 | TokenBucket b \<Rightarrow> bk_tokens (refill exact now b))"

definition limits_to :: "rat \<Rightarrow> rat \<Rightarrow> limiter \<Rightarrow> bool" where
  "limits_to r q l = (case l of NullBucket \<Rightarrow> False
     | TokenBucket b \<Rightarrow> bk_rate b = r \<and> bk_per b = q \<and> bk_capacity b = r)"

lemma stock_bounds: "limits_to r q l \<Longrightarrow> limiter_ok now l \<Longrightarrow> 0 \<le> stock now l \<and> stock now l \<le> r"
  using refill_ok [OF rounding_exact, of _ now]
  by (fastforce simp: limits_to_def limiter_ok_def stock_def bucket_ok_def split: limiter.splits)

lemma stock_later:
  assumes "limits_to r q l" and "limiter_ok now l" and "now \<le> now'"
  shows "stock now' l \<le> stock now l + r / q * (now' - now)"
proof -
  obtain b where b: "l = TokenBucket b" "bk_rate b = r" "bk_per b = q" "bucket_ok b"
    using assms(1,2) by (auto simp: limits_to_def limiter_ok_def split: limiter.splits)
  have f: "bucket_flow b = r / q" "0 \<le> bucket_flow b" using b by (simp_all add: bucket_ok_def bucket_flow_def)
  have s: "stock x l = min (bk_capacity b) (bk_tokens b + (x - bk_updated b) * bucket_flow b)" for x
    by (simp add: stock_def b(1) refill_exact)
  have "(now' - bk_updated b) * bucket_flow b = (now - bk_updated b) * bucket_flow b + bucket_flow b * (now' - now)"
    by (simp add: algebra_simps)
  moreover have "0 \<le> bucket_flow b * (now' - now)" using f(2) assms(3) by simp
  ultimately show ?thesis unfolding f(1) [symmetric] s by linarith
qed

lemma stock_pass:
  assumes "limits_to r q l" and "limiter_ok now l" and "acquire exact 1 [now] l = Inr (l', ws, ok)"
  shows "limits_to r q l' \<and> stock now l' + (if ok then 1 else 0) \<le> stock now l"
proof -
  obtain b where b: "l = TokenBucket b" using assms(1) by (auto simp: limits_to_def split: limiter.splits)
  obtain c x where c: "try_acquire exact 1 now b = (c, x)" by (cases "try_acquire exact 1 now b")
  have l': "l' = TokenBucket c" "ok = (x = None)" using assms(2,3) b c by (auto simp: acquire_pass split: option.splits)
  have "limiter_ok now l' \<and> same_limits l l'" by (rule pass_keeps [OF assms(2,3)])
  moreover from this have "stock now l' = bk_tokens c"
    using try_acquire_frame [OF c] by (simp add: stock_def l' refill_exact limiter_ok_def bucket_ok_def)
  moreover have "bk_tokens c + (if x = None then 1 else 0) \<le> bk_tokens (refill exact now b)"
    using c by (auto simp: try_acquire_def Let_def split: if_splits)
  ultimately show ?thesis using assms(1) by (simp add: stock_def limits_to_def same_limits_def b l')
qed

definition starts_dispatch :: "workflow \<Rightarrow> gated \<Rightarrow> bool" where
  "starts_dispatch w d \<longleftrightarrow> (\<exists>now bs start. make_buckets now w = Inr bs \<and> is_ok (make_semaphore w)
     \<and> (\<forall>n. now n \<le> start) \<and> d = init_dispatch start w bs)"

definition run_limited :: "workflow \<Rightarrow> rat \<Rightarrow> rat \<Rightarrow> gated \<Rightarrow> bool" where
  "run_limited w r q d \<longleftrightarrow> dispatch_inv w d \<and> limits_to r q (ds_global d)"

definition provider_limited :: "workflow \<Rightarrow> string \<Rightarrow> rat \<Rightarrow> rat \<Rightarrow> gated \<Rightarrow> bool" where
  "provider_limited w p r q d \<longleftrightarrow> dispatch_inv w d \<and> p \<noteq> [] \<and> (\<exists>l. dget (ds_req d) p = Some l \<and> limits_to r q l)"

text \<open>What the bucket of the run has granted and not lost to a cancellation; what that of a
  provider has granted.\<close>

definition run_spent :: "gated \<Rightarrow> rat" where
  "run_spent d = of_nat (length (ds_calls d) + length (ds_past d))"

definition provider_calls :: "workflow \<Rightarrow> string \<Rightarrow> gated \<Rightarrow> nat" where
  "provider_calls w p d = length (filter (\<lambda>t. task_provider w t = JStr p) (ds_calls d))"

lemma starts_dispatch_inv: "starts_dispatch w d \<Longrightarrow> distinct (task_ids w) \<Longrightarrow> dispatch_inv w d"
  by (auto simp: starts_dispatch_def make_semaphore_def intro!: init_dispatch_inv split: if_splits)

lemma reachable_dispatch:
  assumes "starts_dispatch w s" and "distinct (task_ids w)" and "dispatch_steps exact w s d"
  shows "dispatch_inv w d"
  using assms(3) starts_dispatch_inv [OF assms(1,2)]
  by (induction rule: rtranclp_induct) (auto elim!: dispatch_step.cases intro: dispatch_step_inv)

lemma call_costs:
  assumes "call_handler w t d = Some d'" and "distinct (ds_past d)"
  shows "run_spent d' = run_spent d + (if t \<in> set (ds_past d) then 0 else 1)"
    and "provider_calls w p d' = provider_calls w p d + (if task_provider w t = JStr p then 1 else 0)"
    and "ds_global d' = ds_global d" "ds_req d' = ds_req d" "ds_now d' = ds_now d"
proof -
  have "length (removeAll t (ds_past d)) + (if t \<in> set (ds_past d) then 1 else 0) = length (ds_past d)"
    using assms(2) by (simp add: distinct_remove1_removeAll [symmetric] length_remove1) (cases "ds_past d", auto)
  then show "run_spent d' = run_spent d + (if t \<in> set (ds_past d) then 0 else 1)"
    using assms(1) by (auto simp: call_handler_Some run_spent_def simp flip: of_nat_Suc of_nat_add)
qed (use assms(1) in \<open>auto simp: call_handler_Some provider_calls_def\<close>)

lemma raise_costs:
  assumes "raise_limiting w t d = Some d'"
  shows "run_spent d' \<le> run_spent d" "provider_calls w p d' = provider_calls w p d"
    "ds_global d' = ds_global d" "ds_req d' = ds_req d" "ds_now d' = ds_now d"
  using assms length_removeAll_less_eq [of t "ds_past d"]
  by (auto simp: raise_limiting_Some run_spent_def provider_calls_def simp del: run_events.simps)

text \<open>What a step leaves of a bucket, by the way it ends.\<close>

lemma run_pays:
  assumes i: "run_limited w r q d" and e: "apply_dispatch exact w e d = Some d'"
  shows "limits_to r q (ds_global d') \<and> run_spent d' + stock (ds_now d') (ds_global d')
    \<le> run_spent d + stock (ds_now d) (ds_global d) + r / q * (ds_now d' - ds_now d)"
proof (cases e)
  case (Elapse x)
  then show ?thesis using i e stock_later [of r q "ds_global d" "ds_now d" x]
    by (auto simp: run_limited_def dispatch_inv_def run_spent_def split: if_splits)
next
  case (Other f)
  then show ?thesis using i e by (auto simp: run_limited_def run_spent_def split: if_splits)
next
  case (Pass t)
  have d: "distinct (ds_past d)" "limits_to r q (ds_global d)" "limiter_ok (ds_now d) (ds_global d)"
    using i by (simp_all add: run_limited_def dispatch_inv_def)
  note sp = stock_pass [OF d(2,3)]
  show ?thesis
  proof (cases "t \<in> set (ds_past d)")
    case True
    then have "pass_provider exact w t d = Some d'" using Pass e by (auto split: phase.splits)
    then show ?thesis
    proof (cases rule: pass_provider_cases)
      case raised
      then show ?thesis using d raise_costs [OF raised(1)] by simp
    next
      case free
      then show ?thesis using True d call_costs [OF free(1) d(1)] by simp
    next
      case (waits p l l' ws)
      then show ?thesis using d by (simp add: run_spent_def)
    next
      case (calls p l l' ws)
      then show ?thesis using True d call_costs [OF calls(4)] by (simp add: run_spent_def)
    qed
  next
    case False
    then have "pass_global exact w t d = Some d'" using Pass e by (auto split: phase.splits)
    then show ?thesis
    proof (cases rule: pass_global_cases)
      case (raised e)
      then show ?thesis using d raise_costs [OF raised(2)] by simp
    next
      case (waits l ws)
      then show ?thesis using sp [OF waits(1)] by (simp add: run_spent_def)
    next
      case (past l ws)
      then show ?thesis using sp [OF past(1)] by (simp add: run_spent_def)
    next
      case (calls l ws)
      then show ?thesis using False d sp [OF calls(1)] call_costs [OF calls(3)] by (simp add: run_spent_def)
    qed
  qed
qed

lemma provider_pays:
  assumes i: "provider_limited w p r q d" and e: "apply_dispatch exact w e d = Some d'"
    and l: "dget (ds_req d) p = Some l"
  shows "\<exists>l'. dget (ds_req d') p = Some l' \<and> limits_to r q l'
    \<and> of_nat (provider_calls w p d') + stock (ds_now d') l'
      \<le> of_nat (provider_calls w p d) + stock (ds_now d) l + r / q * (ds_now d' - ds_now d)"
proof (cases e)
  case (Elapse x)
  then show ?thesis using i e l stock_later [of r q l "ds_now d" x]
    by (auto simp: provider_limited_def dispatch_inv_def provider_calls_def split: if_splits)
next
  case (Other f)
  then show ?thesis using i e l by (auto simp: provider_limited_def provider_calls_def split: if_splits)
next
  case (Pass t)
  have d: "distinct (ds_past d)" "limits_to r q l" "limiter_ok (ds_now d) l" "p \<noteq> []"
    using i l by (auto simp: provider_limited_def dispatch_inv_def)
  have "pass_provider exact w t d = Some d' \<or> pass_global exact w t d = Some d'"
    using Pass e by (auto split: phase.splits if_splits)
  then show ?thesis
  proof
    assume "pass_provider exact w t d = Some d'"
    then show ?thesis
    proof (cases rule: pass_provider_cases)
      case raised
      then show ?thesis using d l raise_costs [OF raised(1)] by simp
    next
      case free
      then show ?thesis using d l call_costs [OF free(1) d(1)] by auto
    next
      case (waits p' m m' ws)
      then show ?thesis using d l stock_pass [OF d(2,3)] by (auto simp: provider_calls_def)
    next
      case (calls p' m m' ws)
      show ?thesis
      proof (cases "p' = p")
        case True
        then have "limits_to r q m' \<and> stock (ds_now d) m' + 1 \<le> stock (ds_now d) l"
          using l stock_pass [OF d(2,3), of m' ws True] calls(2,3) by simp
        then show ?thesis using True calls d call_costs [OF calls(4)] by (simp add: provider_calls_def)
      next
        case False
        then show ?thesis using calls d l call_costs [OF calls(4)] by (simp add: provider_calls_def)
      qed
    qed
  next
    assume "pass_global exact w t d = Some d'"
    then show ?thesis
    proof (cases rule: pass_global_cases)
      case (raised e)
      then show ?thesis using d l raise_costs [OF raised(2)] by simp
    next
      case (calls g ws)
      then have "task_provider w t \<noteq> JStr p" using d(4) by auto
      then show ?thesis using d l call_costs [OF calls(3)] by (simp add: provider_calls_def)
    qed (use d l in \<open>auto simp: provider_calls_def\<close>)
  qed
qed

interpretation run_meter: metered "\<lambda>d. starts_dispatch w d \<and> distinct (task_ids w) \<and> limits_to r q (ds_global d)"
    "dispatch_step exact w" "run_limited w r q" ds_now run_spent "\<lambda>d. stock (ds_now d) (ds_global d)" r "r / q" for w r q
proof unfold_locales
  show "run_limited w r q d \<Longrightarrow> dispatch_step exact w d d' \<Longrightarrow> run_limited w r q d'" for d d'
    using run_pays [of w r q d] by (auto simp: run_limited_def elim!: dispatch_step.cases intro: dispatch_step_inv)
  show "run_limited w r q d \<Longrightarrow> dispatch_step exact w d d' \<Longrightarrow> run_spent d' + stock (ds_now d') (ds_global d')
      \<le> run_spent d + stock (ds_now d) (ds_global d) + r / q * (ds_now d' - ds_now d)" for d d'
    using run_pays [of w r q d] by (auto elim!: dispatch_step.cases)
qed (auto simp: run_limited_def dispatch_inv_def stock_bounds dest: starts_dispatch_inv)

interpretation provider_meter: metered
    "\<lambda>d. starts_dispatch w d \<and> distinct (task_ids w) \<and> p \<noteq> [] \<and> (\<exists>l. dget (ds_req d) p = Some l \<and> limits_to r q l)"
    "dispatch_step exact w" "provider_limited w p r q" ds_now "\<lambda>d. of_nat (provider_calls w p d)"
    "\<lambda>d. stock (ds_now d) (the (dget (ds_req d) p))" r "r / q" for w p r q
proof unfold_locales
  show "provider_limited w p r q d \<Longrightarrow> dispatch_step exact w d d' \<Longrightarrow> provider_limited w p r q d'" for d d'
    using provider_pays [of w p r q d] by (fastforce simp: provider_limited_def elim!: dispatch_step.cases intro: dispatch_step_inv)
  show "of_nat (provider_calls w p d') + stock (ds_now d') (the (dget (ds_req d') p))
      \<le> of_nat (provider_calls w p d) + stock (ds_now d) (the (dget (ds_req d) p)) + r / q * (ds_now d' - ds_now d)"
    if i: "provider_limited w p r q d" and s: "dispatch_step exact w d d'" for d d'
  proof -
    obtain l where "dget (ds_req d) p = Some l" using i by (auto simp: provider_limited_def)
    with s show ?thesis using provider_pays [OF i] by (fastforce elim!: dispatch_step.cases)
  qed
qed (auto simp: provider_limited_def dispatch_inv_def stock_bounds dest: starts_dispatch_inv)

section \<open>No coroutine is stuck between the buckets\<close>

lemma call_done:
  assumes "dispatch_inv w d" and "phase_of (ds_slots d) t = Limiting k"
  shows "\<exists>d'. call_handler w t d = Some d' \<and> slots_weight (attempt_limit w) (ds_slots d') < slots_weight (attempt_limit w) (ds_slots d)"
  using assms event_weight [of "attempt_limit w" "wf_max_parallel w" "ds_slots d" "Limited t"]
  by (simp add: call_handler_def dispatch_inv_def)

lemma raise_done:
  assumes "dispatch_inv w d" and "phase_of (ds_slots d) t = Limiting k"
  shows "\<exists>d'. raise_limiting w t d = Some d' \<and> slots_weight (attempt_limit w) (ds_slots d') < slots_weight (attempt_limit w) (ds_slots d)"
proof -
  let ?s = "set_phase t (Handling k) (ds_slots d)"
  have s: "apply_event (attempt_limit w) (Limited t) (ds_slots d) = Some ?s" using assms(2) by simp
  have i: "slots_inv (attempt_limit w) (wf_max_parallel w) (ds_slots d)" using assms(1) by (simp add: dispatch_inv_def)
  obtain u where u: "apply_event (attempt_limit w) (Fail t) ?s = Some u" by simp
  have "slots_weight (attempt_limit w) u < slots_weight (attempt_limit w) (ds_slots d)"
    using event_weight [OF event_inv [OF i s] u] event_weight [OF i s] by simp
  then show ?thesis unfolding raise_limiting_def using s u by simp
qed

text \<open>After the refill of one token a bucket serves the next request.\<close>

lemma bucket_serves:
  assumes "limiter_ok now l"
  shows "\<exists>now' \<ge> now. \<exists>l'. acquire exact 1 [now'] l = Inr (l', [], True)"
proof (cases l)
  case (TokenBucket b)
  then have b: "bucket_ok b" "1 \<le> bk_capacity b" "bk_updated b \<le> now" using assms by (simp_all add: limiter_ok_def)
  let ?t = "now + 1 / bucket_flow b"
  have f: "0 < bucket_flow b" using b(1) by (simp add: bucket_ok_def bucket_flow_def)
  then have t: "now \<le> ?t" by simp
  have "1 \<le> (?t - bk_updated b) * bucket_flow b"
    using f b(3) by (simp add: field_simps)
  then have "1 \<le> bk_tokens (refill exact ?t b)"
    using b by (simp add: refill_exact bucket_ok_def)
  then have "\<exists>b'. try_acquire exact 1 ?t b = (b', None)" by (simp add: try_acquire_def Let_def)
  then show ?thesis using TokenBucket acquire_pass [OF limiter_later [OF assms t]] t by fastforce
qed (auto simp: acquire_def intro: exI [of _ now])

lemma provider_done:
  assumes i: "dispatch_inv w d" and l: "phase_of (ds_slots d) t = Limiting k" and "t \<in> set (ds_past d)"
  shows "\<exists>r d'. run_dispatch exact w [Elapse r, Pass t] d = Some d'
    \<and> slots_weight (attempt_limit w) (ds_slots d') < slots_weight (attempt_limit w) (ds_slots d)"
proof -
  obtain r where r: "ds_now d \<le> r" "\<And>p l. task_provider w t = JStr p \<Longrightarrow> dget (ds_req d) p = Some l \<Longrightarrow>
      \<exists>l'. acquire exact 1 [r] l = Inr (l', [], True)"
  proof (cases "\<exists>p l. task_provider w t = JStr p \<and> dget (ds_req d) p = Some l")
    case True
    then obtain p l where p: "task_provider w t = JStr p" "dget (ds_req d) p = Some l" by blast
    then obtain r l' where "ds_now d \<le> r" "acquire exact 1 [r] l = Inr (l', [], True)"
      using bucket_serves [of "ds_now d" l] i by (auto simp: dispatch_inv_def)
    then show thesis using p by (intro that [of r]) auto
  qed (use that [of "ds_now d"] in auto)
  let ?d = "d\<lparr>ds_now := r\<rparr>"
  have e: "apply_dispatch exact w (Elapse r) d = Some ?d" using r(1) by simp
  note i' = dispatch_step_inv [OF i e]
  have "\<exists>d'. pass_provider exact w t ?d = Some d' \<and> slots_weight (attempt_limit w) (ds_slots d') < slots_weight (attempt_limit w) (ds_slots d)"
  proof (cases "task_provider w t")
    case (JStr p)
    show ?thesis
    proof (cases "dget (ds_req d) p")
      case (Some m)
      then obtain m' where m': "acquire exact 1 [r] m = Inr (m', [], True)" using r(2) JStr by blast
      have "dispatch_inv w (?d\<lparr>ds_req := dset p m' (ds_req d)\<rparr>)"
        using i' pass_keeps [OF _ m'] Some by (auto simp: dispatch_inv_def)
      then show ?thesis using call_done [of w "?d\<lparr>ds_req := dset p m' (ds_req d)\<rparr>" t k] l JStr Some m'
        by (simp add: pass_provider_def)
    qed (use call_done [OF i', of t k] l JStr in \<open>simp add: pass_provider_def\<close>)
  qed (use call_done [OF i', of t k] raise_done [OF i', of t k] l in \<open>simp_all add: pass_provider_def\<close>)
  then show ?thesis using r(1) l assms(3) by (intro exI [of _ r]) (auto simp: bind_eq_Some_conv)
qed

lemma limiting_done:
  assumes i: "dispatch_inv w d" and l: "phase_of (ds_slots d) t = Limiting k"
  shows "\<exists>rs d'. run_dispatch exact w (concat (map (\<lambda>r. [Elapse r, Pass t]) rs)) d = Some d'
    \<and> slots_weight (attempt_limit w) (ds_slots d') < slots_weight (attempt_limit w) (ds_slots d)"
proof (cases "t \<in> set (ds_past d)")
  case True
  obtain r d' where "run_dispatch exact w [Elapse r, Pass t] d = Some d'"
    "slots_weight (attempt_limit w) (ds_slots d') < slots_weight (attempt_limit w) (ds_slots d)"
    using provider_done [OF i l True] by blast
  then show ?thesis by (intro exI [of _ "[r]"] exI [of _ d']) simp
next
  case False
  obtain r g where r: "ds_now d \<le> r" "acquire exact 1 [r] (ds_global d) = Inr (g, [], True)"
    using bucket_serves [of "ds_now d" "ds_global d"] i by (auto simp: dispatch_inv_def)
  let ?d = "d\<lparr>ds_now := r, ds_global := g\<rparr>"
  have e: "apply_dispatch exact w (Elapse r) d = Some (d\<lparr>ds_now := r\<rparr>)" using r(1) by simp
  have i': "dispatch_inv w ?d"
    using dispatch_step_inv [OF i e] pass_keeps [OF _ r(2)] by (auto simp: dispatch_inv_def)
  show ?thesis
  proof (cases "truthy (task_provider w t)")
    case True
    let ?p = "?d\<lparr>ds_past := t # ds_past d\<rparr>"
    have p: "run_dispatch exact w [Elapse r, Pass t] d = Some ?p" "dispatch_inv w ?p"
      using r l False True i' by (simp_all add: pass_global_def dispatch_inv_def)
    obtain x d' where "run_dispatch exact w [Elapse x, Pass t] ?p = Some d'"
      "slots_weight (attempt_limit w) (ds_slots d') < slots_weight (attempt_limit w) (ds_slots d)"
      using provider_done [OF p(2), of t k] l by auto
    then show ?thesis using p(1) run_dispatch_append [of exact w "[Elapse r, Pass t]" "[Elapse x, Pass t]" d]
      by (intro exI [of _ "[r, x]"] exI [of _ d']) simp
  next
    case False': False
    obtain d' where "call_handler w t ?d = Some d'"
      "slots_weight (attempt_limit w) (ds_slots d') < slots_weight (attempt_limit w) (ds_slots d)"
      using call_done [OF i', of t k] l by auto
    then show ?thesis using r l False False' by (intro exI [of _ "[r]"] exI [of _ d']) (simp add: pass_global_def)
  qed
qed

text \<open>An event that neither cancels a coroutine nor is a pass.\<close>

fun uncancelled :: "dispatch_event \<Rightarrow> bool" where
  "uncancelled (Other (Cancel t)) = False"
| "uncancelled e = True"

lemma dispatch_finishes:
  assumes "dispatch_inv w d" and "0 < wf_max_parallel w"
  shows "\<exists>es d'. run_dispatch exact w es d = Some d' \<and> list_all uncancelled es
    \<and> (\<forall>t. phase_of (ds_slots d') t = Over) \<and> sl_value (ds_slots d') = wf_max_parallel w"
  using assms(1)
proof (induction "slots_weight (attempt_limit w) (ds_slots d)" arbitrary: d rule: less_induct)
  case less
  have i: "slots_inv (attempt_limit w) (wf_max_parallel w) (ds_slots d)" using less.prems by (simp add: dispatch_inv_def)
  have on: ?case if r: "run_dispatch exact w es d = Some u" "list_all uncancelled es"
    "slots_weight (attempt_limit w) (ds_slots u) < slots_weight (attempt_limit w) (ds_slots d)" for es u
  proof -
    have "dispatch_inv w u" using run_dispatch_steps [OF r(1)] less.prems
      by (induction rule: rtranclp_induct) (auto elim!: dispatch_step.cases intro: dispatch_step_inv)
    from less.hyps [OF r(3) this] obtain fs d' where "run_dispatch exact w fs u = Some d'" "list_all uncancelled fs"
      "\<forall>t. phase_of (ds_slots d') t = Over" "sl_value (ds_slots d') = wf_max_parallel w" by blast
    then show ?thesis using r(1,2) by (intro exI [of _ "es @ fs"] exI [of _ d']) (simp add: run_dispatch_append)
  qed
  show ?case
  proof (cases "\<exists>e s. (\<forall>t. e \<noteq> Cancel t) \<and> apply_event (attempt_limit w) e (ds_slots d) = Some s")
    case True
    then obtain e s where e: "\<forall>t. e \<noteq> Cancel t" "apply_event (attempt_limit w) e (ds_slots d) = Some s" by blast
    show ?thesis
    proof (cases "\<exists>t. e = Limited t")
      case True
      then obtain t k where t: "phase_of (ds_slots d) t = Limiting k" using e(2) by (auto split: phase.splits)
      obtain rs u where u: "run_dispatch exact w (concat (map (\<lambda>r. [Elapse r, Pass t]) rs)) d = Some u"
        "slots_weight (attempt_limit w) (ds_slots u) < slots_weight (attempt_limit w) (ds_slots d)"
        using limiting_done [OF less.prems t] by blast
      have "list_all uncancelled (concat (map (\<lambda>r. [Elapse r, Pass t]) rs))" by (induction rs) simp_all
      then show ?thesis by (rule on [OF u(1) _ u(2)])
    next
      case False
      then have "run_dispatch exact w [Other e] d = Some (d\<lparr>ds_slots := s\<rparr>)" "list_all uncancelled [Other e]"
        using e by (cases e; simp)+
      then show ?thesis by (rule on) (use event_weight [OF i e(2)] in simp)
    qed
  next
    case False
    then have "phase_of (ds_slots d) t = Over \<and> sl_value (ds_slots d) = wf_max_parallel w" for t
      by (intro all_over [OF i assms(2)]) auto
    then show ?thesis by (intro exI [of _ "[]"] exI [of _ d]) simp
  qed
qed

text \<open>A coroutine that sleeps in \<open>acquire\<close> keeps its permit: while every permit is held by such
  coroutines, no event but a pass or a cancellation lets a waiting one go on, whether or not it
  needs a bucket.\<close>

lemma waits_behind_limits:
  assumes "apply_dispatch fl w e d = Some d'" and "uncancelled e" and "\<forall>t. e \<noteq> Pass t"
    and "\<And>u. \<not> holds_permit (phase_of (ds_slots d) u) \<or> (\<exists>k. phase_of (ds_slots d) u = Limiting k)"
    and "phase_of (ds_slots d) t = Waiting k"
  shows "phase_of (ds_slots d') t = Waiting k"
proof -
  have "phase_of (ds_slots d) u \<noteq> Granted j" "phase_of (ds_slots d) u \<noteq> Handling j" for u j
    using assms(4) [of u] by auto
  then show ?thesis using assms(1,2,3,5)
    by (cases e rule: uncancelled.cases)
      (auto simp: enter_attempt_def sem_acquire_def elim!: is_limited.elims split: if_splits phase.splits)
qed

lemma past_bounded:
  assumes "dispatch_inv w d"
  shows "int (length (ds_past d)) \<le> wf_max_parallel w"
proof -
  let ?hs = "filter (\<lambda>(t, p). holds_permit p) (sl_phase (ds_slots d))"
  have "t \<in> fst ` set ?hs" if "t \<in> set (ds_past d)" for t
  proof -
    have "\<exists>k. phase_of (ds_slots d) t = Limiting k" using assms that by (simp add: dispatch_inv_def)
    then obtain k where "phase_of (ds_slots d) t = Limiting k" by blast
    then have "(t, Limiting k) \<in> set (sl_phase (ds_slots d))"
      by (auto simp: phase_of_def split: option.splits dest: map_of_SomeD)
    then show ?thesis by force
  qed
  then have "card (set (ds_past d)) \<le> card (fst ` set ?hs)" by (intro card_mono) auto
  also have "\<dots> \<le> length ?hs" by (rule order_trans [OF card_image_le card_length]) simp
  finally have "int (length (ds_past d)) \<le> int (length ?hs)"
    using assms by (simp add: dispatch_inv_def distinct_card)
  then show ?thesis using assms
    by (simp add: dispatch_inv_def slots_inv_def balanced_def count_phase_def case_prod_unfold)
qed

section \<open>The limits of a run\<close>

text \<open>What a rate limit promises of a window of the length \<open>window\<close>.\<close>

definition keeps_limit :: "rate_limit \<Rightarrow> rat \<Rightarrow> rat \<Rightarrow> bool" where
  "keeps_limit rl amount window = (case rl_per rl of None \<Rightarrow> False
     | Some per \<Rightarrow> amount \<le> of_int (rl_requests rl) * (1 + window / per))"

lemma bucket_for_limits:
  "bucket_for now (Some rl) name = Inr l \<Longrightarrow> \<exists>per. rl_per rl = Some per \<and> limits_to (of_int (rl_requests rl)) per l"
  by (auto simp: bucket_for_def init_bucket_def limits_to_def result_simps Let_def split: if_splits option.splits)

lemma window_keeps:
  "rl_per rl = Some per \<Longrightarrow> a \<le> of_int (rl_requests rl) + of_int (rl_requests rl) / per * x \<Longrightarrow> keeps_limit rl a x"
  by (simp add: keeps_limit_def algebra_simps)

definition limited_tasks :: workflow where
  "limited_tasks = sample_workflow\<lparr>wf_tasks := [sample_task, sample_task\<lparr>tk_id := ''u'', tk_provider := JStr ''p''\<rparr>],
     wf_max_parallel := 2, wf_rate_limit := Some demo_limit,
     wf_providers := [(''p'', \<lparr>pv_name = ''p'', pv_rate_limit = Some demo_limit\<rparr>)]\<rparr>"

definition limited_start :: gated where
  "limited_start = init_dispatch 0 limited_tasks (case make_buckets (\<lambda>n. 0) limited_tasks of
     Inl e \<Rightarrow> (NullBucket, [], []) | Inr bs \<Rightarrow> bs)"

lemma limited_start: "starts_dispatch limited_tasks limited_start" "distinct (task_ids limited_tasks)"
proof -
  have "\<exists>bs. make_buckets (\<lambda>n. 0) limited_tasks = Inr bs"
    by (simp add: make_buckets_def limited_tasks_def sample_workflow_def bucket_for_def token_bucket_for_def
      init_bucket_def demo_limit_def Let_def result_simps)
  then show "starts_dispatch limited_tasks limited_start"
    unfolding starts_dispatch_def limited_start_def
    by (auto intro!: exI [of _ "\<lambda>n. 0"] exI [of _ 0] simp: make_semaphore_def limited_tasks_def)
qed (simp add: limited_tasks_def sample_workflow_def sample_task_def)

text \<open>The coroutine \<open>u\<close> is between its two buckets when the window starts.\<close>

definition before_window :: "dispatch_event list" where
  "before_window = [Other (Start ''t''), Other (Start ''u''), Pass ''u'']"

definition in_window :: "dispatch_event list" where
  "in_window = [Pass ''t'', Elapse (1 / 2), Pass ''u'', Other (Complete ''u'')]"

definition dispatch_summary :: "gated \<Rightarrow> string list \<times> string list \<times> rat" where
  "dispatch_summary d = (ds_calls d, ds_past d, ds_now d)"

lemma limited_providers:
  "task_provider limited_tasks ''t'' = JNull" "task_provider limited_tasks ''u'' = JStr ''p''"
  by code_simp+

lemma limited_run:
  "map_option dispatch_summary (run_dispatch exact limited_tasks before_window limited_start) = Some ([], [''u''], 0)"
  "map_option dispatch_summary (run_dispatch exact limited_tasks (before_window @ in_window) limited_start)
     = Some ([''u'', ''t''], [], 1 / 2)"
  by code_simp+

text \<open>C12. The rate limits of a run hold in every window, in exact arithmetic: whatever the coroutines of a
  run with distinct task ids do, under any interleaving, from any state it reaches to any later one the
  handlers called are at most the \<open>requests\<close> of the rate limit and as many again for every period that
  passes, but for the coroutines that had already passed the bucket of the run and waited for that of
  their provider, at most \<open>max_parallel\<close>. The tasks of a provider with a rate limit and a name that is
  not empty keep that limit, without such an allowance.\<close>

theorem dispatch_rate:
  assumes "starts_dispatch w s" and "distinct (task_ids w)" and "p \<noteq> []"
    and "dispatch_steps exact w s d" and "dispatch_steps exact w d d'"
  shows "(case wf_rate_limit w of None \<Rightarrow> True
      | Some rl \<Rightarrow> keeps_limit rl (of_nat (length (ds_calls d')) - of_nat (length (ds_calls d)) - of_nat (length (ds_past d)))
          (ds_now d' - ds_now d))
    \<and> int (length (ds_past d)) \<le> wf_max_parallel w
    \<and> (case Option.bind (dget (wf_providers w) p) pv_rate_limit of None \<Rightarrow> True
      | Some rl \<Rightarrow> keeps_limit rl (of_nat (provider_calls w p d') - of_nat (provider_calls w p d)) (ds_now d' - ds_now d))"
proof -
  obtain now bs start where s: "make_buckets now w = Inr bs" "s = init_dispatch start w bs"
    using assms(1) by (auto simp: starts_dispatch_def)
  obtain g req tok where bs: "bs = (g, req, tok)" by (cases bs)
  note req = make_buckets_req [OF s(1) [unfolded bs]]
  have s': "ds_global s = g" "ds_req s = req" by (simp_all add: s(2) bs init_dispatch_def)
  have "case wf_rate_limit w of None \<Rightarrow> True
      | Some rl \<Rightarrow> keeps_limit rl (of_nat (length (ds_calls d')) - of_nat (length (ds_calls d)) - of_nat (length (ds_past d)))
          (ds_now d' - ds_now d)"
  proof (cases "wf_rate_limit w")
    case (Some rl)
    then obtain per where per: "rl_per rl = Some per" "limits_to (of_int (rl_requests rl)) per g"
      using bucket_for_limits req(1) by metis
    from run_meter.window_spent [OF _ assms(4,5)] per(2) assms(1,2) s'(1)
    have "run_spent d' - run_spent d \<le> of_int (rl_requests rl) + of_int (rl_requests rl) / per * (ds_now d' - ds_now d)"
      by blast
    then show ?thesis using Some by (simp add: run_spent_def window_keeps [OF per(1)])
  qed simp
  moreover have "case Option.bind (dget (wf_providers w) p) pv_rate_limit of None \<Rightarrow> True
      | Some rl \<Rightarrow> keeps_limit rl (of_nat (provider_calls w p d') - of_nat (provider_calls w p d)) (ds_now d' - ds_now d)"
  proof (cases "Option.bind (dget (wf_providers w) p) pv_rate_limit")
    case (Some rl)
    then obtain v where v: "dget (wf_providers w) p = Some v" "pv_rate_limit v = Some rl" by (auto simp: bind_eq_Some_conv)
    obtain l where l: "dget req p = Some l" "bucket_for (now (p @ ''.req'')) (Some rl) (p @ ''.req'') = Inr l"
      using make_buckets_total_req [OF s(1) [unfolded bs] v(1)] v(2) by auto
    then obtain per where per: "rl_per rl = Some per" "limits_to (of_int (rl_requests rl)) per l"
      using bucket_for_limits by metis
    from provider_meter.window_spent [OF _ assms(4,5)] per(2) l(1) assms(1,2,3) s'(2)
    have "of_nat (provider_calls w p d') - of_nat (provider_calls w p d)
        \<le> of_int (rl_requests rl) + of_int (rl_requests rl) / per * (ds_now d' - ds_now d)"
      by blast
    then show ?thesis using Some by (simp add: window_keeps [OF per(1)])
  qed simp
  moreover have "dispatch_inv w d" by (rule reachable_dispatch [OF assms(1,2,4)])
  ultimately show ?thesis using past_bounded by blast
qed

theorem dispatch_rate_witness:
  "\<exists>d d'. run_dispatch exact limited_tasks before_window limited_start = Some d
     \<and> run_dispatch exact limited_tasks in_window d = Some d'
     \<and> length (ds_calls d') = 2 \<and> keeps_limit demo_limit (2 - 0 - 1) (1 / 2)
     \<and> provider_calls limited_tasks ''p'' d' = 1 \<and> keeps_limit demo_limit (1 - 0) (1 / 2)"
proof -
  obtain d where d: "run_dispatch exact limited_tasks before_window limited_start = Some d"
    "ds_calls d = []" "ds_past d = [''u'']" "ds_now d = 0"
    using limited_run(1) by (auto simp: dispatch_summary_def)
  obtain d' where d': "run_dispatch exact limited_tasks in_window d = Some d'"
    "ds_calls d' = [''u'', ''t'']" "ds_now d' = 1 / 2"
    using limited_run(2) d(1) by (auto simp: dispatch_summary_def run_dispatch_append)
  have p: "provider_calls limited_tasks ''p'' d = 0" "provider_calls limited_tasks ''p'' d' = 1"
    by (simp_all add: provider_calls_def d(2) d'(2) limited_providers)
  have l: "wf_rate_limit limited_tasks = Some demo_limit"
    "Option.bind (dget (wf_providers limited_tasks) ''p'') pv_rate_limit = Some demo_limit"
    by (simp_all add: limited_tasks_def)
  from dispatch_rate [OF limited_start _ run_dispatch_steps [OF d(1)] run_dispatch_steps [OF d'(1)], of "''p''"]
  have "keeps_limit demo_limit (2 - 0 - 1) (1 / 2)" "keeps_limit demo_limit (1 - 0) (1 / 2)"
    by (simp_all add: l p d(2-4) d'(2,3))
  then show ?thesis using d d' p by auto
qed

text \<open>C13. No run is stuck behind its limits, in exact arithmetic: from every state that the coroutines of a
  run with distinct task ids and a positive \<open>max_parallel\<close> can reach, some events that cancel nothing
  lead to one in which all are over and all permits are back.\<close>

theorem dispatch_completes:
  assumes "starts_dispatch w s" and "distinct (task_ids w)" and "0 < wf_max_parallel w"
    and "dispatch_steps exact w s d"
  shows "\<exists>es d'. run_dispatch exact w es d = Some d' \<and> list_all uncancelled es
    \<and> (\<forall>t. phase_of (ds_slots d') t = Over) \<and> sl_value (ds_slots d') = wf_max_parallel w"
  by (rule dispatch_finishes [OF reachable_dispatch [OF assms(1,2,4)] assms(3)])

theorem dispatch_completes_witness:
  "\<exists>d es d'. run_dispatch exact limited_tasks before_window limited_start = Some d
     \<and> run_dispatch exact limited_tasks es d = Some d' \<and> phase_of (ds_slots d') ''u'' = Over
     \<and> sl_value (ds_slots d') = 2"
proof -
  obtain d where d: "run_dispatch exact limited_tasks before_window limited_start = Some d"
    using limited_run(1) by auto
  have "0 < wf_max_parallel limited_tasks" "wf_max_parallel limited_tasks = 2" by (simp_all add: limited_tasks_def)
  then show ?thesis using dispatch_completes [OF limited_start _ run_dispatch_steps [OF d]] d by auto
qed

end
