(* ===== verification/Concurrent_Runs.thy ===== *)
theory Concurrent_Runs
  imports Orchestrator_Run
begin

text \<open>
  Several runs of one \<open>Orchestrator\<close> object on one event loop. They share one mutable
  attribute, \<open>_current_inputs\<close> of \<open>sdk-python/orchestrator/engine.py\<close>: \<open>_validate_inputs\<close> sets
  it when a run begins, \<open>_execute_task\<close> reads it when a task begins. A turn of a run is one
  step: the coroutines it dispatches start before another run gets control, or after it, in
  which case the other run's step comes first in the order of the events.
\<close>

section \<open>The shared state\<close>

record requested =
  rq_workflow :: workflow
  rq_inputs :: "(string, json) dict"

record multi =
  mu_current :: "(string, json) dict"
  mu_configs :: "(string, config) dict"

definition new_multi :: multi where
  "new_multi = \<lparr>mu_current = [], mu_configs = []\<rparr>"

datatype run_event = Enter string | Turn string "string list"

text \<open>What happens before the loop of a run.\<close>

definition before_loop :: "run_clock \<Rightarrow> workflow \<Rightarrow> (string, json) dict \<Rightarrow> int res" where
  "before_loop clk w inputs =
     rbind (validate_inputs w inputs) (\<lambda>_. rbind (make_buckets (rc_bucket clk) w) (\<lambda>_. make_semaphore w))"

definition start_config :: "run_clock \<Rightarrow> requested \<Rightarrow> config" where
  "start_config clk rq =
     (case before_loop clk (rq_workflow rq) (rq_inputs rq) of
        Inl e \<Rightarrow> Raised e | Inr _ \<Rightarrow> Loop (init_sched (rq_workflow rq)))"

text \<open>\<open>_current_inputs\<close> is set before the inputs are checked.\<close>

fun apply_run_event :: "run_env \<Rightarrow> run_clock \<Rightarrow> (string, requested) dict \<Rightarrow> run_event \<Rightarrow> multi \<Rightarrow> multi option" where
  "apply_run_event env clk rqs (Enter r) m =
     (case dget rqs r of
        None \<Rightarrow> None
      | Some rq \<Rightarrow>
          if r \<in> set (dkeys (mu_configs m)) then None
          else Some \<lparr>mu_current = rq_inputs rq, mu_configs = dset r (start_config clk rq) (mu_configs m)\<rparr>)"
| "apply_run_event env clk rqs (Turn r batch) m =
     (case (dget rqs r, dget (mu_configs m) r) of
        (Some rq, Some (Loop s)) \<Rightarrow>
          if batch_ok env (rq_workflow rq) (mu_current m) batch s
          then Some (m\<lparr>mu_configs := dset r (turn env (rq_workflow rq) (mu_current m) batch s) (mu_configs m)\<rparr>)
          else None
      | _ \<Rightarrow> None)"

fun run_multi :: "run_env \<Rightarrow> run_clock \<Rightarrow> (string, requested) dict \<Rightarrow> run_event list \<Rightarrow> multi \<Rightarrow> multi option" where
  "run_multi env clk rqs [] m = Some m"
| "run_multi env clk rqs (e # es) m =
     (case apply_run_event env clk rqs e m of None \<Rightarrow> None | Some m' \<Rightarrow> run_multi env clk rqs es m')"

section \<open>Runs that do not disturb each other\<close>

lemma run_multi_append:
  "run_multi env clk rqs (es @ es') m =
     (case run_multi env clk rqs es m of None \<Rightarrow> None | Some m' \<Rightarrow> run_multi env clk rqs es' m')"
  by (induction es arbitrary: m) (auto split: option.splits)

text \<open>Whether an event keeps the current inputs, and whether it is a turn of a run.\<close>

fun keeps_inputs :: "(string, requested) dict \<Rightarrow> (string, json) dict \<Rightarrow> run_event \<Rightarrow> bool" where
  "keeps_inputs rqs inputs (Enter r) = (case dget rqs r of None \<Rightarrow> True | Some rq \<Rightarrow> rq_inputs rq = inputs)"
| "keeps_inputs rqs inputs (Turn r b) = True"

fun turn_of :: "string \<Rightarrow> run_event \<Rightarrow> bool" where
  "turn_of r (Turn q b) = (q = r)"
| "turn_of r (Enter q) = False"

text \<open>A configuration that the run of a request reaches when its tasks are given these inputs.\<close>

definition runs_with :: "run_env \<Rightarrow> run_clock \<Rightarrow> requested \<Rightarrow> (string, json) dict \<Rightarrow> config \<Rightarrow> bool" where
  "runs_with env clk rq inputs c \<longleftrightarrow> sched_steps env (rq_workflow rq) inputs (start_config clk rq) c"

lemma runs_with_start: "runs_with env clk rq inputs (start_config clk rq)"
  by (simp add: runs_with_def)

lemma keep_current:
  assumes "apply_run_event env clk rqs e m = Some m'" and "keeps_inputs rqs inputs e" and "mu_current m = inputs"
  shows "mu_current m' = inputs"
  using assms by (cases e) (auto split: option.splits config.splits if_splits)

text \<open>An event of another run leaves the configuration of a run.\<close>

lemma others_keep:
  assumes "apply_run_event env clk rqs e m = Some m'" and "\<not> turn_of r e" and "dget (mu_configs m) r = Some c"
  shows "dget (mu_configs m') r = Some c"
proof (cases e)
  case (Enter q)
  then obtain rq' where q: "q \<notin> fst ` set (mu_configs m)"
    "m' = \<lparr>mu_current = rq_inputs rq', mu_configs = dset q (start_config clk rq') (mu_configs m)\<rparr>"
    using assms(1) by (auto split: option.splits if_splits)
  then have "q \<noteq> r" using dget_Some_key [OF assms(3)] by blast
  then show ?thesis using q(2) assms(3) by simp
qed (use assms in \<open>auto split: option.splits config.splits if_splits\<close>)

lemma run_others_keep:
  "run_multi env clk rqs es m = Some m' \<Longrightarrow> list_all (\<lambda>e. \<not> turn_of r e) es \<Longrightarrow>
     dget (mu_configs m) r = Some c \<Longrightarrow> dget (mu_configs m') r = Some c"
  by (induction es arbitrary: m) (auto dest: others_keep split: option.splits)

lemma keep_runs_with:
  assumes e: "apply_run_event env clk rqs e m = Some m'" and r: "dget rqs r = Some rq"
    and c: "dget (mu_configs m) r = Some c" "runs_with env clk rq (mu_current m) c"
  shows "\<exists>c'. dget (mu_configs m') r = Some c' \<and> runs_with env clk rq (mu_current m) c'"
proof (cases "turn_of r e")
  case True
  then obtain b s where s: "c = Loop s" "batch_ok env (rq_workflow rq) (mu_current m) b s"
    "m' = m\<lparr>mu_configs := dset r (turn env (rq_workflow rq) (mu_current m) b s) (mu_configs m)\<rparr>"
    using e r c(1) by (cases e) (auto split: config.splits if_splits)
  then have "sched_step env (rq_workflow rq) (mu_current m) c (turn env (rq_workflow rq) (mu_current m) b s)"
    by auto
  then have "runs_with env clk rq (mu_current m) (turn env (rq_workflow rq) (mu_current m) b s)"
    using c(2) unfolding runs_with_def by (rule rtranclp.rtrancl_into_rtrancl [rotated])
  then show ?thesis using s(3) by simp
qed (use others_keep [OF e _ c(1)] c(2) in blast)

lemma run_runs_with:
  assumes "run_multi env clk rqs es m = Some m'" and "list_all (keeps_inputs rqs (mu_current m)) es"
    and "dget rqs r = Some rq" and "dget (mu_configs m) r = Some c" and "runs_with env clk rq (mu_current m) c"
  shows "\<exists>c'. dget (mu_configs m') r = Some c' \<and> runs_with env clk rq (mu_current m) c'"
  using assms
proof (induction es arbitrary: m c)
  case (Cons e es)
  obtain m1 where m1: "apply_run_event env clk rqs e m = Some m1" "run_multi env clk rqs es m1 = Some m'"
    using Cons.prems(1) by (auto split: option.splits)
  obtain c1 where "dget (mu_configs m1) r = Some c1" "runs_with env clk rq (mu_current m) c1"
    using keep_runs_with [OF m1(1) Cons.prems(3-5)] by blast
  moreover have "mu_current m1 = mu_current m"
    using keep_current [OF m1(1)] Cons.prems(2) by simp
  ultimately show ?case using Cons.IH [OF m1(2)] Cons.prems(2,3) by simp
qed auto

lemma entered:
  "apply_run_event env clk rqs (Enter r) m = Some m' \<Longrightarrow> dget rqs r = Some rq \<Longrightarrow>
     mu_current m' = rq_inputs rq \<and> dget (mu_configs m') r = Some (start_config clk rq)"
  by (auto split: if_splits)

text \<open>C33. Isolation under a condition: a run behaves as it would alone (a report or an exception of
  the single-run machine on its own inputs) when no run with other inputs begins on the same
  orchestrator after it, whatever turns of other runs come between its own.\<close>

theorem undisturbed_run:
  assumes "run_multi env clk rqs (es @ Enter r # es') new_multi = Some m" and "dget rqs r = Some rq"
    and "list_all (keeps_inputs rqs (rq_inputs rq)) es'"
  shows "\<exists>c. dget (mu_configs m) r = Some c
    \<and> sched_steps env (rq_workflow rq) (rq_inputs rq) (start_config clk rq) c"
proof -
  obtain m0 m1 where m: "apply_run_event env clk rqs (Enter r) m0 = Some m1" "run_multi env clk rqs es' m1 = Some m"
    using assms(1) by (auto simp: run_multi_append split: option.splits)
  note e = entered [OF m(1) assms(2)]
  show ?thesis
    using run_runs_with [OF m(2) _ assms(2) conjunct2 [OF e] runs_with_start] assms(3) e by (simp add: runs_with_def)
qed

section \<open>Runs that disturb each other\<close>

definition demo_requests :: "(string, requested) dict" where
  "demo_requests =
     [(''r1'', \<lparr>rq_workflow = demo_workflow ''copy'' ''continue'', rq_inputs = [(''x'', JInt 7)]\<rparr>),
      (''r2'', \<lparr>rq_workflow = demo_workflow ''copy'' ''continue'', rq_inputs = [(''x'', JInt 8)]\<rparr>)]"

text \<open>The output of a finished run, with the inputs it was given.\<close>

definition output_of :: "run_env \<Rightarrow> (string, requested) dict \<Rightarrow> multi \<Rightarrow> string \<Rightarrow> json option" where
  "output_of env rqs m r =
     (case (dget rqs r, dget (mu_configs m) r) of
        (Some rq, Some (Finished s)) \<Rightarrow> Some (run_output env (rq_workflow rq) (rq_inputs rq) s)
      | _ \<Rightarrow> None)"

definition turns :: "string \<Rightarrow> run_event list" where
  "turns r = [Turn r [''a'', ''b''], Turn r [''c''], Turn r []]"

text \<open>C34. Interference: when another run begins on the same orchestrator after a run and before its first
  turn, and no run with still other inputs begins later, every task of the earlier run gets the inputs
  of the other one: it reaches exactly what a run of its own workflow reaches that checks its own
  inputs and then executes its tasks with those of the other run.\<close>

theorem runs_interfere:
  assumes "run_multi env clk rqs (es @ Enter r # es' @ Enter q # es'') new_multi = Some m"
    and "dget rqs r = Some rq" and "dget rqs q = Some other"
    and "list_all (\<lambda>e. \<not> turn_of r e) es'" and "list_all (keeps_inputs rqs (rq_inputs other)) es''"
  shows "\<exists>c. dget (mu_configs m) r = Some c
    \<and> sched_steps env (rq_workflow rq) (rq_inputs other) (start_config clk rq) c"
proof -
  obtain m0 m1 m2 m3 where m: "apply_run_event env clk rqs (Enter r) m0 = Some m1"
    "run_multi env clk rqs es' m1 = Some m2" "apply_run_event env clk rqs (Enter q) m2 = Some m3"
    "run_multi env clk rqs es'' m3 = Some m"
    using assms(1) by (auto simp: run_multi_append split: option.splits)
  have "dget (mu_configs m1) r = Some (start_config clk rq)" using entered [OF m(1) assms(2)] ..
  then have "dget (mu_configs m2) r = Some (start_config clk rq)" by (rule run_others_keep [OF m(2) assms(4)])
  then have r: "dget (mu_configs m3) r = Some (start_config clk rq)" using others_keep [OF m(3)] by simp
  have "mu_current m3 = rq_inputs other" using entered [OF m(3) assms(3)] ..
  then show ?thesis
    using run_runs_with [OF m(4) _ assms(2) r runs_with_start] assms(5) by (simp add: runs_with_def)
qed

text \<open>Two runs of one workflow, the first given 7, the second 8: the first finishes with 8.\<close>

theorem runs_interfere_witness:
  "\<exists>m. run_multi demo_env demo_clock demo_requests (Enter ''r1'' # Enter ''r2'' # turns ''r1'' @ turns ''r2'') new_multi = Some m
     \<and> output_of demo_env demo_requests m ''r1'' = Some (JInt 8)
     \<and> (\<exists>c. dget (mu_configs m) ''r1'' = Some c
          \<and> sched_steps demo_env (demo_workflow ''copy'' ''continue'') [(''x'', JInt 8)] (Loop (init_sched (demo_workflow ''copy'' ''continue''))) c)"
proof -
  let ?es = "turns ''r1'' @ turns ''r2''"
  let ?rq = "\<lambda>n. \<lparr>rq_workflow = demo_workflow ''copy'' ''continue'', rq_inputs = [(''x'', JInt n)]\<rparr>"
  have "map_option (\<lambda>m. output_of demo_env demo_requests m ''r1'')
     (run_multi demo_env demo_clock demo_requests ([] @ Enter ''r1'' # [] @ Enter ''r2'' # ?es) new_multi) = Some (Some (JInt 8))"
    by code_simp
  then obtain m where m: "run_multi demo_env demo_clock demo_requests ([] @ Enter ''r1'' # [] @ Enter ''r2'' # ?es) new_multi = Some m"
    "output_of demo_env demo_requests m ''r1'' = Some (JInt 8)" by blast
  have rq: "dget demo_requests ''r1'' = Some (?rq 7)" "dget demo_requests ''r2'' = Some (?rq 8)"
    by (simp_all add: demo_requests_def)
  have k: "list_all (keeps_inputs demo_requests (rq_inputs (?rq 8))) ?es" by (simp add: turns_def)
  have "is_ok (before_loop demo_clock (demo_workflow ''copy'' ''continue'') [(''x'', JInt 7)])" by code_simp
  then have "start_config demo_clock (?rq 7) = Loop (init_sched (demo_workflow ''copy'' ''continue''))"
    by (auto simp: start_config_def split: sum.splits)
  then show ?thesis using runs_interfere [OF m(1) rq _ k] m by auto
qed

theorem undisturbed_run_witness:
  "\<exists>m c. run_multi demo_env demo_clock demo_requests (Enter ''r2'' # Enter ''r1'' # turns ''r2'' @ turns ''r1'') new_multi = Some m
     \<and> dget (mu_configs m) ''r1'' = Some c
     \<and> sched_steps demo_env (demo_workflow ''copy'' ''continue'') [(''x'', JInt 7)] (Loop (init_sched (demo_workflow ''copy'' ''continue''))) c"
proof -
  let ?es = "turns ''r2'' @ turns ''r1''"
  let ?rq = "\<lparr>rq_workflow = demo_workflow ''copy'' ''continue'', rq_inputs = [(''x'', JInt 7)]\<rparr>"
  have "run_multi demo_env demo_clock demo_requests ([Enter ''r2''] @ Enter ''r1'' # ?es) new_multi \<noteq> None"
    by code_simp
  then obtain m where m: "run_multi demo_env demo_clock demo_requests ([Enter ''r2''] @ Enter ''r1'' # ?es) new_multi = Some m"
    by blast
  have rq: "dget demo_requests ''r1'' = Some ?rq" by (simp add: demo_requests_def)
  have k: "list_all (keeps_inputs demo_requests (rq_inputs ?rq)) ?es" by (simp add: turns_def)
  have "is_ok (before_loop demo_clock (demo_workflow ''copy'' ''continue'') [(''x'', JInt 7)])" by code_simp
  then have "start_config demo_clock ?rq = Loop (init_sched (demo_workflow ''copy'' ''continue''))"
    by (auto simp: start_config_def split: sum.splits)
  then show ?thesis using undisturbed_run [OF m rq k] m by auto
qed

end
