(* ===== verification/Event_Loop.thy ===== *)
theory Event_Loop
  imports Orchestrator_Run Parallelism
begin

text \<open>
  The run loop and its coroutines together: \<open>Orchestrator.run\<close> suspended in \<open>asyncio.wait\<close> while
  the coroutines of \<open>_execute_task\<close> move on the semaphore (\<open>sdk-python/orchestrator/engine.py\<close>). The
  theories \<open>Scheduler\<close> and \<open>Parallelism\<close> each look at one side; here the loop reports exactly the
  futures whose coroutines are over, a coroutine moves only while its future is running, and the
  events it takes are those of the attempts it makes. The \<open>base\<close> of the retries is a duration, as in every
  workflow that \<open>from_dict\<close> builds.
\<close>

section \<open>The state and its events\<close>

record event_loop =
  el_config :: config
  el_slots :: slots

definition init_loop :: "workflow \<Rightarrow> event_loop" where
  "init_loop w = \<lparr>el_config = Loop (init_sched w), el_slots = run_slots w\<rparr>"

text \<open>The futures of the loop when it waits: those of \<open>running\<close> after the ready tasks are
  dispatched, which happens without a suspension.\<close>

definition futures :: "run_env \<Rightarrow> workflow \<Rightarrow> (string, json) dict \<Rightarrow> sched \<Rightarrow> (string, task_span res) dict" where
  "futures env w inputs s =
     (case dispatch env w inputs (sc_ready s) s of Inl e \<Rightarrow> [] | Inr s1 \<Rightarrow> sc_running s1)"

text \<open>The next event of a coroutine that will end with \<open>r\<close>. One that raises while it resolves its
  inputs never comes to the semaphore, which sees it leave as an idle one that is cancelled. In the
  attempt that ends it without a failure the handler returns (or is itself cancelled); in all others it
  fails. A waiting coroutine is woken by the others.\<close>

definition next_event :: "string \<Rightarrow> task_span res \<Rightarrow> phase \<Rightarrow> slot_event option" where
  "next_event t r p =
     (case p of
        Idle \<Rightarrow> Some (case r of Inl e \<Rightarrow> Cancel t | Inr sp \<Rightarrow> Start t)
      | Waiting k \<Rightarrow> None
      | Granted k \<Rightarrow> Some (Resume t)
      | Limiting k \<Rightarrow> Some (Limited t)
      | Handling k \<Rightarrow>
          (case r of
             Inl e \<Rightarrow> None
           | Inr sp \<Rightarrow> Some (if k = ts_attempts sp \<and> ts_status sp \<noteq> Failed then Complete t else Fail t))
      | Sleeping k \<Rightarrow> Some (Wake t)
      | Over \<Rightarrow> None)"

text \<open>What \<open>asyncio.wait\<close> reports once some future is done: all that are, in any order.\<close>

definition reported :: "(string, task_span res) dict \<Rightarrow> slots \<Rightarrow> string list \<Rightarrow> bool" where
  "reported fs sl batch \<longleftrightarrow> distinct batch \<and> set batch = set (filter (\<lambda>t. phase_of sl t = Over) (dkeys fs))
     \<and> (fs = [] \<longleftrightarrow> batch = [])"

text \<open>\<open>f.cancel()\<close> for every running future, then the wait for them; a future that is done
  stays as it is.\<close>

fun cancel_all :: "(string \<Rightarrow> int) \<Rightarrow> string list \<Rightarrow> slots \<Rightarrow> slots" where
  "cancel_all bound [] sl = sl"
| "cancel_all bound (t # ts) sl =
     cancel_all bound ts (case apply_event bound (Cancel t) sl of None \<Rightarrow> sl | Some sl' \<Rightarrow> sl')"

definition settle :: "workflow \<Rightarrow> (string, task_span res) dict \<Rightarrow> config \<Rightarrow> slots \<Rightarrow> slots" where
  "settle w fs c sl = (case c of
     Finished s \<Rightarrow> if sc_failed s then cancel_all (attempt_limit w) (dkeys fs) sl else sl
   | _ \<Rightarrow> sl)"

datatype loop_event =
    Move string
  | Collect "string list"

fun apply_loop :: "run_env \<Rightarrow> workflow \<Rightarrow> (string, json) dict \<Rightarrow> loop_event \<Rightarrow> event_loop \<Rightarrow> event_loop option" where
  "apply_loop env w inputs (Move t) v =
     (case el_config v of
        Loop s \<Rightarrow>
          (case dget (futures env w inputs s) t of
             None \<Rightarrow> None
           | Some r \<Rightarrow>
               (case next_event t r (phase_of (el_slots v) t) of
                  None \<Rightarrow> None
                | Some e \<Rightarrow> map_option (\<lambda>sl. v\<lparr>el_slots := sl\<rparr>) (apply_event (attempt_limit w) e (el_slots v))))
      | _ \<Rightarrow> None)"
| "apply_loop env w inputs (Collect batch) v =
     (case el_config v of
        Loop s \<Rightarrow>
          (let fs = futures env w inputs s; c = turn env w inputs batch s
           in if reported fs (el_slots v) batch
              then Some \<lparr>el_config = c, el_slots = settle w fs c (el_slots v)\<rparr>
              else None)
      | _ \<Rightarrow> None)"

inductive loop_step :: "run_env \<Rightarrow> workflow \<Rightarrow> (string, json) dict \<Rightarrow> event_loop \<Rightarrow> event_loop \<Rightarrow> bool"
  for env w inputs where
  "apply_loop env w inputs e v = Some v' \<Longrightarrow> loop_step env w inputs v v'"

fun run_loop :: "run_env \<Rightarrow> workflow \<Rightarrow> (string, json) dict \<Rightarrow> loop_event list \<Rightarrow> event_loop \<Rightarrow> event_loop option" where
  "run_loop env w inputs [] v = Some v"
| "run_loop env w inputs (e # es) v = Option.bind (apply_loop env w inputs e v) (run_loop env w inputs es)"

lemma run_loop_steps: "run_loop env w inputs es v = Some v' \<Longrightarrow> (loop_step env w inputs ^^ length es) v v'"
proof (induction es arbitrary: v)
  case (Cons e es)
  then obtain u where "apply_loop env w inputs e v = Some u" "run_loop env w inputs es u = Some v'"
    by (auto simp: bind_eq_Some_conv)
  then have "loop_step env w inputs v u" "(loop_step env w inputs ^^ length es) u v'"
    using Cons.IH by (auto intro: loop_step.intros)
  then show ?case by (metis length_Cons relpowp_Suc_I2)
qed simp

end
