(* ===== verification/Event_Loop_Correct.thy ===== *)
theory Event_Loop_Correct
  imports Event_Loop
begin

text \<open>
  What holds of every interleaving of the run loop and its coroutines, over the machine of theory
  \<open>Event_Loop\<close>: the two sides agree (\<open>loop_inv\<close>), each follows the theory that describes it
  alone, and no run is stuck before it has ended.
\<close>

section \<open>What an event does to the others\<close>

lemma no_holder_value:
  assumes "slots_inv bound cap sl" and "\<And>u. \<not> holds_permit (phase_of sl u)"
  shows "sl_value sl = cap"
proof -
  have b: "balanced cap sl" using assms(1) by (simp add: slots_inv_def)
  have "dget (sl_phase sl) u = Some q" if "(u, q) \<in> set (sl_phase sl)" for u q
    using that b by (simp add: balanced_def)
  then have "\<not> holds_permit q" if "(u, q) \<in> set (sl_phase sl)" for u q
    using that assms(2) [of u] by (metis phase_of_def option.simps(5))
  then have "count_phase holds_permit sl = 0" by (auto simp: count_phase_def filter_empty_conv)
  then show ?thesis using b by (simp add: balanced_def)
qed


fun subject :: "slot_event \<Rightarrow> string" where
  "subject (Start t) = t"
| "subject (Resume t) = t"
| "subject (Limited t) = t"
| "subject (Complete t) = t"
| "subject (Fail t) = t"
| "subject (Wake t) = t"
| "subject (Cancel t) = t"

definition undisturbed :: "string \<Rightarrow> slots \<Rightarrow> slots \<Rightarrow> bool" where
  "undisturbed t s s' \<longleftrightarrow> phase_of s' t = phase_of s t
     \<or> (\<exists>k. phase_of s t = Waiting k \<and> phase_of s' t = Granted k)"

lemma woken_undisturbed: "woken s s' \<Longrightarrow> undisturbed t s s'"
  by (simp add: woken_def undisturbed_def)

lemma undisturbed_refl [simp]: "undisturbed t s s"
  by (simp add: undisturbed_def)

lemma undisturbed_trans: "undisturbed t s u \<Longrightarrow> undisturbed t u v \<Longrightarrow> undisturbed t s v"
  by (auto simp: undisturbed_def)

lemma undisturbed_same: "phase_of s t = phase_of u t \<Longrightarrow> undisturbed t u v \<Longrightarrow> undisturbed t s v"
  by (simp add: undisturbed_def)

lemma event_others:
  assumes "apply_event bound e s = Some s'" and "t \<noteq> subject e"
  shows "undisturbed t s s'"
proof -
  have a: "phase_of s t = phase_of u t \<Longrightarrow> undisturbed t s (wake_all n u)" for n u
    by (rule undisturbed_same [OF _ woken_undisturbed [OF woken_all]])
  have r: "phase_of s t = phase_of u t \<Longrightarrow> undisturbed t s (sem_release u)" for u
    by (rule undisturbed_same [OF _ woken_undisturbed [OF woken_release]])
  have s: "phase_of s t = phase_of u t \<Longrightarrow> undisturbed t s u" for u
    by (simp add: undisturbed_def)
  show ?thesis using assms
    by (cases e) (auto simp: enter_attempt_def sem_acquire_def intro!: a r intro: s split: phase.splits if_splits)
qed

section \<open>What the loop leaves of its futures\<close>

abbreviation span_set :: "spans \<Rightarrow> string set" where
  "span_set spans \<equiv> fst ` set spans"

lemma release_frame:
  "release cs s = Inr s' \<Longrightarrow> sc_spans s' = sc_spans s \<and> sc_running s' = sc_running s"
proof (induction cs s rule: release.induct)
  case (2 c cs s)
  then show ?case by (auto simp: Let_def split: option.splits if_splits)
qed simp

lemma mark_skipped_keys: "span_set spans \<subseteq> span_set (snd (mark_skipped ch stack skipped spans))"
proof (induction ch stack skipped spans rule: mark_skipped.induct)
  case (2 ch cid stack skipped spans)
  show ?case
  proof (cases "cid \<in> set skipped \<or> cid \<in> set (dkeys spans)")
    case True
    then show ?thesis using "2.IH"(1) by (subst mark_skipped.simps) simp
  next
    case False
    have "span_set spans \<subseteq> span_set (dset cid (new_span cid Skipped) spans)"
      by (auto simp: set_dkeys_dset)
    also have "\<dots> \<subseteq> span_set (snd (mark_skipped ch (rev (child_list ch cid) @ stack) (cid # skipped)
        (dset cid (new_span cid Skipped) spans)))"
      by (rule "2.IH"(2) [OF False])
    finally show ?thesis using False by (subst mark_skipped.simps) simp
  qed
qed (simp add: mark_skipped.simps)

lemma skip_rest_keys: "span_set spans \<subseteq> span_set (skip_rest ids spans)"
proof (induction ids arbitrary: spans)
  case (Cons i ids)
  show ?case
  proof (cases "i \<in> set (dkeys spans)")
    case False
    have "span_set spans \<subseteq> span_set (dset i (new_span i Skipped) spans)" by (auto simp: set_dkeys_dset)
    also note Cons.IH
    finally show ?thesis using False by (simp add: skip_rest_def)
  qed (use Cons.IH in \<open>simp add: skip_rest_def\<close>)
qed (simp add: skip_rest_def)

lemma finish_task_spans:
  assumes "finish_task w t sp s = Inr s'"
  shows "insert t (span_set (sc_spans s)) \<subseteq> span_set (sc_spans s')"
proof -
  define s1 where "s1 = s\<lparr>sc_spans := dset t sp (sc_spans s), sc_totals := add_span_totals sp (sc_totals s)\<rparr>"
  have s1: "span_set (sc_spans s1) = insert t (span_set (sc_spans s))" by (simp add: s1_def set_dkeys_dset)
  define s2 where "s2 = s1\<lparr>sc_first_error := (case sc_first_error s1 of None \<Rightarrow> ts_error sp | Some e \<Rightarrow> Some e)\<rparr>"
  have s2: "sc_spans s2 = sc_spans s1" by (simp add: s2_def)
  have "span_set (sc_spans s1) \<subseteq> span_set (sc_spans s')"
  proof (cases "ts_status sp = Succeeded")
    case True
    then have "release (child_list (children w) t) (s1\<lparr>sc_results := dset t (ts_output sp) (sc_results s1)\<rparr>) = Inr s'"
      using assms by (simp add: finish_task_def s1_def Let_def)
    from release_frame [OF this] show ?thesis by simp
  next
    case False
    then have "s' = fail_fast w s2 \<or> s' = mark_descendants_skipped w t s2"
      using assms by (auto simp: finish_task_def s2_def s1_def Let_def split: option.splits if_splits)
    moreover have "span_set (sc_spans s2) \<subseteq> span_set (sc_spans (fail_fast w s2))"
      using skip_rest_keys by (simp add: fail_fast_def)
    moreover have "span_set (sc_spans s2) \<subseteq> span_set (sc_spans (mark_descendants_skipped w t s2))"
      using mark_skipped_keys [of "sc_spans s2" "children w"]
      by (simp add: mark_descendants_skipped_def split: prod.split) (metis snd_conv)
    ultimately show ?thesis using s2 by auto
  qed
  then show ?thesis using s1 by simp
qed

lemma process_batch_futures:
  "well_formed w \<Longrightarrow> sched_inv env w inputs s \<Longrightarrow> distinct batch \<Longrightarrow> set batch \<subseteq> running_ids s \<Longrightarrow>
     process_batch w batch s = Inr s' \<Longrightarrow> \<not> sc_failed s' \<Longrightarrow>
     dget (sc_running s') = dget (sc_running s) |` (- set batch) \<and> span_ids s \<union> set batch \<subseteq> span_ids s'"
proof (induction w batch s rule: process_batch.induct)
  case (2 w tid tids s)
  obtain r where r: "dget (sc_running s) tid = Some r"
    using "2.prems"(4) by (metis dget_None_iff list.set_intros(1) not_None_eq subsetD list.set_map)
  then obtain sp where sp: "r = Inr sp" using "2.prems"(5) by (cases r) auto
  from finish_task_inv [OF "2.prems"(1,2) r [unfolded sp]] obtain s1 where
    s1: "finish_task w tid sp (s\<lparr>sc_running := ddel tid (sc_running s)\<rparr>) = Inr s1"
    "if sc_failed s1 then aborted env w inputs s1
     else sched_inv env w inputs s1 \<and> sc_running s1 = ddel tid (sc_running s)
        \<and> length (sc_spans s) < length (sc_spans s1)" by blast
  have nf: "\<not> sc_failed s1" using "2.prems"(5,6) r sp s1(1) by (auto split: if_splits)
  note d = running_facts(8) [OF "2.prems"(2) r]
  have f: "process_batch w tids s1 = Inr s'" using "2.prems"(5) r sp s1(1) nf by simp
  have k: "set tids \<subseteq> running_ids s1"
    using s1(2) nf "2.prems"(3,4) d by (auto simp: set_dkeys_ddel)
  have "dget (sc_running s') = dget (sc_running s1) |` (- set tids) \<and> span_ids s1 \<union> set tids \<subseteq> span_ids s'"
    using "2.IH" [OF r sp s1(1) nf "2.prems"(1) _ _ k f "2.prems"(6)] s1(2) nf "2.prems"(3) by simp
  moreover have "dget (sc_running s1) = (dget (sc_running s))(tid := None)"
    using s1(2) nf d by (simp add: dget_ddel)
  moreover have "insert tid (span_ids s) \<subseteq> span_ids s1" using finish_task_spans [OF s1(1)] by simp
  ultimately have "dget (sc_running s') = dget (sc_running s) |` (- set (tid # tids))"
    "span_ids s \<union> set (tid # tids) \<subseteq> span_ids s'"
    by (auto simp: restrict_map_def fun_eq_iff subset_iff simp del: set_map)
  then show ?case by blast
qed auto

text \<open>The number of attempts behind a result.\<close>

lemma produced_attempts:
  assumes "produced env w inputs m tid (Inr sp)"
  shows "if attempt_limit w tid < 1 then ts_attempts sp = 0 \<and> ts_status sp = Failed
    else 1 \<le> ts_attempts sp \<and> ts_attempts sp \<le> attempt_limit w tid
      \<and> (ts_status sp = Failed \<longrightarrow> ts_attempts sp = attempt_limit w tid)"
proof -
  obtain t rs where t: "dget (task_map w) tid = Some t" and e: "execute_task env w t inputs rs = Inr sp"
    using assms by (auto simp: produced_def)
  define n where "n = rt_max (task_retry w t) + 1"
  have n: "attempt_limit w tid = n" by (simp add: attempt_limit_def t n_def)
  obtain ins where i: "attempts env t (task_retry w t) (task_timeout w t) ins [1..n] (new_span (tk_id t) Failed) ''unknown error'' = Inr sp"
    using e by (auto simp: execute_task_def Let_def rbind_eq_Inr n_def simp del: resolve_template.simps)
  from attempts_spec [OF i] show ?thesis
  proof (elim disjE exE conjE)
    fix xs k ys assume k: "[1..n] = xs @ k # ys" "ts_attempts sp = k"
      "\<not> retryable (result_of env t (task_timeout w t) ins k)"
      "\<forall>v. result_of env t (task_timeout w t) ins k = AOutput v \<longrightarrow> ts_status sp = Succeeded \<and> ts_output sp = v"
      "result_of env t (task_timeout w t) ins k = ACancelled \<longrightarrow> ts_status sp = Skipped"
    have "ts_status sp \<noteq> Failed" using k(3-5) by (cases "result_of env t (task_timeout w t) ins k") auto
    then show ?thesis using upto_split_at [OF k(1)] k(2) n by auto
  next
    assume f: "ts_status sp = Failed"
      "if [1..n] = [] then ts_attempts sp = ts_attempts (new_span (tk_id t) Failed) \<and> ts_error sp = Some ''unknown error''
       else ts_attempts sp = last [1..n] \<and> ts_error sp = Some (error_text env (task_timeout w t) (result_of env t (task_timeout w t) ins (last [1..n])))"
    have "1 \<le> n \<Longrightarrow> last [1..n] = n" by (simp add: upto_rec2)
    then show ?thesis using f n by (auto simp: new_span_def split: if_splits)
  qed
qed

section \<open>The loop and its coroutines agree\<close>

text \<open>Where a coroutine that will end with \<open>r\<close> can be.\<close>

definition fits :: "task_span res \<Rightarrow> phase \<Rightarrow> bool" where
  "fits r p \<longleftrightarrow>
     (case r of
        Inl e \<Rightarrow> p = Idle \<or> p = Over
      | Inr sp \<Rightarrow> (\<forall>k. attempt_no p = Some k \<longrightarrow> k \<le> ts_attempts sp) \<and> (\<forall>k. p = Sleeping k \<longrightarrow> k < ts_attempts sp))"

text \<open>A task that is not running is before its dispatch or over; one without a span has not started.\<close>

definition paired :: "workflow \<Rightarrow> sched \<Rightarrow> slots \<Rightarrow> bool" where
  "paired w s sl \<longleftrightarrow>
     (\<forall>t. t \<notin> running_ids s \<longrightarrow> phase_of sl t = Idle \<or> phase_of sl t = Over)
   \<and> (\<forall>t. t \<in> set (task_ids w) \<longrightarrow> t \<notin> running_ids s \<union> span_ids s \<longrightarrow> phase_of sl t = Idle)
   \<and> (\<forall>t r. dget (sc_running s) t = Some r \<longrightarrow> fits r (phase_of sl t))"

fun loop_inv :: "run_env \<Rightarrow> workflow \<Rightarrow> (string, json) dict \<Rightarrow> event_loop \<Rightarrow> bool" where
  "loop_inv env w inputs \<lparr>el_config = c, el_slots = sl\<rparr> \<longleftrightarrow>
     config_inv env w inputs c \<and> slots_inv (attempt_limit w) (wf_max_parallel w) sl \<and>
     (case c of
        Loop s \<Rightarrow> (\<exists>s1. dispatch env w inputs (sc_ready s) s = Inr s1 \<and> paired w s1 sl)
      | Finished s \<Rightarrow> (\<forall>t. phase_of sl t = Idle \<or> phase_of sl t = Over)
      | Raised e \<Rightarrow> True)"

lemma fits_simps [simp]:
  "fits r Idle" "fits r Over"
  "fits (Inr sp) (Waiting k) \<longleftrightarrow> k \<le> ts_attempts sp" "fits (Inr sp) (Granted k) \<longleftrightarrow> k \<le> ts_attempts sp"
  "fits (Inr sp) (Limiting k) \<longleftrightarrow> k \<le> ts_attempts sp" "fits (Inr sp) (Handling k) \<longleftrightarrow> k \<le> ts_attempts sp"
  "fits (Inr sp) (Sleeping k) \<longleftrightarrow> k < ts_attempts sp"
  by (auto simp: fits_def split: sum.split)

lemma fits_undisturbed: "fits r (phase_of sl t) \<Longrightarrow> undisturbed t sl sl' \<Longrightarrow> fits r (phase_of sl' t)"
  by (auto simp: fits_def undisturbed_def split: sum.splits)

lemma resting_undisturbed:
  "undisturbed t sl sl' \<Longrightarrow> phase_of sl t = Idle \<or> phase_of sl t = Over \<Longrightarrow> phase_of sl' t = phase_of sl t"
  by (auto simp: undisturbed_def)

lemma paired_dispatch:
  assumes w: "well_formed w" and inv: "sched_inv env w inputs s" and p: "paired w s sl"
    and d: "dispatch env w inputs (sc_ready s) s = Inr s1"
  shows "paired w s1 sl"
proof -
  let ?new = "map (\<lambda>tid. (tid, execute_task env w (the (dget (task_map w) tid)) inputs (sc_results s))) (sc_ready s)"
  have s1: "s1 = s\<lparr>sc_ready := [], sc_running := sc_running s @ ?new\<rparr>"
    using d dispatch_spec [of "sc_ready s" s w env inputs] ready_not_skipped [OF inv] by simp
  have t: "tidy w s" using inv by (simp add: sched_inv_def)
  have idle: "phase_of sl t = Idle" if "t \<in> set (sc_ready s)" for t
  proof -
    have "t \<in> set (task_ids w)" "t \<notin> running_ids s \<union> span_ids s" using t that unfolding tidy_def by auto
    then show ?thesis using p unfolding paired_def by blast
  qed
  then have "fits r (phase_of sl t)" if "dget (sc_running s1) t = Some r" for t r
    using p that by (auto simp: s1 paired_def map_add_Some_iff dget_map_pair fits_def split: if_splits sum.splits)
  moreover have "running_ids s1 = running_ids s \<union> set (sc_ready s)" by (simp add: s1 image_Un image_image)
  moreover have "span_ids s1 = span_ids s" by (simp add: s1)
  ultimately show ?thesis using p unfolding paired_def by blast
qed

lemma dispatch_unique:
  "well_formed w \<Longrightarrow> sched_inv env w inputs s \<Longrightarrow> dispatch env w inputs (sc_ready s) s = Inr s1 \<Longrightarrow>
     sched_inv env w inputs s1 \<and> sc_spans s1 = sc_spans s \<and> futures env w inputs s = sc_running s1"
  using dispatch_inv [of w env inputs s] by (auto simp: futures_def)

text \<open>The event of a coroutine keeps it where its result allows.\<close>

lemma move_fits:
  assumes r: "produced env w inputs m t r" and n: "next_event t r (phase_of sl t) = Some e"
    and e: "apply_event (attempt_limit w) e sl = Some sl'" and f: "fits r (phase_of sl t)"
    and i: "numbered (attempt_limit w) sl"
  shows "fits r (phase_of sl' t)"
proof (cases r)
  case (Inl x)
  then have "e = Cancel t" "phase_of sl t = Idle" using n f by (auto simp: next_event_def fits_def split: phase.splits)
  then show ?thesis using e Inl by (auto simp: fits_def)
next
  case (Inr sp)
  note a = produced_attempts [OF r [unfolded Inr]]
  have w: "fits q (phase_of u t) \<Longrightarrow> fits q (phase_of (wake_all k u) t)"
    "fits q (phase_of u t) \<Longrightarrow> fits q (phase_of (sem_release u) t)" for q u k
    by (auto intro: fits_undisturbed woken_undisturbed [OF woken_all] woken_undisturbed [OF woken_release])
  have k: "1 \<le> k" if "attempt_no (phase_of sl t) = Some k" for k using numberedD [OF i that] by simp
  show ?thesis using n e f a k Inr
    by (cases "phase_of sl t")
      (auto simp: next_event_def enter_attempt_def sem_acquire_def split: if_splits intro!: w)
qed

lemma next_subject: "next_event t r p = Some e \<Longrightarrow> subject e = t"
  by (auto simp: next_event_def split: phase.splits sum.splits if_splits)

lemma move_inv:
  assumes i: "loop_inv env w inputs v" and m: "apply_loop env w inputs (Move t) v = Some v'"
  shows "loop_inv env w inputs v'"
proof -
  obtain c sl where v: "v = \<lparr>el_config = c, el_slots = sl\<rparr>" by (cases v)
  from m v obtain s r e sl' where s: "c = Loop s" "dget (futures env w inputs s) t = Some r"
    "next_event t r (phase_of sl t) = Some e" "apply_event (attempt_limit w) e sl = Some sl'"
    "v' = \<lparr>el_config = c, el_slots = sl'\<rparr>"
    by (auto split: config.splits option.splits)
  obtain s1 where s1: "dispatch env w inputs (sc_ready s) s = Inr s1" "paired w s1 sl"
    and w: "well_formed w" "sched_inv env w inputs s" and sl: "slots_inv (attempt_limit w) (wf_max_parallel w) sl"
    using i v s(1) by auto
  note d = dispatch_unique [OF w s1(1)]
  have run: "dget (sc_running s1) t = Some r" using s(2) d by simp
  have o: "undisturbed u sl sl'" if "u \<noteq> t" for u
    using event_others [OF s(4)] next_subject [OF s(3)] that by simp
  have "produced env w inputs (dget (sc_results s1)) t r" using running_facts(9) [OF _ run] d by blast
  then have f: "fits r (phase_of sl' t)"
    by (rule move_fits [OF _ s(3,4)]) (use s1(2) run sl in \<open>simp_all add: paired_def slots_inv_def\<close>)
  have "paired w s1 sl'" unfolding paired_def
  proof (intro conjI allI impI)
    have k: "t \<in> running_ids s1" using run by (metis dget_Some_key list.set_map)
    fix u assume u: "u \<notin> running_ids s1"
    then have "phase_of sl u = Idle \<or> phase_of sl u = Over" using s1(2) unfolding paired_def by blast
    then show "phase_of sl' u = Idle \<or> phase_of sl' u = Over"
      using o [of u] u k by (metis resting_undisturbed)
  next
    have k: "t \<in> running_ids s1" using run by (metis dget_Some_key list.set_map)
    fix u assume u: "u \<in> set (task_ids w)" "u \<notin> running_ids s1 \<union> span_ids s1"
    then have "phase_of sl u = Idle" using s1(2) unfolding paired_def by blast
    then show "phase_of sl' u = Idle" using o [of u] u k by (metis UnI1 resting_undisturbed)
  next
    fix u q assume "dget (sc_running s1) u = Some q"
    then show "fits q (phase_of sl' u)"
      using f run s1(2) fits_undisturbed [OF _ o, of q u] by (cases "u = t") (auto simp: paired_def)
  qed
  then show ?thesis using i v s s1(1) event_inv [OF sl s(4)] by auto
qed

lemma cancel_all_inv: "slots_inv bound cap sl \<Longrightarrow> slots_inv bound cap (cancel_all bound ts sl)"
  by (induction ts arbitrary: sl) (auto simp del: apply_event.simps split: option.splits intro: event_inv)

lemma cancel_event: "apply_event bound (Cancel t) sl = Some sl' \<Longrightarrow> phase_of sl' t = Over"
proof -
  have o: "phase_of u t = Over \<Longrightarrow> phase_of (wake_all n u) t = Over" "phase_of u t = Over \<Longrightarrow> phase_of (sem_release u) t = Over" for u n
    using resting_undisturbed [OF woken_undisturbed [OF woken_all]] resting_undisturbed [OF woken_undisturbed [OF woken_release]]
    by simp_all
  show "apply_event bound (Cancel t) sl = Some sl' \<Longrightarrow> phase_of sl' t = Over"
    by (auto split: phase.splits intro!: o)
qed

declare apply_event.simps [simp del]

lemma cancel_stays: "phase_of sl u = Idle \<or> phase_of sl u = Over \<Longrightarrow>
    apply_event bound (Cancel t) sl = Some sl' \<Longrightarrow> phase_of sl' u = Idle \<or> phase_of sl' u = Over"
  using event_others [of bound "Cancel t" sl sl' u] resting_undisturbed [of u sl sl'] cancel_event [of bound t sl sl']
  by (cases "u = t") auto

lemma cancel_all_stays: "phase_of sl u = Idle \<or> phase_of sl u = Over \<Longrightarrow>
    phase_of (cancel_all bound ts sl) u = Idle \<or> phase_of (cancel_all bound ts sl) u = Over"
proof (induction ts arbitrary: sl)
  case (Cons t ts)
  show ?case
  proof (cases "apply_event bound (Cancel t) sl")
    case (Some sl')
    show ?thesis using Cons.IH [OF cancel_stays [OF Cons.prems Some]] Some by simp
  qed (use Cons in simp)
qed simp

lemma cancel_all_over: "t \<in> set ts \<Longrightarrow> phase_of (cancel_all bound ts sl) t = Idle \<or> phase_of (cancel_all bound ts sl) t = Over"
proof (induction ts arbitrary: sl)
  case (Cons u us)
  show ?case
  proof (cases "t = u")
    case True
    show ?thesis
    proof (cases "apply_event bound (Cancel u) sl")
      case (Some sl')
      then show ?thesis using True cancel_all_stays [of sl' t bound us] cancel_event [OF Some] by simp
    next
      case None
      then have "phase_of sl t = Over" using True by (auto simp: apply_event.simps split: phase.splits)
      then show ?thesis using cancel_all_stays [of sl t bound us] True None by simp
    qed
  qed (use Cons in auto)
qed simp

text \<open>A report of \<open>asyncio.wait\<close> is a batch of theory \<open>Scheduler\<close>.\<close>

lemma reported_batch:
  assumes "dispatch env w inputs (sc_ready s) s = Inr s1" and "reported (futures env w inputs s) sl batch"
    and "0 < wf_max_parallel w"
  shows "batch_ok env w inputs batch s"
  using assms by (auto simp: batch_ok_def reported_def futures_def slot_free_def list_all_iff)

lemma paired_collect:
  assumes w: "well_formed w" and inv: "sched_inv env w inputs s1" and p: "paired w s1 sl"
    and b: "distinct batch" "set batch \<subseteq> running_ids s1" "\<And>t. t \<in> set batch \<Longrightarrow> phase_of sl t = Over"
    and f: "process_batch w batch s1 = Inr s2" "\<not> sc_failed s2" and t: "tidy w s2"
  shows "paired w s2 sl"
proof -
  note k = process_batch_futures [OF w inv b(1,2) f]
  then have r: "dget (sc_running s2) = dget (sc_running s1) |` (- set batch)" and sp: "span_ids s1 \<union> set batch \<subseteq> span_ids s2"
    by blast+
  have ids: "running_ids s2 = running_ids s1 - set batch"
    using arg_cong [OF r, of dom] by (simp add: dom_map_of_conv_image_fst Diff_eq)
  show ?thesis unfolding paired_def
  proof (intro conjI allI impI)
    fix u assume "u \<notin> running_ids s2"
    then show "phase_of sl u = Idle \<or> phase_of sl u = Over" using p b(3) ids unfolding paired_def by blast
  next
    fix u assume "u \<in> set (task_ids w)" "u \<notin> running_ids s2 \<union> span_ids s2"
    then show "phase_of sl u = Idle" using p ids sp unfolding paired_def by blast
  next
    fix u q assume "dget (sc_running s2) u = Some q"
    then show "fits q (phase_of sl u)" using p r by (auto simp: paired_def restrict_map_def split: if_splits)
  qed
qed

lemma collect_inv:
  assumes i: "loop_inv env w inputs v" and c: "apply_loop env w inputs (Collect batch) v = Some v'" and "0 < wf_max_parallel w"
  shows "loop_inv env w inputs v'"
proof -
  obtain s sl where v: "v = \<lparr>el_config = Loop s, el_slots = sl\<rparr>"
    using c by (cases v) (auto split: config.splits)
  obtain s1 where s1: "dispatch env w inputs (sc_ready s) s = Inr s1" "paired w s1 sl"
    and w: "well_formed w" "sched_inv env w inputs s" and sl: "slots_inv (attempt_limit w) (wf_max_parallel w) sl"
    using i v by auto
  note d = dispatch_unique [OF w s1(1)]
  define t where "t = turn env w inputs batch s"
  have rep: "reported (sc_running s1) sl batch" and v': "v' = \<lparr>el_config = t, el_slots = settle w (sc_running s1) t sl\<rparr>"
    using c d v by (auto simp: Let_def t_def split: if_splits)
  have "batch_ok env w inputs batch s" by (rule reported_batch [OF s1(1) _ assms(3)]) (use rep d in simp)
  from turn_inv [OF w this] have ti: "config_inv env w inputs t" by (simp add: t_def)
  have "slots_inv (attempt_limit w) (wf_max_parallel w) (settle w (sc_running s1) t sl)"
    using sl cancel_all_inv by (simp add: settle_def split: config.split)
  moreover have "case t of
        Loop s \<Rightarrow> (\<exists>s3. dispatch env w inputs (sc_ready s) s = Inr s3 \<and> paired w s3 (settle w (sc_running s1) t sl))
      | Finished s \<Rightarrow> (\<forall>u. phase_of (settle w (sc_running s1) t sl) u = Idle \<or> phase_of (settle w (sc_running s1) t sl) u = Over)
      | Raised e \<Rightarrow> True"
  proof (cases t)
    case (Loop s2)
    then have p: "process_batch w batch s1 = Inr s2" "\<not> sc_failed s2"
      using s1(1) by (auto simp: t_def turn_def split: if_splits sum.splits)
    have s2: "sched_inv env w inputs s2" using ti Loop by simp
    have "paired w s2 sl"
      by (rule paired_collect [OF w(1) _ s1(2) _ _ _ p]) (use d rep s2 in \<open>auto simp: reported_def sched_inv_def\<close>)
    moreover obtain s3 where "dispatch env w inputs (sc_ready s2) s2 = Inr s3" using dispatch_inv [OF w(1) s2] by blast
    ultimately show ?thesis using paired_dispatch [OF w(1) s2] Loop by (auto simp: settle_def)
  next
    case (Finished f)
    have rest: "phase_of sl u = Idle \<or> phase_of sl u = Over" if "u \<notin> set (dkeys (sc_running s1))" for u
      using s1(2) that unfolding paired_def by blast
    show ?thesis
    proof (cases "sc_failed f")
      case True
      then show ?thesis using Finished rest cancel_all_stays cancel_all_over
        by (simp add: settle_def) (metis list.set_map)
    next
      case False
      then have "sc_running s1 = []" using Finished s1(1) by (auto simp: t_def turn_def split: if_splits sum.splits)
      then show ?thesis using Finished False rest by (simp add: settle_def)
    qed
  qed simp
  ultimately show ?thesis using ti by (simp add: v')
qed

definition loop_weight :: "workflow \<Rightarrow> event_loop \<Rightarrow> nat" where
  "loop_weight w v = slots_weight (attempt_limit w) (el_slots v) + sched_variant w (el_config v)"

lemma cancel_all_weight: "slots_inv bound cap sl \<Longrightarrow> slots_weight bound (cancel_all bound ts sl) \<le> slots_weight bound sl"
proof (induction ts arbitrary: sl)
  case (Cons t ts)
  show ?case
  proof (cases "apply_event bound (Cancel t) sl")
    case (Some sl')
    then show ?thesis using Cons.IH [OF event_inv [OF Cons.prems Some]] event_weight [OF Cons.prems Some] by simp
  qed (use Cons in simp)
qed simp

lemma loop_decreases:
  assumes i: "loop_inv env w inputs v" and e: "apply_loop env w inputs e v = Some v'" and "0 < wf_max_parallel w"
  shows "loop_weight w v' < loop_weight w v"
proof (cases e)
  case (Move t)
  then obtain s r f sl' where m: "apply_event (attempt_limit w) f (el_slots v) = Some sl'" "v' = v\<lparr>el_slots := sl'\<rparr>"
    using e by (auto split: config.splits option.splits)
  have "slots_inv (attempt_limit w) (wf_max_parallel w) (el_slots v)" using i by (cases v) simp
  from event_weight [OF this m(1)] show ?thesis using m(2) by (simp add: loop_weight_def)
next
  case (Collect batch)
  obtain s sl where v: "v = \<lparr>el_config = Loop s, el_slots = sl\<rparr>"
    using e Collect by (cases v) (auto split: config.splits)
  have c: "config_inv env w inputs (Loop s)" and sl: "slots_inv (attempt_limit w) (wf_max_parallel w) sl" using i v by auto
  obtain s1 where s1: "dispatch env w inputs (sc_ready s) s = Inr s1" using i v by auto
  define t where "t = turn env w inputs batch s"
  have rep: "reported (futures env w inputs s) sl batch" and v': "v' = \<lparr>el_config = t, el_slots = settle w (futures env w inputs s) t sl\<rparr>"
    using e Collect v by (auto simp: Let_def t_def split: if_splits)
  have "sched_step env w inputs (Loop s) t"
    using reported_batch [OF s1 rep assms(3)] by (auto simp: t_def)
  from loop.step_decreases [OF c this] have "sched_variant w t < sched_variant w (Loop s)" .
  moreover have "slots_weight (attempt_limit w) (settle w (futures env w inputs s) t sl) \<le> slots_weight (attempt_limit w) sl"
    using cancel_all_weight [OF sl] by (simp add: settle_def split: config.split)
  ultimately show ?thesis by (simp add: loop_weight_def v v')
qed

lemma init_loop_inv:
  assumes "well_formed w" and "0 < wf_max_parallel w"
  shows "loop_inv env w inputs (init_loop w)"
proof -
  have s: "sched_inv env w inputs (init_sched w)" by (rule init_inv [OF assms(1)])
  have d: "distinct (task_ids w)" using assms(1) by (simp add: well_formed_def)
  have "dget (map (\<lambda>t. (t, Idle)) ids) t = (if t \<in> set ids then Some Idle else None)" for ids :: "string list" and t
    by (induction ids) auto
  then have "phase_of (init_slots cap ids) t = (if t \<in> set ids then Idle else Over)" for cap ids t
    by (simp add: phase_of_def init_slots_def)
  then have p: "paired w (init_sched w) (run_slots w)"
    by (auto simp: paired_def init_sched_def run_slots_def)
  obtain s1 where "dispatch env w inputs (sc_ready (init_sched w)) (init_sched w) = Inr s1"
    using dispatch_inv [OF assms(1) s] by blast
  then show ?thesis using s assms paired_dispatch [OF assms(1) s p] init_slots_inv [OF d, of "wf_max_parallel w"]
    by (auto simp: init_loop_def run_slots_def)
qed

interpretation ev: bounded_machine "\<lambda>v. well_formed w \<and> 0 < wf_max_parallel w \<and> v = init_loop w" "loop_step env w inputs"
    "\<lambda>v. 0 < wf_max_parallel w \<and> loop_inv env w inputs v" "loop_weight w" for env w inputs
proof unfold_locales
  show "0 < wf_max_parallel w \<and> loop_inv env w inputs v'"
    if i: "0 < wf_max_parallel w \<and> loop_inv env w inputs v" and s: "loop_step env w inputs v v'" for v v'
  proof -
    obtain e where e: "apply_loop env w inputs e v = Some v'" using s by (auto elim: loop_step.cases)
    then show ?thesis using i move_inv [of env w inputs v _ v'] collect_inv [of env w inputs v _ v'] by (cases e) blast+
  qed
qed (auto simp: init_loop_inv elim!: loop_step.cases intro: loop_decreases)

section \<open>Both sides of the loop\<close>

lemma loop_step_sides:
  assumes i: "loop_inv env w inputs v" and s: "loop_step env w inputs v v'" and "0 < wf_max_parallel w"
  shows "sched_steps env w inputs (el_config v) (el_config v') \<and> slot_steps (attempt_limit w) (el_slots v) (el_slots v')"
proof -
  obtain e where e: "apply_loop env w inputs e v = Some v'" using s by (auto elim: loop_step.cases)
  have cancels: "slot_steps bound sl (cancel_all bound ts sl)" for bound ts sl
  proof (induction ts arbitrary: sl)
    case (Cons t ts)
    show ?case
    proof (cases "apply_event bound (Cancel t) sl")
      case (Some sl')
      then have "slot_step bound sl sl'" by (rule slot_step.intros)
      then show ?thesis using Cons.IH [of sl'] Some by (simp add: converse_rtranclp_into_rtranclp)
    qed (use Cons.IH in simp)
  qed simp
  show ?thesis
  proof (cases e)
    case (Move t)
    then obtain f where "apply_event (attempt_limit w) f (el_slots v) = Some (el_slots v')" "el_config v' = el_config v"
      using e by (auto split: config.splits option.splits)
    then show ?thesis by (auto intro: slot_step.intros)
  next
    case (Collect batch)
    obtain s sl where v: "v = \<lparr>el_config = Loop s, el_slots = sl\<rparr>"
      using e Collect by (cases v) (auto split: config.splits)
    obtain s1 where s1: "dispatch env w inputs (sc_ready s) s = Inr s1" using i v by auto
    have rep: "reported (futures env w inputs s) sl batch" and v': "el_config v' = turn env w inputs batch s"
      "el_slots v' = settle w (futures env w inputs s) (turn env w inputs batch s) sl"
      using e Collect v by (auto simp: Let_def split: if_splits)
    have "sched_step env w inputs (Loop s) (turn env w inputs batch s)"
      using reported_batch [OF s1 rep assms(3)] by auto
    then have "sched_steps env w inputs (Loop s) (turn env w inputs batch s)" by (rule r_into_rtranclp)
    moreover have "slot_steps (attempt_limit w) sl (settle w fs c sl)" for fs c
      using cancels by (simp add: settle_def split: config.split)
    ultimately show ?thesis using v v' by simp
  qed
qed

lemma loop_sides:
  assumes "well_formed w" and "0 < wf_max_parallel w" and "(loop_step env w inputs)\<^sup>*\<^sup>* (init_loop w) v"
  shows "loop_inv env w inputs v \<and> sched_steps env w inputs (Loop (init_sched w)) (el_config v)
    \<and> slot_steps (attempt_limit w) (run_slots w) (el_slots v)"
  using assms(3)
proof (induction rule: rtranclp_induct)
  case base
  then show ?case using init_loop_inv [OF assms(1,2)] by (simp add: init_loop_def)
next
  case (step v v')
  have "loop_inv env w inputs v'" using ev.step_inv [OF _ step.hyps(2)] step.IH assms(2) by blast
  then show ?case using loop_step_sides [OF _ step.hyps(2) assms(2)] step.IH by (meson rtranclp_trans)
qed

section \<open>No run is stuck\<close>

text \<open>A coroutine that cannot move by itself waits for a permit or is over.\<close>

lemma cannot_move:
  assumes r: "dget (futures env w inputs s) t = Some r" and f: "fits r (phase_of sl t)"
    and m: "apply_loop env w inputs (Move t) \<lparr>el_config = Loop s, el_slots = sl\<rparr> = None"
  shows "phase_of sl t = Over \<or> is_waiting (phase_of sl t)"
proof -
  have n: "next_event t r (phase_of sl t) = None \<or>
      (\<exists>e. next_event t r (phase_of sl t) = Some e \<and> apply_event (attempt_limit w) e sl = None)"
    using m r by (auto split: option.splits)
  show ?thesis using n f
    by (cases "phase_of sl t")
      (auto simp: next_event_def apply_event.simps fits_def split: sum.splits if_splits)
qed

lemma loop_not_stuck:
  assumes i: "loop_inv env w inputs \<lparr>el_config = Loop s, el_slots = sl\<rparr>" and cap: "0 < wf_max_parallel w"
  shows "\<exists>e. apply_loop env w inputs e \<lparr>el_config = Loop s, el_slots = sl\<rparr> \<noteq> None"
proof (rule ccontr)
  let ?v = "\<lparr>el_config = Loop s, el_slots = sl\<rparr>"
  assume "\<nexists>e. apply_loop env w inputs e ?v \<noteq> None"
  then have stuck: "apply_loop env w inputs e ?v = None" for e by blast
  obtain s1 where s1: "dispatch env w inputs (sc_ready s) s = Inr s1" "paired w s1 sl"
    and w: "well_formed w" "sched_inv env w inputs s" and sl: "slots_inv (attempt_limit w) (wf_max_parallel w) sl"
    using i by auto
  note d = dispatch_unique [OF w s1(1)]
  have fs: "futures env w inputs s = sc_running s1" using d by simp
  have dk: "distinct (dkeys (sc_running s1))" using d by (auto simp: sched_inv_def tidy_def)
  have run: "phase_of sl t = Over \<or> is_waiting (phase_of sl t)" if "t \<in> running_ids s1" for t
  proof -
    have "dget (sc_running s1) t \<noteq> None" using that unfolding dget_None_iff by blast
    then obtain r where "dget (sc_running s1) t = Some r" by blast
    moreover from this have "fits r (phase_of sl t)" using s1(2) unfolding paired_def by blast
    ultimately show ?thesis using cannot_move [OF _ _ stuck, of t r] fs by simp
  qed
  let ?batch = "filter (\<lambda>t. phase_of sl t = Over) (dkeys (sc_running s1))"
  have "\<not> reported (sc_running s1) sl ?batch"
    using stuck [of "Collect ?batch"] fs by (auto simp: Let_def split: if_splits)
  then have none: "sc_running s1 \<noteq> []" "?batch = []" using dk by (auto simp: reported_def)
  have wait: "is_waiting (phase_of sl t)" if "t \<in> running_ids s1" for t
    using run [OF that] none(2) that by (auto simp: filter_empty_conv)
  obtain t where t: "t \<in> running_ids s1" using none(1) by (cases "sc_running s1") auto
  have rest: "\<not> holds_permit (phase_of sl u) \<and> (\<forall>k. phase_of sl u \<noteq> Granted k)" for u
  proof (cases "u \<in> running_ids s1")
    case True
    then show ?thesis using wait [of u] by (cases "phase_of sl u") auto
  next
    case False
    then have "phase_of sl u = Idle \<or> phase_of sl u = Over" using s1(2) unfolding paired_def by blast
    then show ?thesis by auto
  qed
  have "sl_value sl = wf_max_parallel w" using no_holder_value [OF sl] rest by blast
  then show False using sl cap wait [OF t] rest by (auto simp: slots_inv_def work_conserving_def)
qed

lemma init_loop_weight:
  assumes "well_formed w"
  shows "loop_weight w (init_loop w) =
    sum_list (map (\<lambda>t. 6 * nat (attempt_limit w t) + 6) (task_ids w)) + length (task_ids w) + 1"
proof -
  have "dget (map (\<lambda>t. (t, Idle)) ids) t = (if t \<in> set ids then Some Idle else None)" for ids :: "string list" and t
    by (induction ids) auto
  then have "phase_of (init_slots cap ids) t = (if t \<in> set ids then Idle else Over)" for cap ids t
    by (simp add: phase_of_def init_slots_def)
  then have "slots_weight bound (init_slots cap ids) = sum_list (map (\<lambda>t. 6 * nat (bound t) + 6) ids)" for bound cap ids
    by (simp add: slots_weight_def init_slots_def comp_def cong: map_cong)
  then show ?thesis by (simp add: loop_weight_def init_loop_def run_slots_def init_sched_def)
qed

lemma stuck_ended:
  assumes "well_formed w" and "0 < wf_max_parallel w" and "(loop_step env w inputs)\<^sup>*\<^sup>* (init_loop w) v"
    and "\<And>e. apply_loop env w inputs e v = None"
  shows "el_config v \<noteq> Loop s"
proof
  assume c: "el_config v = Loop s"
  obtain sl where v: "v = \<lparr>el_config = Loop s, el_slots = sl\<rparr>" using c by (cases v) auto
  have "loop_inv env w inputs v" using loop_sides [OF assms(1-3)] by blast
  then have "\<exists>e. apply_loop env w inputs e v \<noteq> None" unfolding v by (rule loop_not_stuck [OF _ assms(2)])
  then show False using assms(4) by simp
qed

section \<open>What holds of every interleaving\<close>

text \<open>Two tasks run at once, the third when both are done.\<close>

definition demo_moves :: "loop_event list" where
  "demo_moves = [Move ''b'', Move ''a'', Move ''a'', Move ''b'', Move ''a'', Collect [''a''],
     Move ''b'', Collect [''b''], Move ''c'', Move ''c'', Move ''c'', Collect [''c''], Collect []]"

abbreviation demo_loop :: "nat \<Rightarrow> event_loop option" where
  "demo_loop n \<equiv> run_loop demo_env (demo_workflow ''copy'' ''fail_fast'') demo_inputs (take n demo_moves)
     (init_loop (demo_workflow ''copy'' ''fail_fast''))"

fun has_ended :: "config \<Rightarrow> bool" where
  "has_ended (Finished s) = True"
| "has_ended _ = False"

lemma apply_loop_ended: "el_config v = Finished f \<Longrightarrow> apply_loop env w inputs e v = None"
  by (cases e) simp_all

lemma demo_moves:
  "map_option (\<lambda>v. phase_of (el_slots v) ''a'') (demo_loop 4) = Some (Handling 1)"
  "map_option (\<lambda>v. has_ended (el_config v)) (demo_loop 13) = Some True"
  by code_simp+

text \<open>C11. The loop and its coroutines together are a refinement of both theories that describe one side
  of them: in every state that the run of a valid workflow with a positive \<open>max_parallel\<close> can reach,
  under any interleaving, the loop is in a state of the machine of batches, the coroutines are in one of
  the semaphore, at most \<open>max_parallel\<close> handlers are awaited, and a task is only in an attempt while it
  has no span and all its dependencies have results.\<close>

theorem event_loop_refines:
  assumes "well_formed w" and "0 < wf_max_parallel w"
    and "(loop_step env w inputs)\<^sup>*\<^sup>* (init_loop w) v"
  shows "sched_steps env w inputs (Loop (init_sched w)) (el_config v)
    \<and> slot_steps (attempt_limit w) (run_slots w) (el_slots v)
    \<and> count_phase is_handling (el_slots v) \<le> wf_max_parallel w
    \<and> (\<forall>s t k. el_config v = Loop s \<longrightarrow> attempt_no (phase_of (el_slots v) t) = Some k \<longrightarrow>
        t \<notin> span_ids s \<and> set (deps_of w t) \<subseteq> result_ids s)"
proof -
  note sides = loop_sides [OF assms]
  have sl: "slots_inv (attempt_limit w) (wf_max_parallel w) (el_slots v)" using sides by (cases v) simp
  have "is_handling p \<Longrightarrow> holds_permit p" for p by (cases p) auto
  then have "count_phase is_handling (el_slots v) \<le> count_phase holds_permit (el_slots v)" by (rule count_mono)
  then have h: "count_phase is_handling (el_slots v) \<le> wf_max_parallel w"
    using sl by (simp add: slots_inv_def balanced_def)
  have "t \<notin> span_ids s \<and> set (deps_of w t) \<subseteq> result_ids s"
    if s: "el_config v = Loop s" and k: "attempt_no (phase_of (el_slots v) t) = Some k" for s t k
  proof -
    obtain s1 where s1: "dispatch env w inputs (sc_ready s) s = Inr s1" "paired w s1 (el_slots v)"
      and i: "sched_inv env w inputs s" using sides s by (cases v) auto
    note d = dispatch_unique [OF assms(1) i s1(1)]
    have "phase_of (el_slots v) t \<noteq> Idle" "phase_of (el_slots v) t \<noteq> Over" using k by auto
    then have "t \<in> running_ids s1" using s1(2) unfolding paired_def by blast
    then obtain r where r: "dget (sc_running s1) t = Some r" using dget_None_iff [of "sc_running s1" t] by (cases "dget (sc_running s1) t") auto
    have "sc_results s1 = sc_results s" using s1(1) dispatch_spec [of "sc_ready s" s w env inputs] ready_not_skipped [OF i] by auto
    then show ?thesis using running_facts(2,6) [OF _ r] d by (metis list.set_map)
  qed
  then show ?thesis using sides h by blast
qed

theorem event_loop_refines_witness:
  "\<exists>v. demo_loop 4 = Some v \<and> phase_of (el_slots v) ''a'' = Handling 1 \<and> count_phase is_handling (el_slots v) \<le> 4"
proof -
  let ?w = "demo_workflow ''copy'' ''fail_fast''"
  obtain v where v: "demo_loop 4 = Some v" "phase_of (el_slots v) ''a'' = Handling 1" using demo_moves(1) by auto
  have w: "well_formed ?w" "wf_max_parallel ?w = 4" by (simp_all add: demo_well_formed) (simp add: demo_workflow_def)
  from event_loop_refines [OF w(1) _ relpowp_imp_rtranclp [OF run_loop_steps [OF v(1)]]] w(2) v
  show ?thesis by auto
qed

text \<open>C9. Every interleaving ends: the loop and the coroutines of a valid workflow with a positive
  \<open>max_parallel\<close> make a bounded number of events, whatever their order, and as long as the loop
  has not finished or raised some event is possible. When it has finished, all permits are back.\<close>

theorem every_interleaving_ends:
  assumes "well_formed w" and "0 < wf_max_parallel w"
    and "(loop_step env w inputs ^^ n) (init_loop w) v"
  shows "n \<le> sum_list (map (\<lambda>t. 6 * nat (attempt_limit w t) + 6) (task_ids w)) + length (task_ids w) + 1
    \<and> ((\<forall>e. apply_loop env w inputs e v = None) \<longrightarrow> (\<forall>s. el_config v \<noteq> Loop s))
    \<and> (\<forall>s. el_config v = Finished s \<longrightarrow> sl_value (el_slots v) = wf_max_parallel w)"
proof -
  have s: "(loop_step env w inputs)\<^sup>*\<^sup>* (init_loop w) v" by (rule relpowp_imp_rtranclp [OF assms(3)])
  have "n + loop_weight w v \<le> loop_weight w (init_loop w)"
    by (rule ev.run_length [OF assms(3)]) (use assms init_loop_inv in blast)
  moreover have "sl_value (el_slots v) = wf_max_parallel w" if f: "el_config v = Finished f" for f
  proof -
    obtain sl where v: "v = \<lparr>el_config = Finished f, el_slots = sl\<rparr>" using f by (cases v) auto
    have i: "loop_inv env w inputs v" using loop_sides [OF assms(1,2) s] by blast
    have "\<not> holds_permit (phase_of sl u)" for u
    proof -
      have "phase_of sl u = Idle \<or> phase_of sl u = Over" using i v by simp
      then show ?thesis by auto
    qed
    then show ?thesis using no_holder_value [of "attempt_limit w" "wf_max_parallel w" sl] i v by simp
  qed
  ultimately show ?thesis using init_loop_weight [OF assms(1)] stuck_ended [OF assms(1,2) s] by auto
qed

theorem every_interleaving_ends_witness:
  "\<exists>v. demo_loop 13 = Some v \<and> has_ended (el_config v) \<and> sl_value (el_slots v) = 4"
proof -
  let ?w = "demo_workflow ''copy'' ''fail_fast''"
  obtain v where v: "demo_loop 13 = Some v" "has_ended (el_config v)" using demo_moves(2) by auto
  have w: "well_formed ?w" "wf_max_parallel ?w = 4" by (simp_all add: demo_well_formed) (simp add: demo_workflow_def)
  obtain f where f: "el_config v = Finished f" using v(2) by (cases "el_config v") auto
  then show ?thesis using every_interleaving_ends [OF w(1) _ run_loop_steps [OF v(1)]] w(2) v f by auto
qed

text \<open>C10. Success whatever the interleaving: let a valid workflow have a positive \<open>max_parallel\<close>, let the
  inputs of its tasks refer only to inputs of the run and to outputs of declared dependencies, and let
  no task be named \<open>input\<close>. When its tasks succeed executed one after the other in an order that
  respects the dependencies and the checks before the loop pass, every interleaving of its loop and its
  coroutines that has come to its end has finished, and the report is a success with the sequential
  output and every task succeeded.\<close>

theorem interleaved_success:
  assumes "well_formed w" and "0 < wf_max_parallel w" and "sequential_plan w order"
    and "sequential_output env w inputs order = Some out" and "checks_pass clk w inputs"
    and "(loop_step env w inputs)\<^sup>*\<^sup>* (init_loop w) v" and "\<forall>e. apply_loop env w inputs e v = None"
  shows "\<exists>f r. el_config v = Finished f \<and> make_report env clk w inputs f = Inr r
    \<and> rp_status r = Succeeded \<and> rp_errors r = [] \<and> rp_output r = out
    \<and> map ts_status (rp_tasks r) = map (\<lambda>t. Succeeded) (wf_tasks w)"
proof -
  have "sched_steps env w inputs (Loop (init_sched w)) (el_config v)" using loop_sides [OF assms(1,2,6)] by blast
  then obtain bs where bs: "run_turns env w inputs bs (Loop (init_sched w)) = Some (el_config v)"
    using steps_run_turns by blast
  have cp: "\<exists>x y z. validate_inputs w inputs = Inr x \<and> make_buckets (rc_bucket clk) w = Inr y \<and> make_semaphore w = Inr z"
    using assms(5) by (cases "validate_inputs w inputs"; cases "make_buckets (rc_bucket clk) w"; cases "make_semaphore w")
      (auto simp: checks_pass_def)
  have nl: "el_config v \<noteq> Loop s" for s by (rule stuck_ended [OF assms(1,2,6)]) (use assms(7) in blast)
  then obtain o' where r: "run_python env clk w inputs bs = Some o'"
    using bs cp by (cases "el_config v") (auto simp: run_python_def)
  obtain r where ok: "o' = Inr r" "rp_status r = Succeeded" "rp_errors r = []" "rp_output r = out"
    "map ts_status (rp_tasks r) = map (\<lambda>t. Succeeded) (wf_tasks w)"
    using successful_outcome [OF assms(1,3,4,5) r] by blast
  then obtain f where "el_config v = Finished f" "make_report env clk w inputs f = Inr r"
    using r bs cp nl by (cases "el_config v") (auto simp: run_python_def)
  then show ?thesis using ok by blast
qed

theorem interleaved_success_witness:
  "\<exists>v f r. demo_loop 13 = Some v \<and> el_config v = Finished f
     \<and> make_report demo_env demo_clock (demo_workflow ''copy'' ''fail_fast'') demo_inputs f = Inr r \<and> rp_output r = JInt 7"
proof -
  let ?w = "demo_workflow ''copy'' ''fail_fast''"
  obtain v where v: "demo_loop 13 = Some v" "has_ended (el_config v)" using demo_moves(2) by auto
  have w: "well_formed ?w" "0 < wf_max_parallel ?w" by (simp_all add: demo_well_formed) (simp add: demo_workflow_def)
  have p: "sequential_plan ?w [''b'', ''a'', ''c'']" by code_simp
  have o: "sequential_output demo_env ?w demo_inputs [''b'', ''a'', ''c''] = Some (JInt 7)" by code_simp
  have c: "checks_pass demo_clock ?w demo_inputs" by code_simp
  have s: "\<forall>e. apply_loop demo_env ?w demo_inputs e v = None"
    using v(2) by (cases "el_config v") (simp_all add: apply_loop_ended)
  from interleaved_success [OF w p o c relpowp_imp_rtranclp [OF run_loop_steps [OF v(1)]] s] v(1)
  show ?thesis by blast
qed

end
