(* ===== verification/Example_Skills.thy ===== *)
theory Example_Skills
  imports Orchestrator_Run
begin

text \<open>
  What the programs under \<open>sdk-python/examples\<close> share. A skill is written in the order of its
  code as the context operations it performs and its result or exception (\<open>skill\<close>); the tools
  it calls and the LLM are looked up where the code looks them up. The rendering of floats, the
  clock reading of a decision, the time a handler takes and \<open>str\<close> of an exception are given by
  \<open>scene\<close>. \<open>example_outcome\<close> reduces a run of an example under any schedule to the evaluation of
  its tasks one after the other.
\<close>

section \<open>Skills\<close>

record scene =
  sn_fl :: "rat \<Rightarrow> rat"
  sn_fr :: "rat \<Rightarrow> string"
  sn_now :: rat
  sn_took :: rat
  sn_str :: "py_error \<Rightarrow> string"
  sn_clock :: "string \<Rightarrow> int \<Rightarrow> rat"
  sn_end :: "string \<Rightarrow> rat"
  sn_llm :: "(llm_request \<Rightarrow> llm_result res) option"
  sn_tools :: "(string, tool_fn) dict"

type_synonym 'a skill = "ctx_op list \<times> 'a res"

definition pure :: "'a res \<Rightarrow> 'a skill" where
  "pure r = ([], r)"

definition andthen :: "'a skill \<Rightarrow> ('a \<Rightarrow> 'b skill) \<Rightarrow> 'b skill" where
  "andthen m f = (case m of
     (ops, Inl e) \<Rightarrow> (ops, Inl e)
   | (ops, Inr x) \<Rightarrow> (case f x of (ops', r) \<Rightarrow> (ops @ ops', r)))"

definition decide :: "scene \<Rightarrow> string \<Rightarrow> string \<Rightarrow> json \<Rightarrow> unit skill" where
  "decide sc summary rationale data = ([OpDecision (sn_now sc) summary (Some rationale) data], Inr ())"

definition use_tool :: "scene \<Rightarrow> string \<Rightarrow> (string, json) dict \<Rightarrow> json skill" where
  "use_tool sc name kwargs = ([OpTool name kwargs],
     if kwargs_clash kwargs then Inl TypeError
     else case dget (sn_tools sc) name of None \<Rightarrow> Inl (KeyError name) | Some f \<Rightarrow> f kwargs)"

definition ask :: "scene \<Rightarrow> llm_request \<Rightarrow> llm_result skill" where
  "ask sc rq = ([OpLlm rq], case sn_llm sc of
     None \<Rightarrow> Inl (RuntimeError ''no LLM provider configured on the Orchestrator'') | Some call \<Rightarrow> call rq)"

definition handler_of :: "scene \<Rightarrow> (json \<Rightarrow> json skill) \<Rightarrow> handler" where
  "handler_of sc f ctx =
     (case f (cx_inputs ctx) of (ops, r) \<Rightarrow>
        \<lparr>hr_ops = ops, hr_elapsed = sn_took sc,
         hr_outcome = (case r of Inl e \<Rightarrow> Raises (exn_name e) (sn_str sc e) | Inr v \<Rightarrow> Returns v)\<rparr>)"

definition register_skills :: "scene \<Rightarrow> (string \<times> (json \<Rightarrow> json skill)) list \<Rightarrow> handler registry" where
  "register_skills sc skills =
     fold (\<lambda>(n, f) r. snd (skill_deco n (handler_of sc f) r)) skills
       (fold (\<lambda>(n, f) r. snd (tool_deco n f r)) (sn_tools sc) new_registry)"

definition example_env :: "scene \<Rightarrow> (string \<times> (json \<Rightarrow> json skill)) list \<Rightarrow> run_env" where
  "example_env sc skills =
     \<lparr>ev_fl = sn_fl sc, ev_fr = sn_fr sc, ev_registry = register_skills sc skills, ev_llm = sn_llm sc,
      ev_run_id = ''r_0'', ev_clock = sn_clock sc, ev_end = sn_end sc, ev_random = (\<lambda>tid k. 0),
      ev_str_exn = sn_str sc\<rparr>"

text \<open>\<open>v[k]\<close> in a skill.\<close>

abbreviation field :: "json \<Rightarrow> string \<Rightarrow> json skill" where
  "field v k \<equiv> pure (py_index v k)"

section \<open>Literals and built-in functions\<close>

text \<open>A dash beyond Latin-1, as its UTF-8 bytes.\<close>

definition em_dash :: string where
  "em_dash = [char_of (226::nat), char_of (128::nat), char_of (148::nat)]"

definition nl :: string where
  "nl = [CHR ''\<newline>'']"

definition user_message :: "string \<Rightarrow> json" where
  "user_message content = JObj [(''role'', JStr ''user''), (''content'', JStr content)]"

definition opus_request :: "string \<Rightarrow> llm_request" where
  "opus_request content = \<lparr>rq_messages = [user_message content], rq_tools = None,
     rq_model = Some ''claude-opus-4-8'', rq_opts = []\<rparr>"

text \<open>\<open>len(v)\<close>\<close>

fun py_len :: "json \<Rightarrow> int res" where
  "py_len (JArr xs) = Inr (int (length xs))"
| "py_len (JObj kvs) = Inr (int (length kvs))"
| "py_len (JStr s) = Inr (int (length s))"
| "py_len _ = Inl TypeError"

section \<open>Running the examples\<close>

definition run_example :: "scene \<Rightarrow> run_clock \<Rightarrow> json \<Rightarrow> (string \<times> (json \<Rightarrow> json skill)) list \<Rightarrow> (string, json) dict
    \<Rightarrow> string list list \<Rightarrow> report res option" where
  "run_example sc clk spec skills inputs batches =
     (case workflow_from_dict (sn_fl sc) spec of
        Inl e \<Rightarrow> Some (Inl e)
      | Inr w \<Rightarrow> run_python (example_env sc skills) clk w inputs batches)"

text \<open>The output when the tasks succeed in the order given (\<open>sequential_output\<close>).\<close>

definition example_output :: "scene \<Rightarrow> run_clock \<Rightarrow> json \<Rightarrow> (string \<times> (json \<Rightarrow> json skill)) list \<Rightarrow> (string, json) dict
    \<Rightarrow> string list \<Rightarrow> json option" where
  "example_output sc clk spec skills inputs order =
     (case workflow_from_dict (sn_fl sc) spec of
        Inl e \<Rightarrow> None
      | Inr w \<Rightarrow> if sequential_plan w order \<and> checks_pass clk w inputs
                then sequential_output (example_env sc skills) w inputs order else None)"

lemma example_outcome:
  assumes "example_output sc clk spec skills inputs order = Some v"
    and "run_example sc clk spec skills inputs batches = Some out"
  shows "\<exists>r. out = Inr r \<and> rp_status r = Succeeded \<and> rp_errors r = [] \<and> rp_output r = v"
proof -
  obtain w where w: "workflow_from_dict (sn_fl sc) spec = Inr w" "sequential_plan w order" "checks_pass clk w inputs"
    "sequential_output (example_env sc skills) w inputs order = Some v"
    using assms(1) by (auto simp: example_output_def split: sum.splits if_splits)
  have "run_python (example_env sc skills) clk w inputs batches = Some out"
    using assms(2) w(1) by (simp add: run_example_def)
  from successful_outcome [OF _ w(2,4,3) this] loaded_parsed [OF w(1)] show ?thesis by blast
qed

lemma example_runs:
  assumes "case workflow_from_dict (sn_fl sc) spec of Inl e \<Rightarrow> False | Inr w \<Rightarrow> 0 < wf_max_parallel w"
  shows "\<exists>batches out. run_example sc clk spec skills inputs batches = Some out"
proof -
  obtain w where w: "workflow_from_dict (sn_fl sc) spec = Inr w" "0 < wf_max_parallel w"
    using assms by (auto split: sum.splits)
  then have "\<exists>batches. run_python (example_env sc skills) clk w inputs batches \<noteq> None"
    using loaded_parsed by (intro some_schedule) blast
  then show ?thesis using w(1) by (auto simp: run_example_def)
qed

text \<open>The mock LLM, exact arithmetic and a clock that stands still.\<close>

definition mock_scene :: "(string, tool_fn) dict \<Rightarrow> scene" where
  "mock_scene tools = \<lparr>sn_fl = (\<lambda>r. r), sn_fr = (\<lambda>r. ''0.5''), sn_now = 1, sn_took = 1, sn_str = (\<lambda>e. []),
     sn_clock = (\<lambda>tid k. 0), sn_end = (\<lambda>tid. 1),
     sn_llm = Some (mock_complete (py_repr (\<lambda>r. ''0.5'')) ''mock-1''), sn_tools = tools\<rparr>"

fun output_is :: "report res option \<Rightarrow> json \<Rightarrow> bool" where
  "output_is (Some (Inr r)) v = (rp_status r = Succeeded \<and> rp_output r = v)"
| "output_is _ v = False"

section \<open>Facts about skills\<close>

lemma scene_tools:
  obtains fl fr now took str ck en llm where
    "sc = \<lparr>sn_fl = fl, sn_fr = fr, sn_now = now, sn_took = took, sn_str = str, sn_clock = ck, sn_end = en,
      sn_llm = llm, sn_tools = sn_tools sc\<rparr>"
  by (cases sc) simp

text \<open>The result of a skill, without its operations.\<close>

lemma skill_results:
  "snd (pure r) = r" "snd (decide sc a b d) = Inr ()"
  "snd (andthen m f) = rbind (snd m) (\<lambda>x. snd (f x))"
  "snd (ask sc rq) = (case sn_llm sc of
     None \<Rightarrow> Inl (RuntimeError ''no LLM provider configured on the Orchestrator'') | Some call \<Rightarrow> call rq)"
  by (auto simp: pure_def decide_def andthen_def ask_def result_simps split: sum.split prod.split)

lemma mock_scene_facts:
  "sn_llm (mock_scene tools) = Some (mock_complete (py_repr (\<lambda>r. ''0.5'')) ''mock-1'')" "mono (sn_fl (mock_scene tools))"
  by (simp_all add: mock_scene_def mono_def)

lemma mock_answers:
  "rbind (json_loads fl ''{\"label\": \"net-negative\", \"confidence\": 0.81}'') (\<lambda>raw. py_get raw ''label'' JNull)
     = Inr (JStr ''net-negative'')"
  "rbind (json_loads fl ''{\"label\": \"net-positive\", \"confidence\": 0.81}'') (\<lambda>raw. py_get raw ''label'' JNull)
     = Inr (JStr ''net-positive'')"
  by code_simp+

fun keys_of :: "json \<Rightarrow> string list option" where
  "keys_of (JObj kvs) = Some (dkeys kvs)"
| "keys_of _ = None"

lemma mock_answer_keys:
  "rmap keys_of (json_loads fl ''{\"label\": \"net-negative\", \"confidence\": 0.81}'') = Inr (Some [''label'', ''confidence''])"
  "rmap keys_of (json_loads fl ''{\"label\": \"net-positive\", \"confidence\": 0.81}'') = Inr (Some [''label'', ''confidence''])"
  by code_simp+

lemma py_get_missing: "keys_of v = Some ks \<Longrightarrow> k \<notin> set ks \<Longrightarrow> py_get v k d = Inr d"
  by (cases v) (auto simp: map_of_eq_None_iff [THEN iffD2])

lemma mock_result:
  assumes "mock_complete ps m rq = Inr r"
  obtains raw where "json_loads fl (lr_text r) = Inr raw" "keys_of raw = Some [''label'', ''confidence'']"
  using assms mock_answer_keys [of fl]
  by (auto simp: mock_complete_def Let_def result_simps split: if_splits)

end
