(* ===== verification/Example_Workflows.thy ===== *)
theory Example_Workflows
  imports Example_Skills
begin

text \<open>
  The examples \<open>01_hello_world.py\<close>, \<open>02_parallel_pipeline.py\<close>, \<open>03_llm_content_review.py\<close> and
  \<open>run_market.py\<close>: their specifications as documents, their skills, what they return. Two
  characters of literals that are beyond Latin-1 (a dash and an arrow) stand as their UTF-8 bytes.
\<close>

section \<open>01_hello_world.py\<close>

definition hello_spec :: json where
  "hello_spec = JObj [(''workflow'', JObj
     [(''name'', JStr ''hello-world''),
      (''inputs'', JObj [(''name'', JObj [(''type'', JStr ''string''), (''required'', JBool True)])]),
      (''tasks'', JArr
        [JObj [(''id'', JStr ''greet''), (''skill'', JStr ''text.greet''),
               (''inputs'', JObj [(''name'', JStr ''${input.name}'')])],
         JObj [(''id'', JStr ''shout''), (''skill'', JStr ''text.shout''),
               (''depends_on'', JArr [JStr ''greet'']),
               (''inputs'', JObj [(''text'', JStr ''${greet.output}'')])]]),
      (''output'', JStr ''${shout.output}'')])]"

definition greet :: "scene \<Rightarrow> json \<Rightarrow> json skill" where
  "greet sc inputs =
     andthen (field inputs ''name'') (\<lambda>name.
     let message = ''Hello, '' @ py_format (sn_fr sc) name @ ''!'' in
     andthen (decide sc ''composed greeting'' ''standard format'' JNull) (\<lambda>_.
     pure (Inr (JStr message))))"

definition shout :: "scene \<Rightarrow> json \<Rightarrow> json skill" where
  "shout sc inputs =
     andthen (field inputs ''text'') (\<lambda>v.
     pure (case v of JStr s \<Rightarrow> Inr (JStr (upper s)) | _ \<Rightarrow> Inl (AttributeError ''upper'')))"

definition hello_skills :: "scene \<Rightarrow> (string \<times> (json \<Rightarrow> json skill)) list" where
  "hello_skills sc = [(''text.greet'', greet sc), (''text.shout'', shout sc)]"

section \<open>02_parallel_pipeline.py\<close>

definition retry_twice :: json where
  "retry_twice = JObj [(''max'', JInt 2), (''backoff'', JStr ''exponential''), (''base'', JStr ''100ms'')]"

definition pipeline_spec :: json where
  "pipeline_spec = JObj [(''workflow'', JObj
     [(''name'', JStr ''news-aggregator''),
      (''concurrency'', JObj [(''max_parallel'', JInt 4)]),
      (''inputs'', JObj [(''topic'', JObj [(''type'', JStr ''string''), (''required'', JBool True)])]),
      (''tasks'', JArr
        [JObj [(''id'', JStr ''fetch_tech''), (''skill'', JStr ''feed.fetch''),
               (''inputs'', JObj [(''source'', JStr ''techcrunch''), (''topic'', JStr ''${input.topic}'')]),
               (''retry'', retry_twice)],
         JObj [(''id'', JStr ''fetch_finance''), (''skill'', JStr ''feed.fetch''),
               (''inputs'', JObj [(''source'', JStr ''bloomberg''), (''topic'', JStr ''${input.topic}'')]),
               (''retry'', retry_twice)],
         JObj [(''id'', JStr ''merge''), (''skill'', JStr ''feed.merge''),
               (''depends_on'', JArr [JStr ''fetch_tech'', JStr ''fetch_finance'']),
               (''inputs'', JObj [(''tech'', JStr ''${fetch_tech.output}''),
                 (''finance'', JStr ''${fetch_finance.output}''), (''topic'', JStr ''${input.topic}'')])]]),
      (''output'', JStr ''${merge.output}'')])]"

text \<open>\<open>http_get(url)\<close>: called with keywords, so the parameter must be there and nothing else.\<close>

definition http_get :: tool_fn where
  "http_get kwargs =
     (case kwargs of
        [(k, url)] \<Rightarrow> if k = ''url'' then Inr (JObj [(''url'', url), (''status'', JInt 200)]) else Inl TypeError
      | _ \<Rightarrow> Inl TypeError)"

definition feed_fetch :: "scene \<Rightarrow> json \<Rightarrow> json skill" where
  "feed_fetch sc inputs =
     andthen (field inputs ''source'') (\<lambda>source.
     andthen (field inputs ''topic'') (\<lambda>topic.
     let src = py_format (sn_fr sc) source; top = py_format (sn_fr sc) topic in
     andthen (use_tool sc ''http.get''
       [(''url'', JStr (''https://'' @ src @ ''.com/api?q='' @ top))]) (\<lambda>resp.
     let articles = [JObj [(''title'', JStr (''['' @ src @ ''] '' @ top @ '' moves markets'')), (''source'', source)],
                     JObj [(''title'', JStr (''['' @ src @ ''] Analysts weigh in on '' @ top)), (''source'', source)]] in
     andthen (field resp ''status'') (\<lambda>st.
     andthen (decide sc (''fetched '' @ show_int (int (length articles)) @ '' articles from '' @ src)
       (''HTTP '' @ py_format (sn_fr sc) st @ '' '' @ em_dash @ '' primary endpoint healthy'') JNull) (\<lambda>_.
     pure (Inr (JObj [(''source'', source), (''articles'', JArr articles),
       (''count'', JInt (int (length articles)))])))))))"

text \<open>\<open>a + b\<close> followed by \<open>len\<close>: lists or texts; the sum of numbers has no length, which is a
  \<open>TypeError\<close> as well.\<close>

fun py_concat :: "json \<Rightarrow> json \<Rightarrow> json res" where
  "py_concat (JArr xs) (JArr ys) = Inr (JArr (xs @ ys))"
| "py_concat (JStr a) (JStr b) = Inr (JStr (a @ b))"
| "py_concat _ _ = Inl TypeError"

definition feed_merge :: "scene \<Rightarrow> json \<Rightarrow> json skill" where
  "feed_merge sc inputs =
     andthen (field inputs ''tech'') (\<lambda>tech.
     andthen (field inputs ''finance'') (\<lambda>finance.
     andthen (field tech ''articles'') (\<lambda>ta.
     andthen (field finance ''articles'') (\<lambda>fa.
     andthen (pure (py_concat ta fa)) (\<lambda>all_articles.
     andthen (field tech ''count'') (\<lambda>tc.
     andthen (field finance ''count'') (\<lambda>fc.
     andthen (pure (py_len all_articles)) (\<lambda>n.
     andthen (decide sc (''merged '' @ py_format (sn_fr sc) tc @ '' + '' @ py_format (sn_fr sc) fc @ '' = ''
         @ show_int n @ '' articles'')
       (''deduplication not needed '' @ em_dash @ '' sources are disjoint'') JNull) (\<lambda>_.
     andthen (field inputs ''topic'') (\<lambda>topic.
     andthen (field tech ''source'') (\<lambda>ts.
     andthen (field finance ''source'') (\<lambda>fs.
     pure (Inr (JObj [(''topic'', topic), (''total'', JInt n), (''sources'', JArr [ts, fs]),
       (''articles'', all_articles)]))))))))))))))"

definition pipeline_skills :: "scene \<Rightarrow> (string \<times> (json \<Rightarrow> json skill)) list" where
  "pipeline_skills sc = [(''feed.fetch'', feed_fetch sc), (''feed.merge'', feed_merge sc)]"

section \<open>03_llm_content_review.py\<close>

definition review_spec :: json where
  "review_spec = JObj [(''workflow'', JObj
     [(''name'', JStr ''content-review''),
      (''concurrency'', JObj [(''max_parallel'', JInt 4)]),
      (''providers'', JObj [(''anthropic'', JObj [(''rate_limit'', JObj [(''requests'', JInt 50), (''per'', JStr ''1m'')])])]),
      (''defaults'', JObj
        [(''retry'', JObj [(''max'', JInt 2), (''backoff'', JStr ''exponential''), (''base'', JStr ''500ms'')]),
         (''timeout'', JStr ''30s''), (''on_error'', JStr ''fail_fast'')]),
      (''inputs'', JObj [(''content_id'', JObj [(''type'', JStr ''string''), (''required'', JBool True)])]),
      (''tasks'', JArr
        [JObj [(''id'', JStr ''fetch_content''), (''skill'', JStr ''content.fetch''),
               (''inputs'', JObj [(''id'', JStr ''${input.content_id}'')])],
         JObj [(''id'', JStr ''moderate''), (''skill'', JStr ''llm.moderate''), (''provider'', JStr ''anthropic''),
               (''depends_on'', JArr [JStr ''fetch_content'']),
               (''inputs'', JObj [(''text'', JStr ''${fetch_content.output.text}'')])],
         JObj [(''id'', JStr ''route''), (''skill'', JStr ''content.route''),
               (''depends_on'', JArr [JStr ''moderate'']),
               (''inputs'', JObj [(''content_id'', JStr ''${input.content_id}''), (''verdict'', JStr ''${moderate.output}'')])]]),
      (''output'', JStr ''${route.output}'')])]"

definition content_db :: "(string, json) dict" where
  "content_db =
     [(''post-001'', JObj [(''text'', JStr ''Great tutorial on building REST APIs with Python and FastAPI.''),
        (''author'', JStr ''alice'')]),
      (''post-002'', JObj [(''text'', JStr ''The docs fall short of expectations but the library is usable.''),
        (''author'', JStr ''bob'')]),
      (''post-003'', JObj [(''text'', JStr ''Total loss of funds. Negative returns. Critical security miss.''),
        (''author'', JStr ''carol'')])]"

text \<open>\<open>CONTENT_DB.get(v)\<close>: a list or a dictionary cannot be a key, any other value that is no text
  is not there.\<close>

definition db_get :: "json \<Rightarrow> json res" where
  "db_get v =
     (case v of
        JStr s \<Rightarrow> Inr (case dget content_db s of None \<Rightarrow> JNull | Some d \<Rightarrow> d)
      | JArr _ \<Rightarrow> Inl TypeError | JObj _ \<Rightarrow> Inl TypeError | _ \<Rightarrow> Inr JNull)"

definition content_fetch :: "scene \<Rightarrow> json \<Rightarrow> json skill" where
  "content_fetch sc inputs =
     andthen (field inputs ''id'') (\<lambda>content_id.
     andthen (pure (db_get content_id)) (\<lambda>doc.
     if \<not> truthy doc then pure (Inl (ValueError (''content not found: '' @ py_format (sn_fr sc) content_id)))
     else
       andthen (field doc ''author'') (\<lambda>author.
       andthen (decide sc (''fetched content '' @ py_repr (sn_fr sc) content_id)
         (''author='' @ py_format (sn_fr sc) author) JNull) (\<lambda>_.
       pure (Inr doc)))))"

definition moderation_prompt :: "string \<Rightarrow> string" where
  "moderation_prompt txt =
     ''Moderate this content and respond with JSON only.'' @ nl @ nl @ ''Content: '' @ txt @ nl @ nl
     @ ''Respond: {\"label\":\"safe|borderline|harmful\",\"score\":0.0-1.0,\"reason\":\"...\"}''"

definition risk_words :: "string list" where
  "risk_words = [''loss'', ''negative'', ''miss'', ''critical'', ''security'', ''cut'', ''fall'']"

definition verdict_of :: "(rat \<Rightarrow> rat) \<Rightarrow> string \<Rightarrow> rat \<Rightarrow> string \<Rightarrow> json" where
  "verdict_of fl label score reason =
     JObj [(''label'', JStr label), (''score'', JFloat (fl score)), (''reason'', JStr reason)]"

text \<open>\<open>text.lower()\<close> of a value that is no text is an \<open>AttributeError\<close>.\<close>

definition llm_moderate :: "scene \<Rightarrow> json \<Rightarrow> json skill" where
  "llm_moderate sc inputs =
     andthen (field inputs ''text'') (\<lambda>txt.
     andthen (ask sc (opus_request (moderation_prompt (py_format (sn_fr sc) txt)))) (\<lambda>result.
     andthen (pure (json_loads (sn_fl sc) (lr_text result))) (\<lambda>raw.
     andthen (pure (py_get raw ''label'' JNull)) (\<lambda>label.
     andthen (pure
       (if label = JStr ''net-positive'' then Inr (verdict_of (sn_fl sc) ''safe'' (1 / 10) ''no risk signals detected'')
        else case txt of
          JStr s \<Rightarrow>
            (let hits = length (filter (\<lambda>w. contains w (lower s)) risk_words)
             in if 2 \<le> hits
                then Inr (verdict_of (sn_fl sc) ''harmful'' (9 / 10) (show_int (int hits) @ '' risk signals found''))
                else Inr (verdict_of (sn_fl sc) ''borderline'' (6 / 10) ''some risk signals present''))
        | _ \<Rightarrow> Inl (AttributeError ''lower''))) (\<lambda>verdict.
     andthen (field verdict ''label'') (\<lambda>vl.
     andthen (field verdict ''score'') (\<lambda>vs.
     andthen (field verdict ''reason'') (\<lambda>vr.
     andthen (decide sc (''moderation verdict: '' @ py_format (sn_fr sc) vl @ '' (score='' @ py_format (sn_fr sc) vs @ '')'')
       (py_format (sn_fr sc) vr)
       (JObj [(''tokens_used'', JInt (lr_tokens_in result + lr_tokens_out result))])) (\<lambda>_.
     pure (Inr verdict))))))))))"

definition arrow :: string where
  "arrow = [char_of (226::nat), char_of (134::nat), char_of (146::nat)]"

text \<open>\<open>label == l or score < limit\<close>: the score is compared only when the labels differ.\<close>

definition label_or_below :: "json \<Rightarrow> string \<Rightarrow> json \<Rightarrow> rat \<Rightarrow> bool res" where
  "label_or_below label l score limit =
     (if label = JStr l then Inr True else rmap (\<lambda>x. x < limit) (py_num score))"

definition content_route :: "scene \<Rightarrow> json \<Rightarrow> json skill" where
  "content_route sc inputs =
     andthen (field inputs ''content_id'') (\<lambda>cid.
     andthen (field inputs ''verdict'') (\<lambda>verdict.
     andthen (field verdict ''label'') (\<lambda>label.
     andthen (field verdict ''score'') (\<lambda>score.
     andthen (pure
       (rbind (label_or_below label ''safe'' score (sn_fl sc (3 / 10))) (\<lambda>safe.
        if safe then Inr ''approved''
        else rmap (\<lambda>border. if border then ''flagged_for_review'' else ''rejected'')
               (label_or_below label ''borderline'' score (sn_fl sc (7 / 10)))))) (\<lambda>action.
     andthen (decide sc (''routed '' @ py_repr (sn_fr sc) cid @ '' '' @ arrow @ '' '' @ action)
       (''label='' @ py_format (sn_fr sc) label @ '', score='' @ py_format (sn_fr sc) score) JNull) (\<lambda>_.
     pure (Inr (JObj [(''content_id'', cid), (''action'', JStr action), (''verdict'', verdict)]))))))))"

definition review_skills :: "scene \<Rightarrow> (string \<times> (json \<Rightarrow> json skill)) list" where
  "review_skills sc = [(''content.fetch'', content_fetch sc), (''llm.moderate'', llm_moderate sc),
     (''content.route'', content_route sc)]"

section \<open>run_market.py\<close>

text \<open>\<open>spec/examples/market-analysis.json\<close>, which the script loads.\<close>

definition market_spec :: json where
  "market_spec = JObj [(''workflow'', JObj
     [(''name'', JStr ''market-analysis''), (''version'', JInt 1),
      (''concurrency'', JObj [(''max_parallel'', JInt 8),
         (''rate_limit'', JObj [(''requests'', JInt 60), (''per'', JStr ''1m'')])]),
      (''providers'', JObj
        [(''anthropic'', JObj [(''rate_limit'', JObj [(''requests'', JInt 50), (''per'', JStr ''1m''),
           (''tokens'', JInt 100000), (''per_tokens'', JStr ''1m'')])]),
         (''market_api'', JObj [(''rate_limit'', JObj [(''requests'', JInt 20), (''per'', JStr ''1s'')])])]),
      (''defaults'', JObj
        [(''retry'', JObj [(''max'', JInt 3), (''backoff'', JStr ''exponential''), (''base'', JStr ''500ms''), (''jitter'', JBool True)]),
         (''timeout'', JStr ''120s''), (''on_error'', JStr ''fail_fast'')]),
      (''inputs'', JObj [(''ticker'', JObj [(''type'', JStr ''string''), (''required'', JBool True)])]),
      (''tasks'', JArr
        [JObj [(''id'', JStr ''fetch_prices''), (''skill'', JStr ''market.fetch''), (''provider'', JStr ''market_api''),
               (''inputs'', JObj [(''ticker'', JStr ''${input.ticker}'')])],
         JObj [(''id'', JStr ''fetch_news''), (''skill'', JStr ''news.fetch''), (''provider'', JStr ''market_api''),
               (''inputs'', JObj [(''ticker'', JStr ''${input.ticker}'')])],
         JObj [(''id'', JStr ''sentiment''), (''skill'', JStr ''llm.classify''), (''provider'', JStr ''anthropic''),
               (''depends_on'', JArr [JStr ''fetch_news'']), (''inputs'', JObj [(''text'', JStr ''${fetch_news.output}'')])],
         JObj [(''id'', JStr ''report''), (''skill'', JStr ''analysis.summarize''),
               (''depends_on'', JArr [JStr ''fetch_prices'', JStr ''sentiment'']),
               (''inputs'', JObj [(''prices'', JStr ''${fetch_prices.output}''), (''sentiment'', JStr ''${sentiment.output}'')])]]),
      (''output'', JStr ''${report.output}'')])]"

definition market_http_get :: tool_fn where
  "market_http_get kwargs =
     (case kwargs of
        [(k, url)] \<Rightarrow> if k = ''url'' then Inr (JObj [(''url'', url), (''ok'', JBool True)]) else Inl TypeError
      | _ \<Rightarrow> Inl TypeError)"

definition market_fetch :: "scene \<Rightarrow> json \<Rightarrow> json skill" where
  "market_fetch sc inputs =
     andthen (field inputs ''ticker'') (\<lambda>ticker.
     andthen (use_tool sc ''http.get'' [(''url'', JStr (''/prices/'' @ py_format (sn_fr sc) ticker))]) (\<lambda>data.
     andthen (decide sc ''selected primary feed'' ''lowest latency'' (JObj [(''feed'', JStr ''primary'')])) (\<lambda>_.
     pure (Inr (JObj [(''ticker'', ticker), (''last'', JFloat (sn_fl sc (1994 / 10))), (''raw'', data)])))))"

definition news_fetch :: "scene \<Rightarrow> json \<Rightarrow> json skill" where
  "news_fetch sc inputs =
     andthen (field inputs ''ticker'') (\<lambda>ticker.
     andthen (use_tool sc ''http.get'' [(''url'', JStr (''/news/'' @ py_format (sn_fr sc) ticker))]) (\<lambda>_.
     pure (Inr (JStr ''Company cuts full-year guidance; analysts flag a miss on margins.''))))"

definition llm_classify :: "scene \<Rightarrow> json \<Rightarrow> json skill" where
  "llm_classify sc inputs =
     andthen (field inputs ''text'') (\<lambda>txt.
     andthen (ask sc (opus_request (''Classify sentiment: '' @ py_format (sn_fr sc) txt))) (\<lambda>result.
     andthen (pure (json_loads (sn_fl sc) (lr_text result))) (\<lambda>parsed.
     andthen (field parsed ''label'') (\<lambda>label.
     andthen (field parsed ''confidence'') (\<lambda>conf.
     andthen (decide sc (''classified news as '' @ py_format (sn_fr sc) label @ '' (conf '' @ py_format (sn_fr sc) conf @ '')'')
       ''headline cites guidance cut + margin miss'' JNull) (\<lambda>_.
     pure (Inr parsed)))))))"

definition analysis_summarize :: "scene \<Rightarrow> json \<Rightarrow> json skill" where
  "analysis_summarize sc inputs =
     andthen (field inputs ''prices'') (\<lambda>prices.
     andthen (field inputs ''sentiment'') (\<lambda>sentiment.
     andthen (field prices ''ticker'') (\<lambda>ticker.
     andthen (field prices ''last'') (\<lambda>last.
     andthen (field sentiment ''label'') (\<lambda>label.
     pure (Inr (JObj [(''ticker'', ticker), (''last'', last), (''sentiment'', label),
       (''recommendation'', JStr (if label = JStr ''net-negative'' then ''HOLD'' else ''BUY''))])))))))"

definition market_skills :: "scene \<Rightarrow> (string \<times> (json \<Rightarrow> json skill)) list" where
  "market_skills sc = [(''market.fetch'', market_fetch sc), (''news.fetch'', news_fetch sc),
     (''llm.classify'', llm_classify sc), (''analysis.summarize'', analysis_summarize sc)]"

section \<open>What the examples return\<close>

text \<open>The first example greets: for every name, under every schedule that ends and whatever
  the clocks, the floats and the LLM are, the run of \<open>01_hello_world.py\<close> by the Python engine
  succeeds and returns the greeting in upper case.\<close>

lemma hello_world:
  assumes "sn_tools sc = []"
    and "run_example sc clk hello_spec (hello_skills sc) [(''name'', JStr n)] batches = Some out"
  shows "\<exists>r. out = Inr r \<and> rp_status r = Succeeded \<and> rp_errors r = []
    \<and> rp_output r = JStr (upper (''Hello, '' @ n @ ''!''))"
proof -
  obtain fl fr now took str ck en llm where sc: "sc = \<lparr>sn_fl = fl, sn_fr = fr, sn_now = now, sn_took = took,
      sn_str = str, sn_clock = ck, sn_end = en, sn_llm = llm, sn_tools = []\<rparr>"
    using scene_tools [of sc] assms(1) by metis
  have "example_output sc clk hello_spec (hello_skills sc) [(''name'', JStr n)] [''greet'', ''shout'']
      = Some (JStr (upper (''Hello, '' @ n @ ''!'')))"
    unfolding sc by code_simp
  from example_outcome [OF this assms(2)] show ?thesis .
qed

definition feed_articles :: "string \<Rightarrow> string \<Rightarrow> json list" where
  "feed_articles src topic =
     [JObj [(''title'', JStr (''['' @ src @ ''] '' @ topic @ '' moves markets'')), (''source'', JStr src)],
      JObj [(''title'', JStr (''['' @ src @ ''] Analysts weigh in on '' @ topic)), (''source'', JStr src)]]"

text \<open>C38. The second example aggregates: for every topic, under every schedule that ends and
  whatever the clocks, the floats and the LLM are, both feeds are fetched and the run of
  \<open>02_parallel_pipeline.py\<close> returns their four articles, those of the first feed first.\<close>

theorem news_pipeline:
  assumes "sn_tools sc = [(''http.get'', http_get)]"
    and "run_example sc clk pipeline_spec (pipeline_skills sc) [(''topic'', JStr topic)] batches = Some out"
  shows "\<exists>r. out = Inr r \<and> rp_status r = Succeeded \<and> rp_errors r = []
    \<and> rp_output r = JObj [(''topic'', JStr topic), (''total'', JInt 4),
        (''sources'', JArr [JStr ''techcrunch'', JStr ''bloomberg'']),
        (''articles'', JArr (feed_articles ''techcrunch'' topic @ feed_articles ''bloomberg'' topic))]"
proof -
  obtain fl fr now took str ck en llm where sc: "sc = \<lparr>sn_fl = fl, sn_fr = fr, sn_now = now, sn_took = took,
      sn_str = str, sn_clock = ck, sn_end = en, sn_llm = llm, sn_tools = [(''http.get'', http_get)]\<rparr>"
    using scene_tools [of sc] assms(1) by metis
  have "example_output sc clk pipeline_spec (pipeline_skills sc) [(''topic'', JStr topic)] [''fetch_tech'', ''fetch_finance'', ''merge'']
      = Some (JObj [(''topic'', JStr topic), (''total'', JInt 4),
        (''sources'', JArr [JStr ''techcrunch'', JStr ''bloomberg'']),
        (''articles'', JArr (feed_articles ''techcrunch'' topic @ feed_articles ''bloomberg'' topic))])"
    unfolding sc by code_simp
  from example_outcome [OF this assms(2)] show ?thesis .
qed

theorem news_pipeline_witness:
  "\<exists>batches r. run_example (mock_scene [(''http.get'', http_get)]) demo_clock pipeline_spec
      (pipeline_skills (mock_scene [(''http.get'', http_get)])) [(''topic'', JStr ''ai'')] batches = Some (Inr r)
      \<and> py_get (rp_output r) ''total'' JNull = Inr (JInt 4)"
proof -
  let ?sc = "mock_scene [(''http.get'', http_get)]"
  have "case workflow_from_dict (sn_fl ?sc) pipeline_spec of Inl e \<Rightarrow> False | Inr w \<Rightarrow> 0 < wf_max_parallel w" by code_simp
  then obtain batches out where
    out: "run_example ?sc demo_clock pipeline_spec (pipeline_skills ?sc) [(''topic'', JStr ''ai'')] batches = Some out"
    using example_runs by blast
  have "sn_tools ?sc = [(''http.get'', http_get)]" by (simp add: mock_scene_def)
  from news_pipeline [OF this out] obtain r where "out = Inr r" "py_get (rp_output r) ''total'' JNull = Inr (JInt 4)" by auto
  then show ?thesis using out by blast
qed

text \<open>The third example moderates by words. A word without the separator lies on one side of it.\<close>

lemma is_prefix_sep: "c \<notin> set p \<Longrightarrow> is_prefix p (a @ c # b) \<longleftrightarrow> is_prefix p a"
proof (induction p a rule: is_prefix.induct)
  case (2 p ps)
  then show ?case by auto
qed auto

lemma contains_sep: "c \<notin> set p \<Longrightarrow> contains p (a @ c # b) \<longleftrightarrow> contains p a \<or> contains p b"
proof (induction a)
  case Nil
  then show ?case by (cases p) auto
next
  case (Cons x a)
  then show ?case using is_prefix_sep [of c p "x # a" b] by auto
qed

definition action_for :: "string \<Rightarrow> string" where
  "action_for txt =
     (if \<not> mock_negative txt then ''approved''
      else if 2 \<le> length (filter (\<lambda>w. contains w (lower txt)) risk_words) then ''rejected''
      else ''flagged_for_review'')"

lemma moderation_negative: "mock_negative (moderation_prompt txt) = mock_negative txt"
proof -
  let ?pre = "lower (''Moderate this content and respond with JSON only.'' @ nl @ nl @ ''Content:'')"
    and ?post = "lower (nl @ ''Respond: {\"label\":\"safe|borderline|harmful\",\"score\":0.0-1.0,\"reason\":\"...\"}'')"
  have l: "lower (moderation_prompt txt) = ?pre @ CHR '' '' # (lower txt @ CHR ''\<newline>'' # ?post)"
    by (simp add: moderation_prompt_def lower_def nl_def lower_char_def code_def)
  have "list_all (\<lambda>w. CHR '' '' \<notin> set w \<and> CHR ''\<newline>'' \<notin> set w \<and> \<not> contains w ?pre \<and> \<not> contains w ?post) negative_words"
    by code_simp
  then have "contains w (lower (moderation_prompt txt)) = contains w (lower txt)" if "w \<in> set negative_words" for w
    using that by (simp add: l contains_sep list_all_iff)
  then show ?thesis by (auto simp: mock_negative_def Let_def list_ex_iff)
qed

definition mock_verdict_of :: "(rat \<Rightarrow> rat) \<Rightarrow> string \<Rightarrow> json" where
  "mock_verdict_of fl txt =
     (let hits = length (filter (\<lambda>w. contains w (lower txt)) risk_words) in
      if \<not> mock_negative txt then verdict_of fl ''safe'' (1 / 10) ''no risk signals detected''
      else if 2 \<le> hits then verdict_of fl ''harmful'' (9 / 10) (show_int (int hits) @ '' risk signals found'')
      else verdict_of fl ''borderline'' (6 / 10) ''some risk signals present'')"

lemma mock_moderation:
  assumes "sn_llm sc = Some (mock_complete ps m)"
  shows "snd (llm_moderate sc (JObj [(''text'', JStr txt)])) = Inr (mock_verdict_of (sn_fl sc) txt)"
proof -
  obtain raw where raw: "json_loads (sn_fl sc) (''{\"label\": \"'' @ (if mock_negative txt then ''net-negative'' else ''net-positive'')
      @ ''\", \"confidence\": 0.81}'') = Inr raw"
    "py_get raw ''label'' JNull = Inr (JStr (if mock_negative txt then ''net-negative'' else ''net-positive''))"
    using mock_answers [of "sn_fl sc"] by (cases "mock_negative txt") (auto simp: rbind_eq_Inr)
  show ?thesis
    using raw moderation_negative [of "txt"]
    by (simp add: llm_moderate_def skill_results assms py_format_def mock_complete_def mock_text_def opus_request_def
        user_message_def py_str_def mock_verdict_of_def verdict_of_def Let_def result_simps split: if_splits)
qed

text \<open>C37. The moderation policy of \<open>03_llm_content_review.py\<close> with the mock LLM and any monotone
  rounding of floats: a text without a negative word is approved, one with two risk words or
  more is rejected, any other is flagged for review; the words are looked for without case.\<close>

theorem moderation_policy:
  assumes "sn_llm sc = Some (mock_complete ps m)" and "mono (sn_fl sc)"
  shows "rbind (snd (llm_moderate sc (JObj [(''text'', JStr body)]))) (\<lambda>v.
      snd (content_route sc (JObj [(''content_id'', cid), (''verdict'', v)])))
    = Inr (JObj [(''content_id'', cid), (''action'', JStr (action_for body)), (''verdict'', mock_verdict_of (sn_fl sc) body)])"
proof -
  have "sn_fl sc (3 / 10) \<le> sn_fl sc (9 / 10)" "sn_fl sc (7 / 10) \<le> sn_fl sc (9 / 10)"
    "sn_fl sc (3 / 10) \<le> sn_fl sc (3 / 5)"
    by (rule monoD [OF assms(2)], simp)+
  then show ?thesis
    by (auto simp: mock_moderation [OF assms(1)] mock_verdict_of_def verdict_of_def action_for_def content_route_def
        skill_results label_or_below_def Let_def result_simps)
qed

theorem moderation_policy_witness:
  "list_all (\<lambda>(body, action). rbind (snd (llm_moderate (mock_scene []) (JObj [(''text'', JStr body)]))) (\<lambda>v.
      rbind (snd (content_route (mock_scene []) (JObj [(''content_id'', JStr ''post''), (''verdict'', v)]))) (\<lambda>r. py_get r ''action'' JNull))
        = Inr (JStr action))
    [(''Great tutorial on building REST APIs with Python and FastAPI.'', ''approved''),
     (''The docs fall short of expectations but the library is usable.'', ''flagged_for_review''),
     (''Total loss of funds. Negative returns. Critical security miss.'', ''rejected'')]"
proof -
  have r: "rbind (snd (llm_moderate (mock_scene []) (JObj [(''text'', JStr body)]))) (\<lambda>v.
      rbind (snd (content_route (mock_scene []) (JObj [(''content_id'', JStr ''post''), (''verdict'', v)]))) (\<lambda>r. py_get r ''action'' JNull))
        = Inr (JStr (action_for body))" for body
    using moderation_policy [OF mock_scene_facts, of "[]" body "JStr ''post''"] by (auto simp: rbind_eq_Inr)
  have a1: "action_for ''Great tutorial on building REST APIs with Python and FastAPI.'' = ''approved''" by code_simp
  have a2: "action_for ''The docs fall short of expectations but the library is usable.'' = ''flagged_for_review''" by code_simp
  have a3: "action_for ''Total loss of funds. Negative returns. Critical security miss.'' = ''rejected''" by code_simp
  show ?thesis by (simp only: r a1 a2 a3 list.pred_inject prod.case simp_thms)
qed

end
