(* ===== verification/Example_Mcp.thy ===== *)
theory Example_Mcp
  imports Example_Skills Mcp_Integration
begin

text \<open>
  \<open>04_mcp_flexible_workflow.py\<close>: its mock servers, its specification, the registry of servers
  and the four skills, which share the servers through the registry. A skill over the servers
  takes a world and returns its operations, its result and the new world. The skills are shown
  to have results that do not depend on the world, so a run of the workflow is one of their
  pure counterparts (\<open>plain_levels\<close>), in whatever order the scheduler calls them.
\<close>

section \<open>Skills over servers\<close>

type_synonym 'a mskill = "mcp_world \<Rightarrow> 'a skill \<times> mcp_world"

definition mpure :: "'a skill \<Rightarrow> 'a mskill" where
  "mpure s = (\<lambda>w. (s, w))"

definition mdo :: "'a action \<Rightarrow> 'a mskill" where
  "mdo a = (\<lambda>w. case a w of (r, w') \<Rightarrow> (pure r, w'))"

definition mthen :: "'a mskill \<Rightarrow> ('a \<Rightarrow> 'b mskill) \<Rightarrow> 'b mskill" where
  "mthen m f = (\<lambda>w. case m w of
     ((ops, Inl e), w') \<Rightarrow> ((ops, Inl e), w')
   | ((ops, Inr x), w') \<Rightarrow> (case f x w' of ((ops', r), w'') \<Rightarrow> ((ops @ ops', r), w'')))"

abbreviation mfield :: "json \<Rightarrow> string \<Rightarrow> json mskill" where
  "mfield v k \<equiv> mpure (field v k)"

section \<open>The mock servers\<close>

definition mock_filesystem_handler :: "(rat \<Rightarrow> string) \<Rightarrow> mcp_handler" where
  "mock_filesystem_handler fr tool args =
     (if tool = ''list_files'' then
        rmap (\<lambda>path. JObj [(''path'', path),
            (''files'', JArr [JStr ''main.py'', JStr ''utils.py'', JStr ''config.py'', JStr ''test.py''])])
          (py_get args ''path'' (JStr ''.''))
      else if tool = ''read_file'' then
        rmap (\<lambda>path. JStr (''# File: '' @ py_format fr path @ nl @ nl @ ''def function():'' @ nl @ ''    pass'' @ nl @ nl
            @ ''# No type hints, sparse docstrings''))
          (py_get args ''path'' (JStr ''file''))
      else Inl (ValueError (''Unknown tool: '' @ tool)))"

definition best_practices :: string where
  "best_practices =
     ''Python Best Practices:'' @ nl @ ''1. Use type hints for all functions'' @ nl
     @ ''2. Write comprehensive docstrings'' @ nl @ ''3. Follow PEP 8 naming conventions'' @ nl
     @ ''4. Use meaningful variable names'' @ nl @ ''5. Add unit tests for all public functions''"

definition mock_web_handler :: mcp_handler where
  "mock_web_handler tool args =
     (if tool = ''fetch'' then rmap (\<lambda>url. JStr best_practices) (py_get args ''url'' (JStr ''url''))
      else Inl (ValueError (''Unknown tool: '' @ tool)))"

definition levels_spec :: json where
  "levels_spec = JObj [(''workflow'', JObj
     [(''name'', JStr ''mcp-flexible-analysis''),
      (''inputs'', JObj [(''project_dir'', JObj [(''type'', JStr ''string''), (''required'', JBool True)])]),
      (''tasks'', JArr
        [JObj [(''id'', JStr ''scan_files_direct''), (''skill'', JStr ''level1.direct_tool_call''),
               (''inputs'', JObj [(''dir'', JStr ''${input.project_dir}'')])],
         JObj [(''id'', JStr ''read_main''), (''skill'', JStr ''level2.fs_read''),
               (''depends_on'', JArr [JStr ''scan_files_direct'']),
               (''inputs'', JObj [(''path'', JStr ''${input.project_dir}/main.py'')])],
         JObj [(''id'', JStr ''fetch_best_practices''), (''skill'', JStr ''level2.web_fetch''),
               (''inputs'', JObj [(''url'', JStr ''https://docs.python.org/best-practices'')])],
         JObj [(''id'', JStr ''comprehensive_analysis''), (''skill'', JStr ''level3.managed_analysis''),
               (''depends_on'', JArr [JStr ''read_main'', JStr ''fetch_best_practices'']),
               (''inputs'', JObj [(''main_content'', JStr ''${read_main.output.content}''),
                 (''best_practices'', JStr ''${fetch_best_practices.output.content}''),
                 (''project_dir'', JStr ''${input.project_dir}'')])]]),
      (''output'', JStr ''${comprehensive_analysis.output}'')])]"

definition mcp_setup :: "(rat \<Rightarrow> string) \<Rightarrow> mcp_world" where
  "mcp_setup fr =
     mcp_register ''web'' [''fetch''] None (Some mock_web_handler)
       (mcp_register ''filesystem'' [''list_files'', ''read_file''] None (Some (mock_filesystem_handler fr)) new_world)"

section \<open>The skills\<close>

definition level1_direct_tool_call :: "scene \<Rightarrow> json \<Rightarrow> json mskill" where
  "level1_direct_tool_call sc inputs =
     mthen (mfield inputs ''dir'') (\<lambda>directory.
     mthen (mdo (get_or_spawn ''filesystem'')) (\<lambda>server.
     mthen (mdo (server_call_tool server ''list_files'' (JObj [(''path'', directory)]))) (\<lambda>result.
     mthen (mfield result ''files'') (\<lambda>files.
     mthen (mpure (pure (py_len files))) (\<lambda>n.
     mthen (mpure (decide sc (''Level 1: Scanned '' @ py_format (sn_fr sc) directory @ '', found '' @ show_int n @ '' files'')
       (''Direct MCP tool call '' @ em_dash @ '' no semantic wrapper'') JNull)) (\<lambda>_.
     mpure (pure (Inr (JObj [(''files'', files), (''level'', JInt 1)])))))))))"

definition level2_fs_read :: "scene \<Rightarrow> json \<Rightarrow> json mskill" where
  "level2_fs_read sc inputs =
     mthen (mfield inputs ''path'') (\<lambda>path.
     mthen (mdo (get_or_spawn ''filesystem'')) (\<lambda>server.
     mthen (mdo (server_call_tool server ''read_file'' (JObj [(''path'', path)]))) (\<lambda>content.
     mthen (mpure (decide sc (''Level 2: Read '' @ py_format (sn_fr sc) path) ''Pre-wrapped fs.read_file skill'' JNull)) (\<lambda>_.
     mpure (pure (Inr (JObj [(''content'', content), (''path'', path), (''level'', JInt 2)])))))))"

definition level2_web_fetch :: "scene \<Rightarrow> json \<Rightarrow> json mskill" where
  "level2_web_fetch sc inputs =
     mthen (mfield inputs ''url'') (\<lambda>url.
     mthen (mdo (get_or_spawn ''web'')) (\<lambda>server.
     mthen (mdo (server_call_tool server ''fetch'' (JObj [(''url'', url)]))) (\<lambda>content.
     mthen (mpure (decide sc (''Level 2: Fetched '' @ py_format (sn_fr sc) url) ''Pre-wrapped web.fetch skill'' JNull)) (\<lambda>_.
     mpure (pure (Inr (JObj [(''content'', content), (''url'', url), (''level'', JInt 2)])))))))"

definition review_prompt :: "string \<Rightarrow> string \<Rightarrow> string \<Rightarrow> string" where
  "review_prompt main config practices =
     ''Code review of a Python project:'' @ nl @ nl @ ''Main file:'' @ nl @ main @ nl @ nl
     @ ''Config file:'' @ nl @ config @ nl @ nl @ ''Best practices:'' @ nl @ practices @ nl @ nl
     @ ''Provide assessment in JSON format with:'' @ nl @ ''{'' @ nl
     @ ''  \"score\": 0-100,'' @ nl @ ''  \"strengths\": [...],'' @ nl
     @ ''  \"improvements\": [...],'' @ nl @ ''  \"critical\": [...]'' @ nl @ ''}''"

definition fallback_review :: json where
  "fallback_review = JObj
     [(''score'', JInt 85),
      (''strengths'', JArr [JStr ''clear structure'', JStr ''good naming'']),
      (''improvements'', JArr [JStr ''add type hints'', JStr ''expand docstrings'']),
      (''critical'', JArr [])]"

text \<open>\<open>try: json.loads(text) except json.JSONDecodeError: ...\<close>\<close>

definition loads_or :: "(rat \<Rightarrow> rat) \<Rightarrow> json \<Rightarrow> string \<Rightarrow> json res" where
  "loads_or fl alt s = (case json_loads fl s of Inl JSONDecodeError \<Rightarrow> Inr alt | r \<Rightarrow> r)"

definition level3_managed_analysis :: "scene \<Rightarrow> json \<Rightarrow> json mskill" where
  "level3_managed_analysis sc inputs =
     mthen (mfield inputs ''main_content'') (\<lambda>main.
     mthen (mfield inputs ''best_practices'') (\<lambda>practices.
     mthen (mfield inputs ''project_dir'') (\<lambda>dir.
     mthen (mdo (get_or_spawn ''filesystem'')) (\<lambda>server.
     mthen (mdo (server_call_tool server ''list_files'' (JObj [(''path'', dir)]))) (\<lambda>file_list.
     mthen (mdo (server_call_tool server ''read_file''
       (JObj [(''path'', JStr (py_format (sn_fr sc) dir @ ''/config.py''))]))) (\<lambda>config.
     mthen (mpure (ask sc (opus_request (review_prompt (py_format (sn_fr sc) main) (py_format (sn_fr sc) config)
       (py_format (sn_fr sc) practices))))) (\<lambda>analysis.
     mthen (mpure (pure (loads_or (sn_fl sc) fallback_review (lr_text analysis)))) (\<lambda>result.
     mthen (mpure (pure (py_get result ''score'' (JInt 85)))) (\<lambda>score.
     mthen (mfield file_list ''files'') (\<lambda>files.
     mthen (mpure (pure (py_len files))) (\<lambda>nfiles.
     mthen (mpure (pure (rbind (py_get result ''improvements'' (JArr [])) py_len))) (\<lambda>nimp.
     mthen (mpure (decide sc (''Level 3: Comprehensive analysis complete, score='' @ py_format (sn_fr sc) score)
       ''Managed MCP servers + LLM analysis pipeline''
       (JObj [(''files_analyzed'', JInt nfiles), (''improvements_found'', JInt nimp),
         (''llm_tokens'', JInt (lr_tokens_in analysis + lr_tokens_out analysis))]))) (\<lambda>_.
     mthen (mpure (pure (py_get result ''strengths'' (JArr [])))) (\<lambda>strengths.
     mthen (mpure (pure (py_get result ''improvements'' (JArr [])))) (\<lambda>improvements.
     mthen (mpure (pure (py_get result ''critical'' (JArr [])))) (\<lambda>critical.
     mpure (pure (Inr (JObj [(''score'', score), (''strengths'', strengths), (''improvements'', improvements),
       (''critical'', critical), (''level'', JInt 3)])))))))))))))))))))"

definition level_skills :: "scene \<Rightarrow> (string, json \<Rightarrow> json mskill) dict" where
  "level_skills sc =
     [(''level1.direct_tool_call'', level1_direct_tool_call sc), (''level2.fs_read'', level2_fs_read sc),
      (''level2.web_fetch'', level2_web_fetch sc), (''level3.managed_analysis'', level3_managed_analysis sc)]"

section \<open>The skills without servers\<close>

text \<open>What the skills compute: the calls on servers replaced by the replies of the handlers.\<close>

definition fs_reply :: "scene \<Rightarrow> string \<Rightarrow> json \<Rightarrow> json skill" where
  "fs_reply sc tool args =
     pure (mcp_reply ''filesystem'' {''list_files'', ''read_file''} (Some (mock_filesystem_handler (sn_fr sc))) tool args)"

definition web_reply :: "string \<Rightarrow> json \<Rightarrow> json skill" where
  "web_reply tool args = pure (mcp_reply ''web'' {''fetch''} (Some mock_web_handler) tool args)"

definition plain_scan :: "scene \<Rightarrow> json \<Rightarrow> json skill" where
  "plain_scan sc inputs =
     andthen (field inputs ''dir'') (\<lambda>directory.
     andthen (fs_reply sc ''list_files'' (JObj [(''path'', directory)])) (\<lambda>result.
     andthen (field result ''files'') (\<lambda>files.
     andthen (pure (py_len files)) (\<lambda>n.
     andthen (decide sc (''Level 1: Scanned '' @ py_format (sn_fr sc) directory @ '', found '' @ show_int n @ '' files'')
       (''Direct MCP tool call '' @ em_dash @ '' no semantic wrapper'') JNull) (\<lambda>_.
     pure (Inr (JObj [(''files'', files), (''level'', JInt 1)])))))))"

definition plain_read :: "scene \<Rightarrow> json \<Rightarrow> json skill" where
  "plain_read sc inputs =
     andthen (field inputs ''path'') (\<lambda>path.
     andthen (fs_reply sc ''read_file'' (JObj [(''path'', path)])) (\<lambda>content.
     andthen (decide sc (''Level 2: Read '' @ py_format (sn_fr sc) path) ''Pre-wrapped fs.read_file skill'' JNull) (\<lambda>_.
     pure (Inr (JObj [(''content'', content), (''path'', path), (''level'', JInt 2)])))))"

definition plain_fetch :: "scene \<Rightarrow> json \<Rightarrow> json skill" where
  "plain_fetch sc inputs =
     andthen (field inputs ''url'') (\<lambda>url.
     andthen (web_reply ''fetch'' (JObj [(''url'', url)])) (\<lambda>content.
     andthen (decide sc (''Level 2: Fetched '' @ py_format (sn_fr sc) url) ''Pre-wrapped web.fetch skill'' JNull) (\<lambda>_.
     pure (Inr (JObj [(''content'', content), (''url'', url), (''level'', JInt 2)])))))"

definition plain_analysis :: "scene \<Rightarrow> json \<Rightarrow> json skill" where
  "plain_analysis sc inputs =
     andthen (field inputs ''main_content'') (\<lambda>main.
     andthen (field inputs ''best_practices'') (\<lambda>practices.
     andthen (field inputs ''project_dir'') (\<lambda>dir.
     andthen (fs_reply sc ''list_files'' (JObj [(''path'', dir)])) (\<lambda>file_list.
     andthen (fs_reply sc ''read_file'' (JObj [(''path'', JStr (py_format (sn_fr sc) dir @ ''/config.py''))])) (\<lambda>config.
     andthen (ask sc (opus_request (review_prompt (py_format (sn_fr sc) main) (py_format (sn_fr sc) config)
       (py_format (sn_fr sc) practices)))) (\<lambda>analysis.
     andthen (pure (loads_or (sn_fl sc) fallback_review (lr_text analysis))) (\<lambda>result.
     andthen (pure (py_get result ''score'' (JInt 85))) (\<lambda>score.
     andthen (field file_list ''files'') (\<lambda>files.
     andthen (pure (py_len files)) (\<lambda>nfiles.
     andthen (pure (rbind (py_get result ''improvements'' (JArr [])) py_len)) (\<lambda>nimp.
     andthen (decide sc (''Level 3: Comprehensive analysis complete, score='' @ py_format (sn_fr sc) score)
       ''Managed MCP servers + LLM analysis pipeline''
       (JObj [(''files_analyzed'', JInt nfiles), (''improvements_found'', JInt nimp),
         (''llm_tokens'', JInt (lr_tokens_in analysis + lr_tokens_out analysis))])) (\<lambda>_.
     andthen (pure (py_get result ''strengths'' (JArr []))) (\<lambda>strengths.
     andthen (pure (py_get result ''improvements'' (JArr []))) (\<lambda>improvements.
     andthen (pure (py_get result ''critical'' (JArr []))) (\<lambda>critical.
     pure (Inr (JObj [(''score'', score), (''strengths'', strengths), (''improvements'', improvements),
       (''critical'', critical), (''level'', JInt 3)])))))))))))))))))"

definition plain_levels :: "scene \<Rightarrow> (string \<times> (json \<Rightarrow> json skill)) list" where
  "plain_levels sc =
     [(''level1.direct_tool_call'', plain_scan sc), (''level2.fs_read'', plain_read sc),
      (''level2.web_fetch'', plain_fetch sc), (''level3.managed_analysis'', plain_analysis sc)]"

section \<open>The skills do not depend on the servers\<close>

text \<open>The registry is set up with these specifications, and every server there is was spawned
  by it, is connected and cached under its name.\<close>

definition stocked :: "(string, mcp_spec) dict \<Rightarrow> mcp_world \<Rightarrow> bool" where
  "stocked specs w \<longleftrightarrow>
     mw_specs w = specs \<and> distinct (dkeys (mw_servers w)) \<and> length (mw_heap w) = length (mw_servers w)
   \<and> (\<forall>n r. dget (mw_servers w) n = Some r \<longrightarrow> (\<exists>spec. dget specs n = Some spec \<and> r < length (mw_heap w)
        \<and> server_at w r = (new_server n (sp_tools spec) (sp_handler spec))\<lparr>sv_connected := True\<rparr>))
   \<and> (\<forall>r < length (mw_heap w). \<exists>n. dget (mw_servers w) n = Some r)"

lemma stocked_spawn:
  assumes w: "stocked specs w" and s: "dget specs n = Some spec"
  shows "\<exists>r w'. get_or_spawn n w = (Inr r, w') \<and> stocked specs w' \<and> dget (mw_servers w') n = Some r"
proof (cases "dget (mw_servers w) n")
  case (Some r)
  then show ?thesis using w by (simp add: get_or_spawn_def)
next
  case None
  let ?s = "(new_server n (sp_tools spec) (sp_handler spec))\<lparr>sv_connected := True\<rparr>"
  let ?w = "w\<lparr>mw_heap := mw_heap w @ [?s], mw_servers := dset n (length (mw_heap w)) (mw_servers w)\<rparr>"
  have "n \<notin> set (dkeys (mw_servers w))" using None by (simp add: map_of_eq_None_iff)
  then have d: "length (dset n (length (mw_heap w)) (mw_servers w)) = Suc (length (mw_servers w))"
    by (simp add: dset_new)
  have served: "\<exists>sp. dget specs m = Some sp \<and> q < length (mw_heap ?w)
      \<and> server_at ?w q = (new_server m (sp_tools sp) (sp_handler sp))\<lparr>sv_connected := True\<rparr>"
    if q: "dget (mw_servers ?w) m = Some q" for m q
  proof (cases "m = n")
    case True
    then show ?thesis using s q by (auto simp: server_at_def)
  next
    case False
    then have "dget (mw_servers w) m = Some q" using q by simp
    then obtain sp where "dget specs m = Some sp" "q < length (mw_heap w)"
      "server_at w q = (new_server m (sp_tools sp) (sp_handler sp))\<lparr>sv_connected := True\<rparr>"
      using w unfolding stocked_def by blast
    then show ?thesis by (simp add: server_at_def nth_append)
  qed
  have cached: "\<exists>m. dget (mw_servers ?w) m = Some q" if q: "q < length (mw_heap ?w)" for q
  proof (cases "q = length (mw_heap w)")
    case True
    then show ?thesis by (intro exI [of _ n]) simp
  next
    case False
    then have "q < length (mw_heap w)" using q by simp
    then obtain m where "dget (mw_servers w) m = Some q" using w unfolding stocked_def by blast
    then show ?thesis using None by (intro exI [of _ m]) auto
  qed
  have "stocked specs ?w"
    unfolding stocked_def using w d by (intro conjI allI impI served cached) (simp_all add: stocked_def)
  moreover have "get_or_spawn n w = (Inr (length (mw_heap w)), ?w)"
    using spawn_new [OF None, of spec] w s by (simp add: stocked_def)
  ultimately show ?thesis by simp
qed

text \<open>\<open>m\<close> does what the plain skill \<open>s\<close> does in every such world; \<open>served\<close> when moreover the
  reference \<open>r\<close> is the cached server of the name \<open>n\<close>.\<close>

definition steady :: "(string, mcp_spec) dict \<Rightarrow> 'a mskill \<Rightarrow> 'a skill \<Rightarrow> bool" where
  "steady specs m s \<longleftrightarrow> (\<forall>w. stocked specs w \<longrightarrow> (\<exists>w'. m w = (s, w') \<and> stocked specs w'))"

definition served :: "(string, mcp_spec) dict \<Rightarrow> string \<Rightarrow> ref \<Rightarrow> 'a mskill \<Rightarrow> 'a skill \<Rightarrow> bool" where
  "served specs n r m s \<longleftrightarrow> (\<forall>w. stocked specs w \<and> dget (mw_servers w) n = Some r \<longrightarrow>
     (\<exists>w'. m w = (s, w') \<and> stocked specs w' \<and> dget (mw_servers w') n = Some r))"

lemma served_mpure: "served specs n r (mpure s) s"
  by (auto simp: served_def mpure_def)

lemma steady_mpure: "steady specs (mpure s) s"
  by (auto simp: steady_def mpure_def)

lemma mthen_eq:
  "m w = (s, w1) \<Longrightarrow> mthen m f w =
     (case s of (ops, Inl e) \<Rightarrow> ((ops, Inl e), w1)
      | (ops, Inr x) \<Rightarrow> (case f x w1 of ((ops', y), w2) \<Rightarrow> ((ops @ ops', y), w2)))"
  by (simp add: mthen_def split: prod.split sum.split)

lemma served_mthen:
  assumes m: "served specs n r m s" and f: "\<And>x. served specs n r (f x) (g x)"
  shows "served specs n r (mthen m f) (andthen s g)"
  unfolding served_def
proof (intro allI impI)
  fix w assume w: "stocked specs w \<and> dget (mw_servers w) n = Some r"
  obtain w1 where w1: "m w = (s, w1)" "stocked specs w1 \<and> dget (mw_servers w1) n = Some r"
    using m w unfolding served_def by blast
  show "\<exists>w'. mthen m f w = (andthen s g, w') \<and> stocked specs w' \<and> dget (mw_servers w') n = Some r"
  proof (cases s)
    case (Pair ops y)
    show ?thesis
    proof (cases y)
      case (Inl e)
      then show ?thesis using w1 Pair by (simp add: mthen_eq andthen_def)
    next
      case (Inr x)
      obtain w2 where "f x w1 = (g x, w2)" "stocked specs w2 \<and> dget (mw_servers w2) n = Some r"
        using f [of x] w1(2) unfolding served_def by blast
      then show ?thesis using w1(1) Pair Inr by (simp add: mthen_eq andthen_def split: prod.split)
    qed
  qed
qed

lemma steady_mthen:
  assumes m: "steady specs m s" and f: "\<And>x. steady specs (f x) (g x)"
  shows "steady specs (mthen m f) (andthen s g)"
  unfolding steady_def
proof (intro allI impI)
  fix w assume "stocked specs w"
  then obtain w1 where w1: "m w = (s, w1)" "stocked specs w1" using m unfolding steady_def by blast
  show "\<exists>w'. mthen m f w = (andthen s g, w') \<and> stocked specs w'"
  proof (cases s)
    case (Pair ops y)
    show ?thesis
    proof (cases y)
      case (Inl e)
      then show ?thesis using w1 Pair by (simp add: mthen_eq andthen_def)
    next
      case (Inr x)
      obtain w2 where "f x w1 = (g x, w2)" "stocked specs w2"
        using f [of x] w1(2) unfolding steady_def by blast
      then show ?thesis using w1(1) Pair Inr by (simp add: mthen_eq andthen_def split: prod.split)
    qed
  qed
qed

lemma served_call:
  assumes "dget specs n = Some spec"
  shows "served specs n r (mdo (server_call_tool r tool args))
    (pure (mcp_reply n (set (sp_tools spec)) (sp_handler spec) tool args))"
  unfolding served_def
proof (intro allI impI)
  fix w assume w: "stocked specs w \<and> dget (mw_servers w) n = Some r"
  then have s: "server_at w r = (new_server n (sp_tools spec) (sp_handler spec))\<lparr>sv_connected := True\<rparr>"
    using assms unfolding stocked_def by fastforce
  then have "server_call_tool r tool args w = (server_reply (server_at w r) tool args, w)"
    by (intro call_connected) simp
  then show "\<exists>w'. mdo (server_call_tool r tool args) w = (pure (mcp_reply n (set (sp_tools spec)) (sp_handler spec) tool args), w')
      \<and> stocked specs w' \<and> dget (mw_servers w') n = Some r"
    using w by (simp add: mdo_def s server_reply_def)
qed

lemma steady_spawn:
  assumes "dget specs n = Some spec" and f: "\<And>r. served specs n r (f r) s"
  shows "steady specs (mthen (mdo (get_or_spawn n)) f) s"
  unfolding steady_def
proof (intro allI impI)
  fix w assume "stocked specs w"
  then obtain r w1 where w1: "get_or_spawn n w = (Inr r, w1)" "stocked specs w1 \<and> dget (mw_servers w1) n = Some r"
    using stocked_spawn assms(1) by blast
  obtain w2 where w2: "f r w1 = (s, w2)" "stocked specs w2"
    using f [of r] w1(2) unfolding served_def by blast
  then show "\<exists>w'. mthen (mdo (get_or_spawn n)) f w = (s, w') \<and> stocked specs w'"
    using w1(1) by (simp add: mthen_def mdo_def pure_def split: prod.split)
qed

text \<open>The calls of skills by name, one after the other, with the servers shared.\<close>

fun run_calls :: "scene \<Rightarrow> (string \<times> json) list \<Rightarrow> mcp_world \<Rightarrow> json skill list \<times> mcp_world" where
  "run_calls sc [] w = ([], w)"
| "run_calls sc ((name, inputs) # calls) w =
     (case dget (level_skills sc) name of
        None \<Rightarrow> run_calls sc calls w
      | Some f \<Rightarrow> (case f inputs w of (s, w1) \<Rightarrow> (case run_calls sc calls w1 of (ss, w2) \<Rightarrow> (s # ss, w2))))"

definition setup_specs :: "scene \<Rightarrow> (string, mcp_spec) dict" where
  "setup_specs sc = mw_specs (mcp_setup (sn_fr sc))"

lemma setup_specs_get:
  "dget (setup_specs sc) ''filesystem'' = Some \<lparr>sp_tools = [''list_files'', ''read_file''], sp_command = None,
     sp_handler = Some (mock_filesystem_handler (sn_fr sc))\<rparr>"
  "dget (setup_specs sc) ''web'' = Some \<lparr>sp_tools = [''fetch''], sp_command = None, sp_handler = Some mock_web_handler\<rparr>"
  by (simp_all add: setup_specs_def mcp_setup_def mcp_register_def new_world_def)

lemma setup_stocked: "stocked (setup_specs sc) (mcp_setup (sn_fr sc))"
  by (simp add: stocked_def setup_specs_def) (simp add: mcp_setup_def mcp_register_def new_world_def)

lemma served_fs:
  "served (setup_specs sc) ''filesystem'' r (mdo (server_call_tool r tool args)) (fs_reply sc tool args)"
  using served_call [OF setup_specs_get(1)] by (simp add: fs_reply_def insert_commute)

lemma served_web: "served (setup_specs sc) ''web'' r (mdo (server_call_tool r tool args)) (web_reply tool args)"
  using served_call [OF setup_specs_get(2)] by (simp add: web_reply_def)

lemmas steady_rules = steady_mpure served_mpure steady_spawn [OF setup_specs_get(1)] steady_spawn [OF setup_specs_get(2)]
  steady_mthen served_mthen served_fs served_web

lemma levels_steady:
  "steady (setup_specs sc) (level1_direct_tool_call sc inputs) (plain_scan sc inputs)"
  "steady (setup_specs sc) (level2_fs_read sc inputs) (plain_read sc inputs)"
  "steady (setup_specs sc) (level2_web_fetch sc inputs) (plain_fetch sc inputs)"
  "steady (setup_specs sc) (level3_managed_analysis sc inputs) (plain_analysis sc inputs)"
  unfolding level1_direct_tool_call_def plain_scan_def level2_fs_read_def plain_read_def
    level2_web_fetch_def plain_fetch_def level3_managed_analysis_def plain_analysis_def
  by (intro steady_rules)+

lemma calls_steady:
  "stocked (setup_specs sc) w \<Longrightarrow>
     fst (run_calls sc calls w) = List.map_filter (\<lambda>(n, inputs). map_option (\<lambda>f. f inputs) (dget (plain_levels sc) n)) calls
     \<and> stocked (setup_specs sc) (snd (run_calls sc calls w))"
proof (induction calls arbitrary: w)
  case Nil
  then show ?case by (simp add: List.map_filter_simps)
next
  case (Cons c calls)
  obtain n inputs where c: "c = (n, inputs)" by (cases c)
  show ?case
  proof (cases "dget (level_skills sc) n")
    case None
    then have "dget (plain_levels sc) n = None" by (auto simp: level_skills_def plain_levels_def split: if_splits)
    then show ?thesis using Cons None c by (simp add: List.map_filter_simps)
  next
    case (Some f)
    then obtain g where g: "dget (plain_levels sc) n = Some g" "steady (setup_specs sc) (f inputs) (g inputs)"
      using levels_steady [of sc inputs] by (auto simp: level_skills_def plain_levels_def split: if_splits)
    obtain w1 where w1: "f inputs w = (g inputs, w1)" "stocked (setup_specs sc) w1"
      using g(2) Cons.prems unfolding steady_def by blast
    show ?thesis
      using Cons.IH [OF w1(2)] Some g(1) w1(1) c by (auto simp: List.map_filter_simps split: prod.split)
  qed
qed

lemma stocked_cached: "stocked specs w \<Longrightarrow> r < length (mw_heap w) \<Longrightarrow> r \<in> snd ` set (mw_servers w)"
  unfolding stocked_def by (metis map_of_SomeD image_eqI snd_conv)

lemma stocked_few:
  assumes "stocked (setup_specs sc) w" shows "length (mw_heap w) \<le> 2"
proof -
  have "set (dkeys (mw_servers w)) \<subseteq> {''filesystem'', ''web''}"
  proof
    fix n assume "n \<in> set (dkeys (mw_servers w))"
    then obtain r where "dget (mw_servers w) n = Some r" by (auto simp: dest!: weak_map_of_SomeI)
    then have "dget (setup_specs sc) n \<noteq> None" using assms unfolding stocked_def by blast
    then show "n \<in> {''filesystem'', ''web''}"
      by (auto simp: setup_specs_def mcp_setup_def mcp_register_def new_world_def split: if_splits)
  qed
  then have "card (set (dkeys (mw_servers w))) \<le> card {''filesystem'', ''web''}" by (intro card_mono) simp_all
  then show ?thesis using assms distinct_card [of "dkeys (mw_servers w)"] by (auto simp: stocked_def)
qed

text \<open>C36. Refinement: whatever skills of the example are called, in whatever order and number,
  each does what its counterpart without servers does: its operations, its result or its
  exception do not depend on the calls before it. At most one server of each of the two names
  is spawned, and the cleanup disconnects them all.\<close>

theorem mcp_levels_refine:
  "fst (run_calls sc calls (mcp_setup (sn_fr sc)))
     = List.map_filter (\<lambda>(n, inputs). map_option (\<lambda>f. f inputs) (dget (plain_levels sc) n)) calls
   \<and> length (mw_heap (snd (run_calls sc calls (mcp_setup (sn_fr sc))))) \<le> 2
   \<and> list_all (\<lambda>s. \<not> sv_connected s) (mw_heap (snd (mcp_cleanup (snd (run_calls sc calls (mcp_setup (sn_fr sc)))))))"
proof -
  let ?w = "snd (run_calls sc calls (mcp_setup (sn_fr sc)))"
  have c: "fst (run_calls sc calls (mcp_setup (sn_fr sc)))
      = List.map_filter (\<lambda>(n, inputs). map_option (\<lambda>f. f inputs) (dget (plain_levels sc) n)) calls"
    and st: "stocked (setup_specs sc) ?w"
    using calls_steady [OF setup_stocked] by blast+
  obtain h where h: "mcp_cleanup ?w = (Inr (), ?w\<lparr>mw_heap := h, mw_servers := []\<rparr>)" "length h = length (mw_heap ?w)"
    "\<forall>i < length h. sv_connected (h ! i) = (sv_connected (mw_heap ?w ! i) \<and> i \<notin> snd ` set (mw_servers ?w))
       \<and> same_server (mw_heap ?w ! i) (h ! i)"
    using cleanup_spec by blast
  have "\<not> sv_connected (h ! i)" if "i < length h" for i
    using h(2,3) stocked_cached [OF st] that by simp
  then have "list_all (\<lambda>s. \<not> sv_connected s) (mw_heap (snd (mcp_cleanup ?w)))" by (simp add: h(1) list_all_length)
  then show ?thesis using c stocked_few [OF st] by blast
qed

text \<open>With the mock LLM the answer is a JSON object without a review, so the fallback is never
  used: the defaults of \<open>get\<close> are the review.\<close>

lemma offline_review:
  assumes "sn_llm sc = Some (mock_complete ps m)"
  shows "snd (plain_analysis sc (JObj [(''main_content'', main), (''best_practices'', practices), (''project_dir'', dir)]))
    = Inr (JObj [(''score'', JInt 85), (''strengths'', JArr []), (''improvements'', JArr []), (''critical'', JArr []),
        (''level'', JInt 3)])"
proof -
  have "\<exists>r raw. mock_complete ps m (opus_request p) = Inr r \<and> json_loads (sn_fl sc) (lr_text r) = Inr raw
      \<and> keys_of raw = Some [''label'', ''confidence'']" for p
  proof -
    obtain r where r: "mock_complete ps m (opus_request p) = Inr r"
      by (simp add: mock_complete_def mock_text_def opus_request_def user_message_def py_str_def result_simps Let_def)
    then show ?thesis using mock_result [OF r, of "sn_fl sc"] by metis
  qed
  then obtain R V where R: "\<And>p. mock_complete ps m (opus_request p) = Inr (R p)"
    "\<And>p. json_loads (sn_fl sc) (lr_text (R p)) = Inr (V p)" "\<And>p. keys_of (V p) = Some [''label'', ''confidence'']"
    by metis
  have V: "py_get (V p) ''score'' d = Inr d" "py_get (V p) ''strengths'' d = Inr d"
    "py_get (V p) ''improvements'' d = Inr d" "py_get (V p) ''critical'' d = Inr d" for p d
    by (rule py_get_missing [OF R(3)], simp)+
  show ?thesis
    by (simp add: plain_analysis_def skill_results fs_reply_def mcp_reply_def mock_filesystem_handler_def assms R(1,2) V
        loads_or_def result_simps)
qed

end
