(* ===== verification/Example_Providers.thy ===== *)
theory Example_Providers
  imports Example_Skills
begin

text \<open>
  \<open>05_multi_provider_llm.py\<close>: the specification and the skills that choose a provider. The
  client libraries of the vendors are the parameter \<open>vendors\<close>. The skills call the providers
  themselves and not through the context, and every one passes the keyword \<open>llm_tokens\<close>, which
  \<open>record_decision\<close> does not have.
\<close>

section \<open>The specification\<close>

definition multi_spec :: json where
  "multi_spec = JObj
     [(''name'', JStr ''multi-provider-analysis''),
      (''tasks'', JArr
        [JObj [(''id'', JStr ''analyze_sentiment''), (''skill'', JStr ''nlp.sentiment''),
               (''description'', JStr ''Analyze sentiment using Claude (best for reasoning)''),
               (''inputs'', JObj [(''text'', JStr ''${input.content}'')]),
               (''outputs'', JArr [JStr ''sentiment'', JStr ''confidence'', JStr ''explanation''])],
         JObj [(''id'', JStr ''classify_category''), (''skill'', JStr ''nlp.classify''),
               (''description'', JStr ''Classify text category using GPT-3.5 (faster, cheaper)''),
               (''inputs'', JObj [(''text'', JStr ''${input.content}'')]),
               (''outputs'', JArr [JStr ''category'', JStr ''score''])],
         JObj [(''id'', JStr ''extract_entities''), (''skill'', JStr ''nlp.entities''),
               (''description'', JStr ''Extract entities using Gemini (multimodal-ready)''),
               (''inputs'', JObj [(''text'', JStr ''${input.content}'')]),
               (''outputs'', JArr [JStr ''entities'', JStr ''types''])],
         JObj [(''id'', JStr ''summarize''), (''skill'', JStr ''nlp.summarize''),
               (''description'', JStr ''Summarize using Claude Haiku (cheap for summary)''),
               (''inputs'', JObj
                 [(''sentiment'', JStr ''${analyze_sentiment.output.sentiment}''),
                  (''category'', JStr ''${classify_category.output.category}''),
                  (''entities'', JStr ''${extract_entities.output.entities}''),
                  (''text'', JStr ''${input.content}'')]),
               (''outputs'', JArr [JStr ''summary''])]])]"

lemma multi_spec_rejected: "workflow_from_dict fl multi_spec = Inl (SpecError MissingWorkflow)"
  by (simp add: workflow_from_dict_def parse_workflow_def multi_spec_def)

section \<open>Providers\<close>

record vendors =
  vd_anthropic :: "bool \<times> (json \<Rightarrow> (string, json) dict \<Rightarrow> anthropic_response res)"
  vd_openai :: "bool \<times> chat_api"
  vd_gemini :: "bool \<times> (json \<Rightarrow> string \<Rightarrow> json list \<Rightarrow> json \<Rightarrow> gemini_response res)"

definition the_mock :: "scene \<Rightarrow> llm_request \<Rightarrow> llm_result res" where
  "the_mock sc = mock_complete (py_repr (sn_fr sc)) (ls_model (new_mock None))"

definition claude :: "vendors \<Rightarrow> string \<Rightarrow> llm_request \<Rightarrow> llm_result res" where
  "claude vd model = anthropic_complete (fst (vd_anthropic vd)) (snd (vd_anthropic vd)) (new_anthropic (Some model) JNull)"

definition gpt :: "vendors \<Rightarrow> string \<Rightarrow> llm_request \<Rightarrow> llm_result res" where
  "gpt vd model = openai_complete (fst (vd_openai vd)) (snd (vd_openai vd)) (new_openai (Some model) JNull)"

definition gemini :: "vendors \<Rightarrow> string \<Rightarrow> llm_request \<Rightarrow> llm_result res" where
  "gemini vd model = gemini_complete (fst (vd_gemini vd)) (snd (vd_gemini vd)) (new_gemini (Some model) JNull)"

definition plain_request :: "string \<Rightarrow> llm_request" where
  "plain_request content = \<lparr>rq_messages = [user_message content], rq_tools = None, rq_model = None, rq_opts = []\<rparr>"

text \<open>\<open>ctx.record_decision(summary, rationale=..., **kws)\<close>: the only other keyword is \<open>data\<close>.\<close>

definition decide_with :: "scene \<Rightarrow> string \<Rightarrow> string \<Rightarrow> (string, json) dict \<Rightarrow> unit skill" where
  "decide_with sc summary rationale kws =
     (if list_all (\<lambda>(k, v). k = ''data'') kws
      then decide sc summary rationale (case kws of [] \<Rightarrow> JNull | (k, v) # _ \<Rightarrow> v)
      else pure (Inl TypeError))"

definition used :: "llm_result \<Rightarrow> string" where
  "used r = ''Used '' @ lr_provider r @ '' ('' @ lr_model r @ '')''"

definition tokens_kw :: "llm_result \<Rightarrow> (string, json) dict" where
  "tokens_kw r = [(''llm_tokens'', JInt (lr_tokens_in r + lr_tokens_out r))]"

section \<open>The skills\<close>

definition parsed_sentiment :: "(rat \<Rightarrow> rat) \<Rightarrow> string \<Rightarrow> json res" where
  "parsed_sentiment fl text =
     (case rbind (json_loads fl text) (\<lambda>parsed.
          rbind (py_get parsed ''sentiment'' (JStr ''unknown'')) (\<lambda>s.
          rbind (py_get parsed ''confidence'' (JFloat (fl (5 / 10)))) (\<lambda>c.
          rbind (py_get parsed ''explanation'' (JStr text)) (\<lambda>e.
          Inr (JObj [(''sentiment'', s), (''confidence'', c), (''explanation'', e)])))))
      of Inl JSONDecodeError \<Rightarrow> Inr (JObj [(''sentiment'', JStr ''unknown''), (''confidence'', JFloat (fl 0)),
             (''explanation'', JStr text)])
       | r \<Rightarrow> r)"

definition analyze_sentiment :: "scene \<Rightarrow> vendors \<Rightarrow> bool \<Rightarrow> json \<Rightarrow> json skill" where
  "analyze_sentiment sc vd use_mock inputs =
     (let llm = (if use_mock then the_mock sc else claude vd ''claude-opus-4-8'') in
      andthen (field inputs ''text'') (\<lambda>t.
      andthen (pure (llm (plain_request (''Analyze sentiment: \"'' @ py_format (sn_fr sc) t
        @ ''\". Return JSON with \"sentiment\" (positive/negative/neutral), \"confidence\" (0-1), \"explanation\".'')))) (\<lambda>result.
      andthen (decide_with sc ''sentiment_analysis'' (used result) (tokens_kw result)) (\<lambda>_.
      pure (parsed_sentiment (sn_fl sc) (lr_text result))))))"

definition classify_category :: "scene \<Rightarrow> vendors \<Rightarrow> bool \<Rightarrow> json \<Rightarrow> json skill" where
  "classify_category sc vd use_mock inputs =
     (let llm = (if use_mock then the_mock sc else gpt vd ''gpt-3.5-turbo'') in
      andthen (field inputs ''text'') (\<lambda>t.
      andthen (pure (llm (plain_request (''Classify this text into one category: news, product, feedback, or other. Text: \"''
        @ py_format (sn_fr sc) t @ ''\"'')))) (\<lambda>result.
      andthen (decide_with sc ''classification'' (used result @ '' for speed/cost'') (tokens_kw result)) (\<lambda>_.
      andthen (pure
        (if lr_text result \<noteq> [] then (case words_of (lower (lr_text result)) of [] \<Rightarrow> Inl IndexError | w # _ \<Rightarrow> Inr w)
         else Inr ''unknown'')) (\<lambda>category.
      pure (Inr (JObj [(''category'', JStr category), (''score'', JFloat (sn_fl sc (85 / 100)))])))))))"

definition extract_entities :: "scene \<Rightarrow> vendors \<Rightarrow> bool \<Rightarrow> json \<Rightarrow> json skill" where
  "extract_entities sc vd use_mock inputs =
     (let llm = (if use_mock then the_mock sc else gemini vd ''gemini-1.5-pro'') in
      andthen (field inputs ''text'') (\<lambda>t.
      andthen (pure (llm (plain_request (''Extract named entities (person, organization, location) from: \"''
        @ py_format (sn_fr sc) t @ ''\"'')))) (\<lambda>result.
      andthen (decide_with sc ''entity_extraction'' (used result) (tokens_kw result)) (\<lambda>_.
      pure (Inr (JObj [(''entities'', JArr [JStr ''Entity1'', JStr ''Entity2'']),
        (''types'', JArr [JStr ''PERSON'', JStr ''ORG''])]))))))"

definition margin :: string where
  "margin = nl @ replicate 8 CHR '' ''"

definition summarize :: "scene \<Rightarrow> vendors \<Rightarrow> bool \<Rightarrow> json \<Rightarrow> json skill" where
  "summarize sc vd use_mock inputs =
     (let llm = (if use_mock then the_mock sc else claude vd ''claude-haiku-4-5'') in
      andthen (field inputs ''sentiment'') (\<lambda>s.
      andthen (field inputs ''category'') (\<lambda>c.
      andthen (field inputs ''entities'') (\<lambda>e.
      andthen (field inputs ''text'') (\<lambda>t.
      let text = margin @ ''Sentiment: '' @ py_format (sn_fr sc) s @ margin @ ''Category: '' @ py_format (sn_fr sc) c
        @ margin @ ''Entities: '' @ py_format (sn_fr sc) e @ nl @ margin @ ''Original: '' @ py_format (sn_fr sc) t @ margin in
      andthen (pure (llm (plain_request (''Summarize this analysis: '' @ text)))) (\<lambda>result.
      andthen (decide_with sc ''summarization'' (used result @ '' for cost efficiency'') (tokens_kw result)) (\<lambda>_.
      pure (Inr (JObj [(''summary'', JStr (lr_text result))])))))))))"

definition multi_skills :: "scene \<Rightarrow> vendors \<Rightarrow> bool \<Rightarrow> (string \<times> (json \<Rightarrow> json skill)) list" where
  "multi_skills sc vd use_mock =
     [(''nlp.sentiment'', analyze_sentiment sc vd use_mock), (''nlp.classify'', classify_category sc vd use_mock),
      (''nlp.entities'', extract_entities sc vd use_mock), (''nlp.summarize'', summarize sc vd use_mock)]"

section \<open>The example cannot succeed\<close>

lemma tokens_rejected: "decide_with sc summary rationale (tokens_kw r) = pure (Inl TypeError)"
  by (simp add: decide_with_def tokens_kw_def)

text \<open>A skill that raises without having done anything in its context.\<close>

definition fails :: "'a skill \<Rightarrow> bool" where
  "fails m \<longleftrightarrow> fst m = [] \<and> isl (snd m)"

lemma fails_raise: "fails (andthen (pure (Inl e)) f)"
  by (simp add: fails_def andthen_def pure_def)

lemma fails_step: "(\<And>x. fails (f x)) \<Longrightarrow> fails (andthen (pure r) f)"
  by (cases r) (auto simp: fails_def andthen_def pure_def split: prod.split)

lemma skills_fail:
  "fails (analyze_sentiment sc vd m inputs)" "fails (classify_category sc vd m inputs)"
  "fails (extract_entities sc vd m inputs)" "fails (summarize sc vd m inputs)"
  unfolding analyze_sentiment_def classify_category_def extract_entities_def summarize_def Let_def tokens_rejected
  by (rule fails_raise | rule fails_step)+

text \<open>C40. The multi-provider example cannot succeed, with the mock or with real providers,
  whatever they answer: its specification is rejected because the key \<open>workflow\<close> is missing,
  and each of its skills raises for every input without recording a decision.\<close>

theorem multi_provider_fails:
  "workflow_from_dict fl multi_spec = Inl (SpecError MissingWorkflow)
   \<and> list_all (\<lambda>(name, f). fails (f inputs)) (multi_skills sc vd use_mock)"
  using multi_spec_rejected by (simp add: multi_skills_def skills_fail)

text \<open>With the mock, the exception of a skill that has its inputs is the \<open>TypeError\<close>.\<close>

lemma mock_type_error:
  "snd (analyze_sentiment sc vd True (JObj [(''text'', t)])) = Inl TypeError"
  "snd (classify_category sc vd True (JObj [(''text'', t)])) = Inl TypeError"
  "snd (extract_entities sc vd True (JObj [(''text'', t)])) = Inl TypeError"
  by (simp_all add: analyze_sentiment_def classify_category_def extract_entities_def tokens_rejected skill_results
      the_mock_def plain_request_def user_message_def mock_complete_def mock_text_def py_str_def Let_def result_simps)

end
