(* ===== verification/Example_Mains.thy ===== *)
theory Example_Mains
  imports Example_Workflows Example_Mcp Example_Providers
begin

text \<open>
  The main programs of \<open>sdk-python/examples\<close>: they load a specification, run it on an orchestrator
  and print the report. A program is the list of what it prints and how it ends (\<open>console\<close>). The
  orchestrator is an argument; \<open>shipped\<close> is the one the programs build, with the default engine.
  Characters beyond Latin-1 stand as their UTF-8 bytes.
\<close>

section \<open>Programs that print\<close>

datatype 'a end_of =
    Done 'a
  | Threw py_error
  | Exited string
  | Asserted string

type_synonym 'a console = "string list \<times> 'a end_of"

fun cthen :: "'a console \<Rightarrow> ('a \<Rightarrow> 'b console) \<Rightarrow> 'b console" where
  "cthen (ls, Done x) f = (case f x of (ls', e) \<Rightarrow> (ls @ ls', e))"
| "cthen (ls, Threw e) f = (ls, Threw e)"
| "cthen (ls, Exited m) f = (ls, Exited m)"
| "cthen (ls, Asserted m) f = (ls, Asserted m)"

definition say :: "string list \<Rightarrow> unit console" where
  "say ls = (ls, Done ())"

definition clift :: "'a res \<Rightarrow> 'a console" where
  "clift r = (case r of Inl e \<Rightarrow> ([], Threw e) | Inr x \<Rightarrow> ([], Done x))"

text \<open>A loop over a list whose body prints.\<close>

fun ceach :: "('a \<Rightarrow> unit console) \<Rightarrow> 'a list \<Rightarrow> unit console" where
  "ceach f [] = say []"
| "ceach f (x # xs) = cthen (f x) (\<lambda>_. ceach f xs)"

section \<open>Formatting\<close>

definition utf8 :: "nat list \<Rightarrow> string" where
  "utf8 = map char_of"

definition check_mark :: string where
  "check_mark = utf8 [226, 156, 147]"

text \<open>\<open>f"{s:10s}"\<close>\<close>

definition pad :: "nat \<Rightarrow> string \<Rightarrow> string" where
  "pad n s = s @ replicate (n - length s) CHR '' ''"

text \<open>\<open>f"{r:.0f}"\<close>: rounded to the nearest integer, halves to the even one.\<close>

definition fixed0 :: "rat \<Rightarrow> string" where
  "fixed0 r = (let n = \<lfloor>r\<rfloor>; d = r - of_int n in
     show_int (if d < 1/2 \<or> d = 1/2 \<and> even n then n else n + 1))"

definition opt_text :: "string option \<Rightarrow> string" where
  "opt_text s = (case s of None \<Rightarrow> ''None'' | Some t \<Rightarrow> t)"

definition str_list :: "string list \<Rightarrow> string" where
  "str_list ss = ''['' @ join '', '' (map repr_str ss) @ '']''"

text \<open>\<open>', '.join(v[:2])\<close>\<close>

fun as_text :: "json \<Rightarrow> string res" where
  "as_text (JStr s) = Inr s"
| "as_text _ = Inl TypeError"

fun join_two :: "json \<Rightarrow> string res" where
  "join_two (JArr xs) = rmap (join '', '') (rtraverse as_text (take 2 xs))"
| "join_two (JStr s) = Inr (join '', '' (map (\<lambda>c. [c]) (take 2 s)))"
| "join_two _ = Inl TypeError"

section \<open>The orchestrators\<close>

text \<open>\<open>Orchestrator(reg).run_sync(wf, inputs)\<close>: the engine is \<open>go\<close> and its path is looked up.\<close>

type_synonym runner = "workflow \<Rightarrow> (string, json) dict \<Rightarrow> report res"

definition shipped :: "(rat \<Rightarrow> rat) \<Rightarrow> (rat \<Rightarrow> string) \<Rightarrow> host \<Rightarrow> (string \<Rightarrow> string \<Rightarrow> go_result) \<Rightarrow> runner" where
  "shipped fl fr h popen w inputs = run_go_engine fl fr h popen None w inputs"

definition run_spec :: "(rat \<Rightarrow> rat) \<Rightarrow> runner \<Rightarrow> json \<Rightarrow> (string, json) dict \<Rightarrow> report console" where
  "run_spec fl run spec inputs =
     cthen (clift (workflow_from_dict fl spec)) (\<lambda>wf. clift (run wf inputs))"

section \<open>01_hello_world.py\<close>

definition hello_task :: "task_span \<Rightarrow> unit console" where
  "hello_task task =
     cthen (say [''  '' @ pad 10 (ts_id task) @ ''  status='' @ status_str (ts_status task)
       @ ''  duration='' @ show_int (ts_duration_ms task) @ ''ms'']) (\<lambda>_.
     ceach (\<lambda>d. say [''             decision: '' @ repr_str (dc_summary d) @ ''  ('' @ opt_text (dc_rationale d) @ '')''])
       (ts_decisions task))"

definition main_hello :: "(rat \<Rightarrow> rat) \<Rightarrow> (rat \<Rightarrow> string) \<Rightarrow> runner \<Rightarrow> unit console" where
  "main_hello fl fr run =
     cthen (run_spec fl run hello_spec [(''name'', JStr ''World'')]) (\<lambda>report.
     cthen (say [''=== Report ==='']) (\<lambda>_.
     cthen (ceach hello_task (rp_tasks report)) (\<lambda>_.
     say [nl @ ''Output : '' @ py_format fr (rp_output report),
          ''Status : '' @ status_str (rp_status report) @ ''  ('' @ show_int (rp_duration_ms report) @ ''ms total)''])))"

section \<open>02_parallel_pipeline.py\<close>

text \<open>\<open>wall\<close>: the milliseconds between the two clock readings around the run.\<close>

definition main_pipeline :: "(rat \<Rightarrow> rat) \<Rightarrow> (rat \<Rightarrow> string) \<Rightarrow> rat \<Rightarrow> runner \<Rightarrow> unit console" where
  "main_pipeline fl fr wall run =
     cthen (run_spec fl run pipeline_spec [(''topic'', JStr ''AI'')]) (\<lambda>report.
     cthen (say [''=== Report ==='']) (\<lambda>_.
     cthen (ceach (\<lambda>task.
       cthen (say [''  '' @ pad 15 (ts_id task) @ ''  status='' @ status_str (ts_status task)
         @ ''  duration='' @ show_int (ts_duration_ms task) @ ''ms'']) (\<lambda>_.
       ceach (\<lambda>d. say [''                  decision: '' @ dc_summary d]) (ts_decisions task))) (rp_tasks report)) (\<lambda>_.
     cthen (clift (py_index (rp_output report) ''topic'')) (\<lambda>topic.
     cthen (clift (py_index (rp_output report) ''total'')) (\<lambda>total.
     cthen (clift (py_index (rp_output report) ''sources'')) (\<lambda>sources.
     cthen (say [nl @ ''Output  : topic='' @ py_format fr topic @ '', total='' @ py_format fr total
         @ '' articles, sources='' @ py_format fr sources,
       ''Status  : '' @ status_str (rp_status report) @ ''  (wall='' @ fixed0 wall @ ''ms '' @ em_dash
         @ '' fetch_tech'' @ utf8 [226, 136, 165] @ ''fetch_finance ran in parallel, not sequentially)'',
       ''Critical path: '' @ join ('' '' @ arrow @ '' '') (rp_critical_path report)]) (\<lambda>_.
     if wall < 280
     then say [nl @ check_mark @ '' Parallelism confirmed: two 150ms fetches completed in one pass'']
     else ([], Asserted (''Expected parallel execution (~150ms), got '' @ fixed0 wall @ ''ms'')))))))))"

section \<open>03_llm_content_review.py\<close>

definition run_for :: "(rat \<Rightarrow> rat) \<Rightarrow> (rat \<Rightarrow> string) \<Rightarrow> runner \<Rightarrow> string \<Rightarrow> report console" where
  "run_for fl fr run content_id =
     cthen (run_spec fl run review_spec [(''content_id'', JStr content_id)]) (\<lambda>report.
     cthen (clift (py_index (rp_output report) ''content_id'')) (\<lambda>cid.
     cthen (say [nl @ ''  content_id : '' @ py_format fr cid]) (\<lambda>_.
     cthen (clift (py_index (rp_output report) ''action'')) (\<lambda>act.
     cthen (say [''  action     : '' @ py_format fr act]) (\<lambda>_.
     cthen (clift (rbind (py_index (rp_output report) ''verdict'') (\<lambda>v. py_index v ''label''))) (\<lambda>label.
     cthen (clift (rbind (py_index (rp_output report) ''verdict'') (\<lambda>v. py_index v ''score''))) (\<lambda>score.
     cthen (say [''  verdict    : label='' @ py_format fr label @ '', score='' @ py_format fr score]) (\<lambda>_.
     cthen (ceach (\<lambda>task. ceach (\<lambda>d. say [''  ['' @ ts_id task @ ''] '' @ dc_summary d]) (ts_decisions task))
       (rp_tasks report)) (\<lambda>_.
     cthen (if tt_llm_tokens_in (rp_totals report) \<noteq> 0
       then say [''  llm tokens : in='' @ show_int (tt_llm_tokens_in (rp_totals report))
         @ '' out='' @ show_int (tt_llm_tokens_out (rp_totals report))]
       else say []) (\<lambda>_.
     ([], Done report)))))))))))"

text \<open>\<open>api_key\<close>: the environment variable; \<open>run_on\<close>: the orchestrator over the LLM that is chosen.\<close>

definition main_review :: "(rat \<Rightarrow> rat) \<Rightarrow> (rat \<Rightarrow> string) \<Rightarrow> bool \<Rightarrow> string option \<Rightarrow> (llm_self \<Rightarrow> runner) \<Rightarrow> unit console" where
  "main_review fl fr use_real_llm api_key run_on =
     cthen (if use_real_llm
       then (case api_key of
               Some (c # cs) \<Rightarrow> ([''Using real Claude (Anthropic)'' @ nl],
                 Done (new_anthropic (Some ''claude-opus-4-8'') (JStr (c # cs))))
             | _ \<Rightarrow> ([], Exited ''Set ANTHROPIC_API_KEY to use real Claude''))
       else ([''Using MockLLM (offline '' @ em_dash @ '' pass --real to use Claude)'' @ nl], Done (new_mock None))) (\<lambda>llm.
     cthen (say [''=== Content Review Pipeline ==='']) (\<lambda>_.
     ceach (\<lambda>cid.
       cthen (say [nl @ ''--- '' @ cid @ '' ---'']) (\<lambda>_.
       cthen (run_for fl fr (run_on llm) cid) (\<lambda>_. say []))) [''post-001'', ''post-002'', ''post-003'']))"

section \<open>run_market.py\<close>

text \<open>\<open>os.path.join\<close> of a directory and a relative path.\<close>

definition path_join :: "string \<Rightarrow> string \<Rightarrow> string" where
  "path_join dir p = (if dir = [] \<or> last dir = CHR ''/'' then dir @ p else dir @ ''/'' @ p)"

definition main_market :: "(rat \<Rightarrow> rat) \<Rightarrow> (rat \<Rightarrow> string) \<Rightarrow> (string \<Rightarrow> json res) option \<Rightarrow> (string \<Rightarrow> string res)
    \<Rightarrow> string \<Rightarrow> runner \<Rightarrow> unit console" where
  "main_market fl fr yaml read_file here run =
     cthen (clift (workflow_from_file fl yaml read_file (path_join here ''../../spec/examples/market-analysis.json''))) (\<lambda>wf.
     cthen (clift (run wf [(''ticker'', JStr ''AAPL'')])) (\<lambda>report.
     say [report_to_json fr 2 report, nl @ ''--- summary ---'',
          ''status        : '' @ status_str (rp_status report),
          ''duration_ms   : '' @ show_int (rp_duration_ms report),
          ''critical_path : '' @ join '' -> '' (rp_critical_path report),
          ''output        : '' @ py_format fr (rp_output report)]))"

section \<open>04_mcp_flexible_workflow.py\<close>

text \<open>The body of the \<open>try\<close> after the run.\<close>

definition mcp_summary :: "(rat \<Rightarrow> string) \<Rightarrow> report \<Rightarrow> unit console" where
  "mcp_summary fr report =
     cthen (say [''=== Execution Summary ==='' @ nl]) (\<lambda>_.
     cthen (ceach (\<lambda>task.
       cthen (say [''['' @ ts_id task @ '']'',
         ''  Status: '' @ status_str (ts_status task) @ ''  Duration: '' @ show_int (ts_duration_ms task) @ ''ms'']) (\<lambda>_.
       cthen (ceach (\<lambda>d.
         cthen (say [''  '' @ utf8 [226, 148, 148, 226, 148, 128] @ '' '' @ dc_summary d]) (\<lambda>_.
         if truthy (dc_data d) then say [''     data: '' @ json_dumps fr (dc_data d)] else say []))
         (ts_decisions task)) (\<lambda>_.
       say [[]]))) (rp_tasks report)) (\<lambda>_.
     cthen (say [''Status: '' @ status_str (rp_status report)]) (\<lambda>_.
     cthen (if rp_errors report \<noteq> [] then say [''Errors: '' @ str_list (rp_errors report)] else say []) (\<lambda>_.
     cthen (if truthy (rp_output report) then
         (let out = rp_output report in
          cthen (say [nl @ ''=== Output ==='']) (\<lambda>_.
          cthen (clift (py_index out ''score'')) (\<lambda>score.
          cthen (say [''Score: '' @ py_format fr score @ ''/100'']) (\<lambda>_.
          cthen (clift (rbind (py_index out ''strengths'') join_two)) (\<lambda>strengths.
          cthen (say [''Strengths: '' @ strengths]) (\<lambda>_.
          cthen (clift (rbind (py_index out ''improvements'') join_two)) (\<lambda>improvements.
          cthen (say [''Improvements: '' @ improvements]) (\<lambda>_.
          cthen (clift (py_index out ''critical'')) (\<lambda>critical.
          if truthy critical
          then cthen (clift (join_two critical)) (\<lambda>two. say [''Critical issues: '' @ two])
          else say [])))))))))
       else say [''No output (task failed)'']) (\<lambda>_.
     if rp_status report = Succeeded then
       say [nl @ check_mark @ '' All three MCP levels executed successfully'',
         ''  Level 1 (direct):   scan_files_direct'',
         ''  Level 2 (wrapped):  read_main, fetch_best_practices'',
         ''  Level 3 (managed):  comprehensive_analysis'',
         nl @ ''  Managed server 'filesystem' reused across Level 2 and Level 3 tasks'',
         ''  Total duration: '' @ show_int (rp_duration_ms report) @ ''ms'',
         ''  Critical path: '' @ join ('' '' @ arrow @ '' '') (rp_critical_path report)]
     else ceach (\<lambda>t. if ts_status t = Failed
            then say [nl @ ''Task '' @ ts_id t @ '' failed: '' @ opt_text (ts_error t)] else say [])
          (rp_tasks report))))))"

text \<open>\<open>run\<close> acts on the servers; an exception of the cleanup would replace how the body ended.\<close>

definition main_mcp :: "(rat \<Rightarrow> rat) \<Rightarrow> (rat \<Rightarrow> string) \<Rightarrow> (workflow \<Rightarrow> (string, json) dict \<Rightarrow> report action)
    \<Rightarrow> mcp_world \<Rightarrow> unit console \<times> mcp_world" where
  "main_mcp fl fr run mw =
     (case workflow_from_dict fl levels_spec of
        Inl e \<Rightarrow> (([], Threw e), mw)
      | Inr w \<Rightarrow>
          (case run w [(''project_dir'', JStr ''/my/project'')] mw of (r, mw1) \<Rightarrow>
          (case mcp_cleanup mw1 of (c, mw2) \<Rightarrow>
            (cthen (say [''=== MCP Flexible Integration Demo ==='', ''(All three MCP levels working together)'' @ nl]) (\<lambda>_.
             case (cthen (clift r) (mcp_summary fr), c) of
               ((ls, e), Inr _) \<Rightarrow> (ls, e)
             | ((ls, e), Inl x) \<Rightarrow> (ls, Threw x)), mw2))))"

section \<open>05_multi_provider_llm.py\<close>

text \<open>The report is read through attributes; a task span has no \<open>name\<close> and the totals
  have no \<open>duration_secs\<close>, so what follows these is never reached.\<close>

definition multi_print :: "report \<Rightarrow> unit console" where
  "multi_print report =
     cthen (say [nl @ utf8 [240, 159, 147, 139] @ '' TASK RESULTS:'' @ nl]) (\<lambda>_.
     cthen (ceach (\<lambda>task_span. clift (Inl (AttributeError ''name''))) (rp_tasks report)) (\<lambda>_.
     cthen (if tt_llm_tokens_in (rp_totals report) \<noteq> 0 \<or> tt_llm_tokens_out (rp_totals report) \<noteq> 0
       then say [utf8 [240, 159, 147, 138] @ '' Total LLM Usage:'',
         ''   Input tokens:  '' @ show_int (tt_llm_tokens_in (rp_totals report)),
         ''   Output tokens: '' @ show_int (tt_llm_tokens_out (rp_totals report)),
         ''   Total tokens:  '' @ show_int (tt_llm_tokens_in (rp_totals report) + tt_llm_tokens_out (rp_totals report))]
       else say []) (\<lambda>_.
     clift (Inl (AttributeError ''duration_secs'')))))"

definition multi_header :: "string list" where
  "multi_header =
     [utf8 [240, 159, 164, 150] @ '' Multi-Provider LLM Workflow Example'' @ nl,
      ''This example demonstrates:'',
      ''  - Using different LLM providers for different tasks'',
      ''  - Cost optimization (cheap model for simple, expensive for complex)'',
      ''  - LLM usage tracking and reporting'' @ nl,
      check_mark @ '' Using MockLLM for demo (deterministic, no API keys)'' @ nl]"

definition multi_inputs :: "(string, json) dict" where
  "multi_inputs = [(''content'', JStr (''Claude just released a powerful new model that supports reasoning ''
     @ ''and tool use. It's amazing for multi-step tasks!''))]"

text \<open>\<open>create\<close> is \<open>create_workflow()\<close>, \<open>run\<close> the orchestrator over the registered skills.\<close>

definition main_multi :: "workflow res \<Rightarrow> runner \<Rightarrow> unit console" where
  "main_multi create run =
     cthen (say multi_header) (\<lambda>_.
     cthen (clift create) (\<lambda>wf.
     cthen (say [''Orchestrator: Starting workflow run...'' @ nl]) (\<lambda>_.
     cthen (clift (run wf multi_inputs)) multi_print)))"

section \<open>What the programs do\<close>

lemma cthen_say [simp]: "cthen (say ls) f = (case f () of (ls', e) \<Rightarrow> (ls @ ls', e))"
  by (simp add: say_def)

lemma clift_simps [simp]: "clift (Inl e) = ([], Threw e)" "clift (Inr x) = ([], Done x)"
  by (simp_all add: clift_def)

lemma cthen_done [simp]: "cthen ([], Done x) f = f x"
  by (simp split: prod.split)

text \<open>Every task list of the examples reaches the workflow, and with a task the default
  engine fails.\<close>

lemma loaded_nonempty:
  assumes "workflow_from_dict fl (JObj [(''workflow'', JObj kvs)]) = Inr w"
    and "dget kvs ''tasks'' = Some (JArr (t # ts))"
  shows "wf_tasks w \<noteq> []"
proof -
  have "parse_workflow fl (JObj [(''workflow'', JObj kvs)]) = Inr w" using loaded_parsed [OF assms(1)] by blast
  then have "rtraverse (task_from_dict fl) (t # ts) = Inr (wf_tasks w)"
    using assms(2) unfolding parse_workflow_def Let_def by (auto simp: rbind_eq_Inr simp del: rtraverse.simps split: if_splits)
  from rtraverse_length [OF this] show ?thesis by auto
qed

lemma shipped_raises:
  assumes "wf_tasks w \<noteq> []"
  shows "\<exists>e. shipped fl fr h popen w inputs = Inl e"
  unfolding shipped_def run_go_engine_def to_dict_raises [OF assms]
  by (cases "validate_inputs w inputs"; cases "get_engine_path h") auto

text \<open>The text of the market specification is read back whatever the path is.\<close>

lemma market_path: "ends_with ''.yaml'' (path_join here ''../../spec/examples/market-analysis.json'') = False"
  "ends_with ''.yml'' (path_join here ''../../spec/examples/market-analysis.json'') = False"
  by (simp_all add: path_join_def ends_with_def)

lemma market_tasks:
  assumes "workflow_from_file fl yaml (\<lambda>p. Inr (json_dumps fr market_spec)) (path_join here ''../../spec/examples/market-analysis.json'') = Inr w"
  shows "wf_tasks w \<noteq> []"
proof -
  have "json_clean market_spec" by code_simp
  then have "json_loads fl (json_dumps fr market_spec) = Inr market_spec" by (rule loads_dumps)
  then have "workflow_from_dict fl market_spec = Inr w"
    using assms by (simp add: workflow_from_file_def workflow_from_json_def market_path)
  then show ?thesis unfolding market_spec_def by (rule loaded_nonempty) simp
qed

lemma run_spec_raises:
  assumes "dget kvs ''tasks'' = Some (JArr (t # ts))"
  shows "\<exists>e. run_spec fl (shipped fl' fr h popen) (JObj [(''workflow'', JObj kvs)]) inputs = ([], Threw e)"
proof (cases "workflow_from_dict fl (JObj [(''workflow'', JObj kvs)])")
  case (Inr w)
  obtain e where "shipped fl' fr h popen w inputs = Inl e"
    using shipped_raises [OF loaded_nonempty [OF Inr assms]] by blast
  then show ?thesis using Inr by (simp add: run_spec_def)
qed (simp add: run_spec_def)

lemma ceach_done: "(\<And>x. \<exists>ls. f x = (ls, Done ())) \<Longrightarrow> \<exists>ls. ceach f xs = (ls, Done ())"
proof (induction xs)
  case (Cons x xs)
  obtain ls ms where "f x = (ls, Done ())" "ceach f xs = (ms, Done ())" using Cons by blast
  then show ?case by simp
qed (simp add: say_def)

lemma hello_task_done: "\<exists>ls. hello_task task = (ls, Done ())"
proof -
  obtain ls where "ceach (\<lambda>d. say [''             decision: '' @ repr_str (dc_summary d) @ ''  ('' @ opt_text (dc_rationale d) @ '')''])
      (ts_decisions task) = (ls, Done ())"
    using ceach_done [of "\<lambda>d. say [''             decision: '' @ repr_str (dc_summary d) @ ''  ('' @ opt_text (dc_rationale d) @ '')'']"
      "ts_decisions task"] unfolding say_def by blast
  then show ?thesis by (simp add: hello_task_def)
qed

text \<open>With the Python engine the first program greets: whatever the schedule and the clocks.\<close>

lemma hello_main_prints:
  assumes "sn_tools sc = []"
    and "run_example sc clk hello_spec (hello_skills sc) [(''name'', JStr ''World'')] batches
      = Some (rbind (workflow_from_dict (sn_fl sc) hello_spec) (\<lambda>w. run w [(''name'', JStr ''World'')]))"
  shows "\<exists>ls d. main_hello (sn_fl sc) fr run
    = (''=== Report ==='' # ls @ [nl @ ''Output : HELLO, WORLD!'', ''Status : succeeded  ('' @ show_int d @ ''ms total)''], Done ())"
proof -
  obtain r where r: "rbind (workflow_from_dict (sn_fl sc) hello_spec) (\<lambda>w. run w [(''name'', JStr ''World'')]) = Inr r"
    "rp_status r = Succeeded" "rp_output r = JStr (upper (''Hello, '' @ ''World'' @ ''!''))"
    using hello_world [OF assms] by blast
  have "upper (''Hello, '' @ ''World'' @ ''!'') = ''HELLO, WORLD!''" by code_simp
  then have o: "py_format fr (rp_output r) = ''HELLO, WORLD!''" by (simp add: r(3) py_format_def)
  obtain ls where ls: "ceach hello_task (rp_tasks r) = (ls, Done ())" using ceach_done [of hello_task] hello_task_done by blast
  have run: "run_spec (sn_fl sc) run hello_spec [(''name'', JStr ''World'')] = ([], Done r)"
    using r(1) by (auto simp: run_spec_def result_simps)
  have "main_hello (sn_fl sc) fr run = (''=== Report ==='' # ls
      @ [nl @ ''Output : HELLO, WORLD!'', ''Status : succeeded  ('' @ show_int (rp_duration_ms r) @ ''ms total)''], Done ())"
    unfolding main_hello_def run cthen_done cthen_say ls by (simp add: say_def o r(2))
  then show ?thesis by blast
qed

text \<open>The last program ends with an exception whatever its specification and its run give.\<close>

lemma multi_never_ends: "\<exists>ls e. main_multi create run = (ls, Threw e)"
proof -
  have p: "\<exists>ls e. multi_print r = (ls, Threw e)" for r
    by (cases "rp_tasks r") (auto simp: multi_print_def say_def)
  show ?thesis
  proof (cases create)
    case (Inr w)
    obtain ls x where "cthen (clift (run w multi_inputs)) multi_print = (ls, Threw x)"
    proof (cases "run w multi_inputs")
      case (Inr b)
      then show thesis using p [of b] that by auto
    qed (use that in simp)
    then show ?thesis using Inr by (simp add: main_multi_def)
  qed (simp add: main_multi_def)
qed

text \<open>However the run of the fourth program ends and whatever it did to the cached servers, none is
  connected or cached afterwards.\<close>

lemma mcp_main_cleans:
  assumes "workflow_from_dict fl levels_spec = Inr w" and "mcp_inv C (snd (run w [(''project_dir'', JStr ''/my/project'')] mw))"
    and "Opening \<notin> C"
  shows "mw_servers (snd (main_mcp fl fr run mw)) = []
    \<and> list_all (\<lambda>s. \<not> sv_connected s) (mw_heap (snd (main_mcp fl fr run mw)))"
proof -
  let ?v = "snd (run w [(''project_dir'', JStr ''/my/project'')] mw)"
  have m: "snd (main_mcp fl fr run mw) = snd (mcp_cleanup ?v)"
    by (simp add: main_mcp_def assms(1) split: prod.split)
  have i: "mcp_inv C (snd (mcp_cleanup ?v))" by (rule mcp_inv_cleanup [OF assms(2)])
  have e: "mw_servers (snd (mcp_cleanup ?v)) = []" using cleanup_spec [of ?v] by auto
  then have "\<not> sv_connected (server_at (snd (mcp_cleanup ?v)) j)"
    if "j < length (mw_heap (snd (mcp_cleanup ?v)))" for j
    using mcp_inv_connected [OF i assms(3) that] by (auto simp: e)
  then show ?thesis using e by (simp add: m list_all_length server_at_def)
qed

text \<open>C39. The examples as they are shipped: each of the six main programs builds its orchestrator with
  the default engine and ends with an exception, whatever the host, the engine binary, the rendering
  and the rounding of floats and the clocks are, without a line of a report. The review program, without
  \<open>--real\<close>, ends in its first content; the market file is the specification written by \<open>json.dumps\<close>.\<close>

theorem shipped_examples_raise:
  "(\<exists>e. main_hello fl fr (shipped fl' fr' h popen) = ([], Threw e))
   \<and> (\<exists>e. main_pipeline fl fr wall (shipped fl' fr' h popen) = ([], Threw e))
   \<and> (\<exists>e. main_market fl fr yaml (\<lambda>p. Inr (json_dumps fr market_spec)) here (shipped fl' fr' h popen) = ([], Threw e))
   \<and> (\<exists>l e. main_review fl fr False key (\<lambda>llm. shipped fl' fr' h popen)
        = ([l, ''=== Content Review Pipeline ==='', nl @ ''--- post-001 ---''], Threw e))
   \<and> (\<exists>ls e. fst (main_mcp fl fr (\<lambda>w ins mw. (shipped fl' fr' h popen w ins, mw)) mw) = (ls, Threw e) \<and> length ls \<le> 2)
   \<and> (\<exists>e. main_multi (workflow_from_dict fl multi_spec) (shipped fl' fr' h popen) = (multi_header, Threw e))"
proof (intro conjI)
  let ?go = "shipped fl' fr' h popen"
  note raises = run_spec_raises [where fl = fl and fl' = fl' and fr = fr' and h = h and popen = popen]
  obtain e where "run_spec fl ?go hello_spec [(''name'', JStr ''World'')] = ([], Threw e)"
    unfolding hello_spec_def using raises by fastforce
  then show "\<exists>e. main_hello fl fr ?go = ([], Threw e)" by (simp add: main_hello_def)
  obtain e where "run_spec fl ?go pipeline_spec [(''topic'', JStr ''AI'')] = ([], Threw e)"
    unfolding pipeline_spec_def using raises by fastforce
  then show "\<exists>e. main_pipeline fl fr wall ?go = ([], Threw e)" by (simp add: main_pipeline_def)
  obtain e where "run_spec fl ?go review_spec [(''content_id'', JStr ''post-001'')] = ([], Threw e)"
    unfolding review_spec_def using raises by fastforce
  then show "\<exists>l e. main_review fl fr False key (\<lambda>llm. ?go)
      = ([l, ''=== Content Review Pipeline ==='', nl @ ''--- post-001 ---''], Threw e)"
    by (simp add: main_review_def run_for_def)
  show "\<exists>e. main_multi (workflow_from_dict fl multi_spec) ?go = (multi_header, Threw e)"
    by (simp add: main_multi_def multi_spec_rejected)
  show "\<exists>e. main_market fl fr yaml (\<lambda>p. Inr (json_dumps fr market_spec)) here ?go = ([], Threw e)"
  proof (cases "workflow_from_file fl yaml (\<lambda>p. Inr (json_dumps fr market_spec)) (path_join here ''../../spec/examples/market-analysis.json'')")
    case (Inr w)
    have "wf_tasks w \<noteq> []" using Inr by (rule market_tasks)
    then obtain e where "?go w [(''ticker'', JStr ''AAPL'')] = Inl e" using shipped_raises by blast
    then show ?thesis using Inr by (simp add: main_market_def)
  qed (simp add: main_market_def)
  show "\<exists>ls e. fst (main_mcp fl fr (\<lambda>w ins mw. (?go w ins, mw)) mw) = (ls, Threw e) \<and> length ls \<le> 2"
  proof (cases "workflow_from_dict fl levels_spec")
    case (Inr w)
    have "wf_tasks w \<noteq> []" using Inr unfolding levels_spec_def by (rule loaded_nonempty) simp
    then obtain e where "?go w [(''project_dir'', JStr ''/my/project'')] = Inl e" using shipped_raises by blast
    moreover obtain mw' where "mcp_cleanup mw = (Inr (), mw')" using cleanup_spec [of mw] by blast
    ultimately show ?thesis using Inr by (simp add: main_mcp_def)
  qed (simp add: main_mcp_def)
qed

end
