(* ===== verification/Spec_Schema.thy ===== *)
theory Spec_Schema
  imports Example_Workflows
begin

text \<open>
  \<open>spec/spec.schema.json\<close>, which the specifications are written against, as a predicate on
  documents, and what it guarantees of the SDK: a document that satisfies the schema loads
  without a type error into a typed workflow, and the set-up of its run can only complain about
  a missing input or a rate limit over a zero duration. An integer is a number without
  fractional part, as in the draft the schema names; patterns are matched against whole strings.
\<close>

section \<open>Schemas\<close>

type_synonym schema = "json \<Rightarrow> bool"

fun is_string :: schema where
  "is_string (JStr s) = True"
| "is_string _ = False"

fun is_boolean :: schema where
  "is_boolean (JBool b) = True"
| "is_boolean _ = False"

definition one_of :: "string list \<Rightarrow> schema" where
  "one_of ss v = (case v of JStr s \<Rightarrow> s \<in> set ss | _ \<Rightarrow> False)"

definition int_from :: "int \<Rightarrow> schema" where
  "int_from m v =
     (case v of JInt i \<Rightarrow> m \<le> i | JFloat r \<Rightarrow> r = of_int \<lfloor>r\<rfloor> \<and> m \<le> \<lfloor>r\<rfloor> | _ \<Rightarrow> False)"

definition object_of :: "schema \<Rightarrow> schema" where
  "object_of p v = (case v of JObj kvs \<Rightarrow> list_all (\<lambda>(k, x). p x) kvs | _ \<Rightarrow> False)"

definition array_of :: "schema \<Rightarrow> schema" where
  "array_of p v = (case v of JArr xs \<Rightarrow> list_all p xs | _ \<Rightarrow> False)"

text \<open>\<open>properties\<close> with \<open>additionalProperties: false\<close>, and \<open>required\<close>.\<close>

definition closed_object :: "(string \<times> schema) list \<Rightarrow> string list \<Rightarrow> schema" where
  "closed_object props req v =
     (case v of
        JObj kvs \<Rightarrow> list_all (\<lambda>(k, x). case map_of props k of None \<Rightarrow> False | Some p \<Rightarrow> p x) kvs
          \<and> list_all (\<lambda>k. k \<in> set (dkeys kvs)) req
      | _ \<Rightarrow> False)"

section \<open>The schema of a specification\<close>

definition duration_schema :: schema where
  "duration_schema v = (case v of JStr s \<Rightarrow> match_duration s \<noteq> None | _ \<Rightarrow> False)"

definition rate_limit_schema :: schema where
  "rate_limit_schema = closed_object
     [(''requests'', int_from 1), (''per'', duration_schema), (''tokens'', int_from 1), (''per_tokens'', duration_schema)]
     [''requests'', ''per'']"

definition retry_schema :: schema where
  "retry_schema = closed_object
     [(''max'', int_from 0), (''backoff'', one_of [''none'', ''fixed'', ''exponential'']), (''base'', duration_schema),
      (''jitter'', is_boolean)] []"

definition on_error_schema :: schema where
  "on_error_schema = one_of [''fail_fast'', ''continue'']"

definition is_letter :: "char \<Rightarrow> bool" where
  "is_letter c \<longleftrightarrow> 65 \<le> code c \<and> code c \<le> 90 \<or> 97 \<le> code c \<and> code c \<le> 122 \<or> code c = 95"

definition id_schema :: schema where
  "id_schema v =
     (case v of JStr (c # cs) \<Rightarrow> is_letter c \<and> list_all (\<lambda>d. is_letter d \<or> is_digit d) cs | _ \<Rightarrow> False)"

definition task_schema :: schema where
  "task_schema = closed_object
     [(''id'', id_schema), (''skill'', is_string), (''provider'', is_string), (''depends_on'', array_of is_string),
      (''inputs'', object_of (\<lambda>x. True)), (''retry'', retry_schema), (''timeout'', duration_schema),
      (''on_error'', on_error_schema), (''idempotent'', is_boolean)] [''id'', ''skill'']"

definition concurrency_schema :: schema where
  "concurrency_schema = closed_object [(''max_parallel'', int_from 1), (''rate_limit'', rate_limit_schema)] []"

definition provider_schema :: schema where
  "provider_schema = closed_object [(''rate_limit'', rate_limit_schema)] []"

definition defaults_schema :: schema where
  "defaults_schema = closed_object
     [(''retry'', retry_schema), (''timeout'', duration_schema), (''on_error'', on_error_schema)] []"

definition input_schema :: schema where
  "input_schema = closed_object
     [(''type'', one_of [''string'', ''number'', ''boolean'', ''object'', ''array'']), (''required'', is_boolean),
      (''default'', \<lambda>x. True)] []"

definition nonempty_tasks :: schema where
  "nonempty_tasks v = (array_of task_schema v \<and> v \<noteq> JArr [])"

definition workflow_schema :: schema where
  "workflow_schema = closed_object
     [(''name'', is_string), (''version'', int_from 1), (''concurrency'', concurrency_schema),
      (''providers'', object_of provider_schema), (''defaults'', defaults_schema), (''inputs'', object_of input_schema),
      (''tasks'', nonempty_tasks), (''output'', is_string)] [''name'', ''tasks'']"

definition spec_schema :: schema where
  "spec_schema v = (case v of JObj kvs \<Rightarrow> (case dget kvs ''workflow'' of None \<Rightarrow> False | Some w \<Rightarrow> workflow_schema w) | _ \<Rightarrow> False)"

section \<open>Typed workflows\<close>

definition typed_rate_limit :: "rate_limit \<Rightarrow> bool" where
  "typed_rate_limit rl \<longleftrightarrow> 1 \<le> rl_requests rl \<and> rl_per rl \<noteq> None \<and> (rl_tokens rl = JNull \<or> int_from 1 (rl_tokens rl))"

definition typed_retry :: "retry \<Rightarrow> bool" where
  "typed_retry r \<longleftrightarrow> 0 \<le> rt_max r \<and> one_of [''none'', ''fixed'', ''exponential''] (rt_backoff r) \<and> rt_base r \<noteq> None"

definition typed_task :: "task \<Rightarrow> bool" where
  "typed_task t \<longleftrightarrow> tk_id t \<noteq> [] \<and> is_string (tk_skill t) \<and> (tk_provider t = JNull \<or> is_string (tk_provider t))
     \<and> (tk_on_error t = JNull \<or> on_error_schema (tk_on_error t)) \<and> pred_option typed_retry (tk_retry t)"

definition typed_workflow :: "workflow \<Rightarrow> bool" where
  "typed_workflow w \<longleftrightarrow> is_string (wf_name w) \<and> wf_tasks w \<noteq> [] \<and> list_all typed_task (wf_tasks w)
     \<and> 1 \<le> wf_version w \<and> 1 \<le> wf_max_parallel w \<and> pred_option typed_rate_limit (wf_rate_limit w)
     \<and> list_all (\<lambda>(n, p). pred_option typed_rate_limit (pv_rate_limit p)) (wf_providers w)
     \<and> pred_option typed_retry (wf_default_retry w) \<and> on_error_schema (wf_default_on_error w)
     \<and> object_of input_schema (wf_inputs_schema w) \<and> (wf_output w = JNull \<or> is_string (wf_output w))"

section \<open>A document of the schema loads\<close>

lemma closed_objectD:
  assumes "closed_object props req v"
  obtains kvs where "v = JObj kvs" "set req \<subseteq> set (dkeys kvs)"
    "\<And>k x. dget kvs k = Some x \<Longrightarrow> \<exists>p. map_of props k = Some p \<and> p x"
proof -
  obtain kvs where v: "v = JObj kvs" "list_all (\<lambda>k. k \<in> set (dkeys kvs)) req"
    "list_all (\<lambda>(k, x). case map_of props k of None \<Rightarrow> False | Some p \<Rightarrow> p x) kvs"
    using assms by (auto simp: closed_object_def split: json.splits)
  moreover have "\<exists>p. map_of props k = Some p \<and> p x" if "dget kvs k = Some x" for k x
    using v(3) map_of_SomeD [OF that] by (fastforce simp: list_all_iff split: option.splits)
  ultimately show thesis using that by (auto simp: list_all_iff)
qed

lemma closed_get:
  assumes "closed_object props req v" and "map_of props k = Some p"
  shows "\<exists>x. py_get v k d = Inr x \<and> (x = d \<or> p x)"
proof -
  obtain kvs where "v = JObj kvs" "\<And>k x. dget kvs k = Some x \<Longrightarrow> \<exists>p. map_of props k = Some p \<and> p x"
    using closed_objectD [OF assms(1)] by metis
  then show ?thesis using assms(2) by (fastforce split: option.split)
qed

lemma closed_index:
  assumes "closed_object props req v" and "map_of props k = Some p" and "k \<in> set req"
  shows "\<exists>x. py_index v k = Inr x \<and> p x"
proof -
  obtain kvs where v: "v = JObj kvs" "set req \<subseteq> set (dkeys kvs)"
    "\<And>k x. dget kvs k = Some x \<Longrightarrow> \<exists>p. map_of props k = Some p \<and> p x"
    using closed_objectD [OF assms(1)] by metis
  have "dget kvs k \<noteq> None" using v(2) assms(3) by (auto simp: dget_None_iff)
  then obtain x where x: "dget kvs k = Some x" by blast
  then show ?thesis using v(1) v(3) [OF x] assms(2) by simp
qed

lemma closed_or_empty: "closed_object props req v \<Longrightarrow> py_or v (JObj []) = v"
  by (auto simp: py_or_def closed_object_def split: json.splits)

lemma object_or_empty:
  "object_of p v \<Longrightarrow> \<exists>kvs. v = JObj kvs \<and> py_or v (JObj []) = JObj kvs \<and> list_all (\<lambda>(k, x). p x) kvs"
  by (auto simp: object_of_def py_or_def split: json.splits)

lemma duration_schema_loads:
  assumes "duration_schema v"
  obtains x where "parse_duration fl v d = Inr (Some x)"
proof -
  obtain s ds u where v: "v = JStr s" "match_duration s = Some (ds, u)"
    using assms by (auto simp: duration_schema_def split: json.splits)
  then have s: "s = ds @ u" "list_all is_digit ds" "u \<in> {''ms'', ''s'', ''m'', ''h''}"
    by (auto simp: match_duration_iff)
  have "\<not> is_space c" if "c \<in> set ds" for c
    using s(2) that by (auto simp: list_all_iff is_digit_def is_space_def)
  moreover have "\<not> is_space c" if "c \<in> set u" for c
    using s(3) that by (auto simp: is_space_def code_def)
  ultimately have "strip s = s" using s(1) by (intro strip_no_space) auto
  moreover have "\<exists>k. duration_unit fl u = Some k" using s(3) by (auto simp: duration_unit_def)
  ultimately show thesis using that v by (auto simp: parse_duration_def)
qed

lemma duration_or_null:
  assumes "v = JNull \<or> duration_schema v"
  shows "\<exists>x. parse_duration fl v d = Inr x \<and> (d \<noteq> None \<longrightarrow> x \<noteq> None)"
proof (cases "v = JNull")
  case True
  then show ?thesis by (simp add: parse_duration_def)
next
  case False
  then obtain x where "parse_duration fl v d = Inr (Some x)" using duration_schema_loads assms by blast
  then show ?thesis by simp
qed

lemma int_from_loads:
  assumes "int_from m v" and "0 \<le> m" obtains i where "py_int v = Inr i" "m \<le> i"
proof (cases v)
  case (JInt i)
  then show thesis using assms that by (simp add: int_from_def)
next
  case (JFloat r)
  then have r: "r = of_int \<lfloor>r\<rfloor>" "m \<le> \<lfloor>r\<rfloor>" using assms(1) by (auto simp: int_from_def)
  then have "0 \<le> r" using assms(2) by linarith
  then show thesis using that r(2) JFloat by (simp add: trunc_rat_def)
qed (use assms in \<open>auto simp: int_from_def\<close>)

lemma rate_limit_loads:
  assumes "v = JNull \<or> rate_limit_schema v"
  obtains r where "rate_limit_from_dict fl v = Inr r" "pred_option typed_rate_limit r"
proof (cases "truthy v")
  case False
  then show thesis using that by (simp add: rate_limit_from_dict_def)
next
  case True
  then have c: "closed_object [(''requests'', int_from 1), (''per'', duration_schema), (''tokens'', int_from 1),
      (''per_tokens'', duration_schema)] [''requests'', ''per''] v"
    using assms by (auto simp: rate_limit_schema_def)
  obtain rq where rq: "py_index v ''requests'' = Inr rq" "int_from 1 rq"
    using closed_index [OF c, where k = "''requests''" and p = "int_from 1"] by auto
  obtain n where n: "py_int rq = Inr n" "1 \<le> n" using int_from_loads [OF rq(2)] by auto
  obtain p where p: "py_index v ''per'' = Inr p" "duration_schema p"
    using closed_index [OF c, where k = "''per''" and p = "duration_schema"] by auto
  obtain per where per: "parse_duration fl p None = Inr (Some per)" by (rule duration_schema_loads [OF p(2)])
  obtain tk where tk: "py_get v ''tokens'' JNull = Inr tk" "tk = JNull \<or> int_from 1 tk"
    using closed_get [OF c, where k = "''tokens''" and p = "int_from 1" and d = "JNull"] by auto
  obtain pt where pt: "py_get v ''per_tokens'' JNull = Inr pt" "pt = JNull \<or> duration_schema pt"
    using closed_get [OF c, where k = "''per_tokens''" and p = "duration_schema" and d = "JNull"] by auto
  obtain x where x: "parse_duration fl pt None = Inr x" using duration_or_null [OF pt(2)] by blast
  show thesis
    using that [of "Some \<lparr>rl_requests = n, rl_per = Some per, rl_tokens = tk, rl_per_tokens = x\<rparr>"] True rq p n per tk pt x
    by (auto simp: rate_limit_from_dict_def typed_rate_limit_def)
qed

lemma retry_loads:
  assumes "v = JNull \<or> retry_schema v"
  obtains r where "retry_from_dict fl v = Inr r" "pred_option typed_retry r"
proof (cases "truthy v")
  case False
  then show thesis using that by (simp add: retry_from_dict_def)
next
  case True
  then have c: "closed_object [(''max'', int_from 0), (''backoff'', one_of [''none'', ''fixed'', ''exponential'']),
      (''base'', duration_schema), (''jitter'', is_boolean)] [] v"
    using assms by (auto simp: retry_schema_def)
  obtain m where m: "py_get v ''max'' (JInt 0) = Inr m" "m = JInt 0 \<or> int_from 0 m"
    using closed_get [OF c, where k = "''max''" and p = "int_from 0" and d = "JInt 0"] by auto
  obtain n where n: "py_int m = Inr n" "0 \<le> n" using m(2) int_from_loads [of 0 m] by auto
  obtain b where b: "py_get v ''backoff'' (JStr ''exponential'') = Inr b"
    "b = JStr ''exponential'' \<or> one_of [''none'', ''fixed'', ''exponential''] b"
    using closed_get [OF c, where k = "''backoff''" and p = "one_of [''none'', ''fixed'', ''exponential'']" and d = "JStr ''exponential''"] by auto
  obtain ba where ba: "py_get v ''base'' JNull = Inr ba" "ba = JNull \<or> duration_schema ba"
    using closed_get [OF c, where k = "''base''" and p = "duration_schema" and d = "JNull"] by auto
  obtain x where x: "parse_duration fl ba (Some (1 / 2)) = Inr (Some x)"
    using duration_or_null [OF ba(2), of fl "Some (1 / 2)"] by auto
  obtain j where j: "py_get v ''jitter'' (JBool True) = Inr j"
    using closed_get [OF c, where k = "''jitter''" and p = "is_boolean" and d = "JBool True"] by auto
  show thesis
    using that [of "Some \<lparr>rt_max = n, rt_backoff = b, rt_base = Some x, rt_jitter = truthy j\<rparr>"] True m n b ba x j
    by (auto simp: retry_from_dict_def typed_retry_def one_of_def)
qed

lemma strings_loads: "list_all is_string xs \<Longrightarrow> \<exists>ss. rtraverse (as_string f) xs = Inr ss"
proof (induction xs)
  case (Cons x xs)
  then show ?case by (cases x) (auto simp: as_string_def)
qed simp

lemma rtraverse_total:
  "list_all p xs \<Longrightarrow> (\<And>x. p x \<Longrightarrow> \<exists>y. f x = Inr y \<and> q y) \<Longrightarrow> \<exists>ys. rtraverse f xs = Inr ys \<and> list_all q ys \<and> length ys = length xs"
proof (induction xs)
  case (Cons x xs)
  obtain y where "f x = Inr y" "q y" using Cons.prems by auto
  moreover obtain ys where "rtraverse f xs = Inr ys" "list_all q ys" "length ys = length xs"
    using Cons.IH Cons.prems by auto
  ultimately show ?case by simp
qed simp

lemma task_loads:
  assumes "task_schema v"
  shows "\<exists>t. task_from_dict fl v = Inr t \<and> typed_task t"
proof -
  note c = assms [unfolded task_schema_def]
  obtain i where i: "py_index v ''id'' = Inr i" "id_schema i"
    using closed_index [OF c, where k = "''id''" and p = id_schema] by auto
  then obtain tid where tid: "i = JStr tid" "tid \<noteq> []" by (auto simp: id_schema_def split: json.splits list.splits)
  obtain sk where sk: "py_index v ''skill'' = Inr sk" "is_string sk"
    using closed_index [OF c, where k = "''skill''" and p = is_string] by auto
  obtain pv where pv: "py_get v ''provider'' JNull = Inr pv" "pv = JNull \<or> is_string pv"
    using closed_get [OF c, where k = "''provider''" and p = is_string and d = JNull] by auto
  obtain d where d: "py_get v ''depends_on'' (JArr []) = Inr d" "d = JArr [] \<or> array_of is_string d"
    using closed_get [OF c, where k = "''depends_on''" and p = "array_of is_string" and d = "JArr []"] by auto
  obtain ds where ds: "d = JArr ds" "list_all is_string ds"
    using d(2) by (auto simp: array_of_def split: json.splits)
  obtain deps where deps: "rtraverse (as_string ''depends_on'') ds = Inr deps" using strings_loads [OF ds(2)] by blast
  have it: "py_iter (py_or d (JArr [])) = Inr ds" by (simp add: ds(1) py_or_def)
  obtain ins where ins: "py_get v ''inputs'' (JObj []) = Inr ins" "ins = JObj [] \<or> object_of (\<lambda>x. True) ins"
    using closed_get [OF c, where k = "''inputs''" and p = "object_of (\<lambda>x. True)" and d = "JObj []"] by auto
  obtain inputs where inputs: "py_dict (py_or ins (JObj [])) = Inr inputs"
    using object_or_empty [of "\<lambda>x. True" ins] ins(2) by (auto simp: py_dict_def object_of_def)
  obtain r where r: "py_get v ''retry'' JNull = Inr r" "r = JNull \<or> retry_schema r"
    using closed_get [OF c, where k = "''retry''" and p = retry_schema and d = JNull] by auto
  obtain rt where rt: "retry_from_dict fl r = Inr rt" "pred_option typed_retry rt" by (rule retry_loads [OF r(2)])
  obtain tm where tm: "py_get v ''timeout'' JNull = Inr tm" "tm = JNull \<or> duration_schema tm"
    using closed_get [OF c, where k = "''timeout''" and p = duration_schema and d = JNull] by auto
  obtain timeout where timeout: "parse_duration fl tm None = Inr timeout" using duration_or_null [OF tm(2)] by blast
  obtain oe where oe: "py_get v ''on_error'' JNull = Inr oe" "oe = JNull \<or> on_error_schema oe"
    using closed_get [OF c, where k = "''on_error''" and p = on_error_schema and d = JNull] by auto
  obtain idem where idem: "py_get v ''idempotent'' (JBool False) = Inr idem"
    using closed_get [OF c, where k = "''idempotent''" and p = is_boolean and d = "JBool False"] by auto
  show ?thesis
    unfolding task_from_dict_def
    by (simp add: i(1) tid sk pv d(1) it deps ins(1) inputs r(1) rt tm(1) timeout oe idem as_string_def typed_task_def
        del: py_get.simps py_index.simps)
qed

lemma provider_loads:
  assumes "provider_schema p"
  shows "\<exists>q. provider_from_item fl (n, p) = Inr q \<and> (\<lambda>(n, p). pred_option typed_rate_limit (pv_rate_limit p)) q"
proof -
  note c = assms [unfolded provider_schema_def]
  obtain rl where rl: "py_get p ''rate_limit'' JNull = Inr rl" "rl = JNull \<or> rate_limit_schema rl"
    using closed_get [OF c, where k = "''rate_limit''" and p = rate_limit_schema and d = JNull] by auto
  obtain r where "rate_limit_from_dict fl rl = Inr r" "pred_option typed_rate_limit r" by (rule rate_limit_loads [OF rl(2)])
  then show ?thesis using rl(1) by (simp add: provider_from_item_def closed_or_empty [OF c])
qed

lemma dict_of_all: "list_all q kvs \<Longrightarrow> list_all q (dict_of kvs)"
proof -
  have s: "list_all q d \<Longrightarrow> q (k, v) \<Longrightarrow> list_all q (dset k v d)" for k v d
    by (induction k v d rule: dset.induct) auto
  have "list_all q d \<Longrightarrow> list_all q kvs \<Longrightarrow> list_all q (fold (\<lambda>(k, v). dset k v) kvs d)" for d
    by (induction kvs arbitrary: d) (auto simp: s)
  then show "list_all q kvs \<Longrightarrow> list_all q (dict_of kvs)" by (simp add: dict_of_def)
qed

section \<open>The whole specification\<close>

lemma concurrency_loads:
  assumes "closed_object [(''max_parallel'', int_from 1), (''rate_limit'', rate_limit_schema)] [] v"
  obtains mp par rl lim where "py_get v ''max_parallel'' (JInt 8) = Inr mp" "py_int mp = Inr par" "1 \<le> par"
    "py_get v ''rate_limit'' JNull = Inr rl" "rate_limit_from_dict fl rl = Inr lim" "pred_option typed_rate_limit lim"
proof -
  obtain mp where mp: "py_get v ''max_parallel'' (JInt 8) = Inr mp" "mp = JInt 8 \<or> int_from 1 mp"
    using closed_get [OF assms, where k = "''max_parallel''" and p = "int_from 1" and d = "JInt 8"] by auto
  obtain par where par: "py_int mp = Inr par" "1 \<le> par" using mp(2) int_from_loads [of 1 mp] by auto
  obtain rl where rl: "py_get v ''rate_limit'' JNull = Inr rl" "rl = JNull \<or> rate_limit_schema rl"
    using closed_get [OF assms, where k = "''rate_limit''" and p = rate_limit_schema and d = JNull] by auto
  from rl(2) obtain lim where "rate_limit_from_dict fl rl = Inr lim" "pred_option typed_rate_limit lim"
    by (rule rate_limit_loads)
  then show thesis by (rule that [OF mp(1) par rl(1)])
qed

lemma defaults_loads:
  assumes "closed_object [(''retry'', retry_schema), (''timeout'', duration_schema), (''on_error'', on_error_schema)] [] v"
  obtains dr rt dt timeout oe where "py_get v ''retry'' JNull = Inr dr" "retry_from_dict fl dr = Inr rt"
    "typed_retry (case rt of None \<Rightarrow> default_retry | Some r \<Rightarrow> r)"
    "py_get v ''timeout'' JNull = Inr dt" "parse_duration fl dt None = Inr timeout"
    "py_get v ''on_error'' (JStr ''fail_fast'') = Inr oe" "on_error_schema oe"
proof -
  obtain dr where dr: "py_get v ''retry'' JNull = Inr dr" "dr = JNull \<or> retry_schema dr"
    using closed_get [OF assms, where k = "''retry''" and p = retry_schema and d = JNull] by auto
  from dr(2) obtain rt where rt: "retry_from_dict fl dr = Inr rt" "pred_option typed_retry rt" by (rule retry_loads)
  then have r: "typed_retry (case rt of None \<Rightarrow> default_retry | Some r \<Rightarrow> r)"
    by (cases rt) (simp_all add: typed_retry_def default_retry_def one_of_def)
  obtain dt where dt: "py_get v ''timeout'' JNull = Inr dt" "dt = JNull \<or> duration_schema dt"
    using closed_get [OF assms, where k = "''timeout''" and p = duration_schema and d = JNull] by auto
  obtain timeout where timeout: "parse_duration fl dt None = Inr timeout" using duration_or_null [OF dt(2)] by blast
  obtain oe where oe: "py_get v ''on_error'' (JStr ''fail_fast'') = Inr oe" "on_error_schema oe"
    using closed_get [OF assms, where k = "''on_error''" and p = on_error_schema and d = "JStr ''fail_fast''"]
    by (auto simp: on_error_schema_def one_of_def)
  show thesis by (rule that [OF dr(1) rt(1) r dt(1) timeout oe])
qed

lemma tasks_load:
  assumes "nonempty_tasks v"
  obtains ts tasks where "py_iter v = Inr ts" "rtraverse (task_from_dict fl) ts = Inr tasks"
    "list_all typed_task tasks" "tasks \<noteq> []"
proof -
  obtain ts where ts: "v = JArr ts" "list_all task_schema ts" "ts \<noteq> []"
    using assms by (auto simp: nonempty_tasks_def array_of_def split: json.splits)
  obtain tasks where t: "rtraverse (task_from_dict fl) ts = Inr tasks" "list_all typed_task tasks" "length tasks = length ts"
    using rtraverse_total [where f = "task_from_dict fl" and q = typed_task, OF ts(2) task_loads] by blast
  then have "tasks \<noteq> []" using ts(3) by auto
  with t show thesis using that [of ts tasks] ts(1) by simp
qed

lemma providers_load:
  assumes "v = JObj [] \<or> object_of provider_schema v"
  obtains items ps where "py_or v (JObj []) = JObj items" "rtraverse (provider_from_item fl) items = Inr ps"
    "list_all (\<lambda>(n, p). pred_option typed_rate_limit (pv_rate_limit p)) ps"
proof -
  obtain items where items: "py_or v (JObj []) = JObj items" "list_all (\<lambda>(k, x). provider_schema x) items"
    using object_or_empty [of provider_schema v] assms by (auto simp: object_of_def)
  have "\<exists>y. provider_from_item fl x = Inr y \<and> (\<lambda>(n, p). pred_option typed_rate_limit (pv_rate_limit p)) y"
    if "(\<lambda>(k, x). provider_schema x) x" for x
    using that provider_loads [of "snd x" fl "fst x"] by (simp add: case_prod_unfold)
  from rtraverse_total [where f = "provider_from_item fl", OF items(2) this] show thesis using that items(1) by blast
qed

lemma workflow_loads:
  assumes "spec_schema doc"
  shows "\<exists>w. parse_workflow fl doc = Inr w \<and> typed_workflow w"
proof -
  obtain v where v: "py_get doc ''workflow'' JNull = Inr v" "workflow_schema v"
    using assms by (auto simp: spec_schema_def split: json.splits option.splits)
  note c = v(2) [unfolded workflow_schema_def]
  have obj: "(case v of JObj x \<Rightarrow> False | _ \<Rightarrow> True) = False" by (rule closed_objectD [OF c]) simp
  obtain cn where cn: "py_get v ''concurrency'' (JObj []) = Inr cn"
    "closed_object [(''max_parallel'', int_from 1), (''rate_limit'', rate_limit_schema)] [] cn"
    using closed_get [OF c, where k = "''concurrency''" and p = concurrency_schema and d = "JObj []"]
    by (auto simp: concurrency_schema_def closed_object_def)
  from cn(2) obtain mp par rl lim where con: "py_get cn ''max_parallel'' (JInt 8) = Inr mp" "py_int mp = Inr par" "1 \<le> par"
    "py_get cn ''rate_limit'' JNull = Inr rl" "rate_limit_from_dict fl rl = Inr lim" "pred_option typed_rate_limit lim"
    by (rule concurrency_loads)
  obtain df where df: "py_get v ''defaults'' (JObj []) = Inr df"
    "closed_object [(''retry'', retry_schema), (''timeout'', duration_schema), (''on_error'', on_error_schema)] [] df"
    using closed_get [OF c, where k = "''defaults''" and p = defaults_schema and d = "JObj []"]
    by (auto simp: defaults_schema_def closed_object_def)
  from df(2) obtain dr rt dt timeout oe where def: "py_get df ''retry'' JNull = Inr dr" "retry_from_dict fl dr = Inr rt"
    "typed_retry (case rt of None \<Rightarrow> default_retry | Some r \<Rightarrow> r)"
    "py_get df ''timeout'' JNull = Inr dt" "parse_duration fl dt None = Inr timeout"
    "py_get df ''on_error'' (JStr ''fail_fast'') = Inr oe" "on_error_schema oe"
    by (rule defaults_loads)
  obtain ps where ps: "py_get v ''providers'' (JObj []) = Inr ps" "ps = JObj [] \<or> object_of provider_schema ps"
    using closed_get [OF c, where k = "''providers''" and p = "object_of provider_schema" and d = "JObj []"] by auto
  from ps(2) obtain items provs where provs: "py_or ps (JObj []) = JObj items"
    "rtraverse (provider_from_item fl) items = Inr provs"
    "list_all (\<lambda>(n, p). pred_option typed_rate_limit (pv_rate_limit p)) provs"
    by (rule providers_load)
  obtain tj where tj: "py_get v ''tasks'' (JArr []) = Inr tj" "nonempty_tasks tj"
    using closed_index [OF c, where k = "''tasks''" and p = nonempty_tasks] by (cases v) (auto split: option.splits)
  from tj(2) obtain ts tasks where tasks: "py_iter tj = Inr ts" "rtraverse (task_from_dict fl) ts = Inr tasks"
    "list_all typed_task tasks" "tasks \<noteq> []" by (rule tasks_load)
  obtain nm where nm: "py_index v ''name'' = Inr nm" "is_string nm"
    using closed_index [OF c, where k = "''name''" and p = is_string] by auto
  obtain ve where ve: "py_get v ''version'' (JInt 1) = Inr ve" "ve = JInt 1 \<or> int_from 1 ve"
    using closed_get [OF c, where k = "''version''" and p = "int_from 1" and d = "JInt 1"] by auto
  obtain version where version: "py_int ve = Inr version" "1 \<le> version" using ve(2) int_from_loads [of 1 ve] by auto
  obtain ins where ins: "py_get v ''inputs'' (JObj []) = Inr ins" "ins = JObj [] \<or> object_of input_schema ins"
    using closed_get [OF c, where k = "''inputs''" and p = "object_of input_schema" and d = "JObj []"] by auto
  have ok: "object_of input_schema (py_or ins (JObj []))"
    using object_or_empty [of input_schema ins] ins(2) by (auto simp: object_of_def)
  obtain out where out: "py_get v ''output'' JNull = Inr out" "out = JNull \<or> is_string out"
    using closed_get [OF c, where k = "''output''" and p = is_string and d = JNull] by auto
  show ?thesis
    unfolding parse_workflow_def Let_def
    by (simp add: v(1) obj cn(1) closed_or_empty [OF cn(2)] df(1) closed_or_empty [OF df(2)] ps(1) provs tj(1) tasks nm
        ve(1) version con def ins(1) ok out typed_workflow_def dict_of_all del: py_get.simps py_index.simps)
qed

section \<open>What a run can complain about\<close>

text \<open>The required inputs that are not given, in the order of the schema.\<close>

definition missing_inputs :: "(string \<times> json) list \<Rightarrow> (string, json) dict \<Rightarrow> string list" where
  "missing_inputs kvs inputs =
     map fst (filter (\<lambda>(k, x). py_get x ''required'' JNull = Inr (JBool True) \<and> k \<notin> set (dkeys inputs)) kvs)"

lemma required_loads:
  "list_all (\<lambda>(k, x). input_schema x) kvs \<Longrightarrow>
     check_required kvs inputs = (case missing_inputs kvs inputs of
         [] \<Rightarrow> Inr () | k # ks \<Rightarrow> Inl (ValueError (''missing required input: '' @ repr_str k)))"
proof (induction kvs inputs rule: check_required.induct)
  case (2 name schema rest inputs)
  then have "input_schema schema" by simp
  then obtain r where r: "py_get schema ''required'' JNull = Inr r" "r = JNull \<or> is_boolean r"
    using closed_get [where k = "''required''" and p = is_boolean and d = JNull, OF _, of _ "[]" schema]
    unfolding input_schema_def by fastforce
  then have "truthy r \<longleftrightarrow> r = JBool True" by (cases r) auto
  then show ?case using 2 r(1) by (simp add: missing_inputs_def)
qed (simp add: missing_inputs_def)

lemma inputs_checked:
  assumes "object_of input_schema (wf_inputs_schema w)"
  shows "\<exists>kvs. wf_inputs_schema w = JObj kvs \<and>
    validate_inputs w inputs = (case missing_inputs kvs inputs of
       [] \<Rightarrow> Inr () | k # ks \<Rightarrow> Inl (ValueError (''missing required input: '' @ repr_str k)))"
  using assms required_loads by (auto simp: object_of_def validate_inputs_def split: json.splits)

abbreviation zero_rate :: py_error where
  "zero_rate \<equiv> ValueError ''rate and per must be positive''"

text \<open>The periods that a rate limit needs: that of its requests, and that of its tokens where a
  bucket is built for them.\<close>

abbreviation timed :: "rate_limit option \<Rightarrow> bool" where
  "timed \<equiv> pred_option (\<lambda>r. pred_option ((<) 0) (rl_per r))"

abbreviation tokens_timed :: "rate_limit option \<Rightarrow> bool" where
  "tokens_timed \<equiv> pred_option (\<lambda>r. rl_tokens r = JNull \<or> pred_option ((<) 0) (rl_per_tokens r))"

definition positive_periods :: "workflow \<Rightarrow> bool" where
  "positive_periods w \<longleftrightarrow> timed (wf_rate_limit w)
     \<and> list_all (\<lambda>(n, p). timed (pv_rate_limit p) \<and> tokens_timed (pv_rate_limit p)) (wf_providers w)"

definition only_fails :: "py_error \<Rightarrow> bool \<Rightarrow> 'a res \<Rightarrow> bool" where
  "only_fails e ok r \<longleftrightarrow> (if ok then \<exists>x. r = Inr x else r = Inl e)"

lemma only_fails_simps [simp]: "only_fails e ok (Inr x) \<longleftrightarrow> ok" "only_fails e ok (Inl e) \<longleftrightarrow> \<not> ok"
  by (auto simp: only_fails_def)

lemma only_fails_rmap: "only_fails e ok r \<Longrightarrow> only_fails e ok (rmap f r)"
  by (auto simp: only_fails_def split: if_splits)

lemma only_fails_rbind:
  "only_fails e ok r \<Longrightarrow> (\<And>x. r = Inr x \<Longrightarrow> only_fails e ok' (f x)) \<Longrightarrow> only_fails e (ok \<and> ok') (rbind r f)"
  by (auto simp: only_fails_def split: if_splits)

lemma only_fails_traverse:
  "(\<And>x. x \<in> set xs \<Longrightarrow> only_fails e (P x) (f x)) \<Longrightarrow> only_fails e (list_all P xs) (rtraverse f xs)"
proof (induction xs)
  case (Cons x xs)
  then have "only_fails e (P x) (f x)" "only_fails e (list_all P xs) (rtraverse f xs)" by auto
  then show ?case by (auto simp: only_fails_def split: if_splits)
qed simp

lemma init_fails: "0 < rate \<Longrightarrow> only_fails zero_rate (0 < p) (init_bucket now rate (Some p) cap name)"
  by (simp add: init_bucket_def Let_def)

lemma int_from_num: "int_from 1 v \<Longrightarrow> \<exists>n. py_num v = Inr n \<and> 0 < n"
  by (auto simp: int_from_def split: json.splits)

lemma bucket_fails:
  assumes "pred_option typed_rate_limit rl"
  shows "only_fails zero_rate (timed rl) (bucket_for now rl name)"
    "only_fails zero_rate (tokens_timed rl) (token_bucket_for now rl name)"
proof -
  show "only_fails zero_rate (timed rl) (bucket_for now rl name)"
  proof (cases rl)
    case (Some r)
    then obtain p where "rl_per r = Some p" "0 < rl_requests r" using assms by (auto simp: typed_rate_limit_def)
    then show ?thesis using Some init_fails [of "of_int (rl_requests r)" p now "Some (of_int (rl_requests r))" name]
      by (simp add: bucket_for_def only_fails_rmap)
  qed (simp add: bucket_for_def)
  show "only_fails zero_rate (tokens_timed rl) (token_bucket_for now rl name)"
  proof (cases "\<exists>r p. rl = Some r \<and> rl_tokens r \<noteq> JNull \<and> rl_per_tokens r = Some p")
    case True
    then obtain r p where r: "rl = Some r" "rl_tokens r \<noteq> JNull" "rl_per_tokens r = Some p" by blast
    then obtain n where "py_num (rl_tokens r) = Inr n" "0 < n"
      using assms int_from_num by (auto simp: typed_rate_limit_def)
    then show ?thesis using r init_fails [of n p now "Some n" name]
      by (simp add: token_bucket_for_def only_fails_rmap)
  next
    case False
    then show ?thesis by (cases rl; cases "rl_per_tokens (the rl)") (auto simp: token_bucket_for_def)
  qed
qed

lemma buckets_fail:
  assumes "typed_workflow w"
  shows "only_fails zero_rate (positive_periods w) (make_buckets now w)"
proof -
  have p: "pred_option typed_rate_limit (pv_rate_limit (snd x))" if "x \<in> set (wf_providers w)" for x
    using assms that by (auto simp: typed_workflow_def list_all_iff)
  have req: "only_fails zero_rate (list_all (\<lambda>x. timed (pv_rate_limit (snd x))) (wf_providers w))
      (rtraverse (\<lambda>(n, p). rmap (Pair n) (bucket_for (now (n @ ''.req'')) (pv_rate_limit p) (n @ ''.req''))) (wf_providers w))"
    by (rule only_fails_traverse) (use bucket_fails(1) [OF p] only_fails_rmap in \<open>fastforce split: prod.split\<close>)
  have tok: "only_fails zero_rate (list_all (\<lambda>x. tokens_timed (pv_rate_limit (snd x))) (wf_providers w))
      (rtraverse (\<lambda>(n, p). rmap (Pair n) (token_bucket_for (now (n @ ''.tok'')) (pv_rate_limit p) (n @ ''.tok''))) (wf_providers w))"
    by (rule only_fails_traverse) (use bucket_fails(2) [OF p] only_fails_rmap in \<open>fastforce split: prod.split\<close>)
  have "pred_option typed_rate_limit (wf_rate_limit w)" using assms by (simp add: typed_workflow_def)
  then have "only_fails zero_rate (timed (wf_rate_limit w)
      \<and> list_all (\<lambda>x. timed (pv_rate_limit (snd x))) (wf_providers w)
      \<and> list_all (\<lambda>x. tokens_timed (pv_rate_limit (snd x))) (wf_providers w) \<and> True) (make_buckets now w)"
    unfolding make_buckets_def by (intro only_fails_rbind bucket_fails(1) req tok) (simp_all add: only_fails_def)
  moreover have "positive_periods w \<longleftrightarrow> timed (wf_rate_limit w)
      \<and> list_all (\<lambda>x. timed (pv_rate_limit (snd x))) (wf_providers w)
      \<and> list_all (\<lambda>x. tokens_timed (pv_rate_limit (snd x))) (wf_providers w) \<and> True"
    by (auto simp: positive_periods_def list_all_iff)
  ultimately show ?thesis by simp
qed

text \<open>C35. Documents of the schema do not go wrong: whatever the rounding of durations, a document
  that satisfies \<open>spec.schema.json\<close> parses into a typed workflow, so loading it gives what the
  structural checks say. Before its run there is a semaphore with a positive value; the inputs
  are accepted exactly when none that the schema requires is missing, and otherwise a \<open>ValueError\<close>
  names the first missing one; the buckets are built exactly when every period they need is positive,
  and otherwise the \<open>ValueError\<close> of the bucket is raised.\<close>

theorem schema_sound:
  assumes "spec_schema doc"
  shows "\<exists>w kvs. parse_workflow fl doc = Inr w \<and> typed_workflow w \<and> workflow_from_dict fl doc = validate w
    \<and> make_semaphore w = Inr (wf_max_parallel w) \<and> 0 < wf_max_parallel w
    \<and> wf_inputs_schema w = JObj kvs
    \<and> validate_inputs w inputs = (case missing_inputs kvs inputs of
         [] \<Rightarrow> Inr () | k # ks \<Rightarrow> Inl (ValueError (''missing required input: '' @ repr_str k)))
    \<and> (if positive_periods w then \<exists>bs. make_buckets now w = Inr bs
       else make_buckets now w = Inl (ValueError ''rate and per must be positive''))"
proof -
  obtain w where w: "parse_workflow fl doc = Inr w" "typed_workflow w" using workflow_loads [OF assms] by blast
  have "object_of input_schema (wf_inputs_schema w)" using w(2) by (simp add: typed_workflow_def)
  then obtain kvs where "wf_inputs_schema w = JObj kvs" "validate_inputs w inputs = (case missing_inputs kvs inputs of
       [] \<Rightarrow> Inr () | k # ks \<Rightarrow> Inl (ValueError (''missing required input: '' @ repr_str k)))"
    using inputs_checked by blast
  moreover have "workflow_from_dict fl doc = validate w" "make_semaphore w = Inr (wf_max_parallel w)" "0 < wf_max_parallel w"
    using w by (simp_all add: workflow_from_dict_def make_semaphore_def typed_workflow_def)
  moreover note buckets_fail [OF w(2), of now, unfolded only_fails_def]
  ultimately show ?thesis using w by blast
qed

text \<open>The specification that ships with the schema satisfies it.\<close>

lemma market_spec_typed: "spec_schema market_spec"
  by code_simp

theorem schema_sound_witness:
  "\<exists>w. parse_workflow (\<lambda>r. r) market_spec = Inr w \<and> typed_workflow w \<and> workflow_from_dict (\<lambda>r. r) market_spec = validate w"
  using schema_sound [OF market_spec_typed] by blast

end
