(* ===== verification/Spec2Isabelle.thy ===== *)
theory Spec2Isabelle
  imports Orchestrator_Run Llm_Providers Mcp_Integration Rate_Limited_Correct Concurrent_Runs Event_Loop_Correct Example_Mains Spec_Schema
begin

text \<open>
  A verification library for the Python SDK of the agentic workflow orchestrator
  (\<open>sdk-python/orchestrator\<close>) and its examples. The SDK loads a workflow specification (a
  directed acyclic graph of tasks), executes the skills of the tasks with bounded parallelism,
  rate limits, retries and timeouts, and reports spans, totals and the critical path.

  \<^bold>\<open>Theories, in the order of the program.\<close>
  \<^item> \<open>Prelude\<close>: results that may raise, insertion-ordered dictionaries, the interfaces
    \<open>keyed_store\<close>, \<open>machine\<close>, \<open>bounded_machine\<close> and \<open>metered\<close>.
  \<^item> \<open>Py_Values\<close>: JSON documents, exceptions, the operations of Python used: truthiness,
    look-ups, strings, \<open>int\<close>, \<open>repr\<close>, \<open>json.dumps\<close>.
  \<^item> \<open>Json_Text\<close>: \<open>json.loads\<close> as a recursive-descent parser, total on every text, and the
    round trip with the writer.
  \<^item> \<open>Workflow_Spec\<close>, \<open>Workflow_Validation\<close>, \<open>Template\<close>, \<open>Documents\<close> (\<open>spec.py\<close>): the
    dataclasses, \<open>from_dict\<close> and \<open>to_dict\<close>; the checks with the depth-first search; the
    references in inputs; \<open>from_json\<close> and \<open>from_file\<close>.
  \<^item> \<open>Rate_Limit\<close> (\<open>ratelimit.py\<close>): the token bucket, its bounds, throughput and waiting time.
  \<^item> \<open>Run_Report\<close>, \<open>Critical_Path\<close> (\<open>report.py\<close>): the report and its dictionary form; the
    longest chain of succeeded tasks.
  \<^item> \<open>Llm_Providers\<close> (\<open>llm.py\<close>): the mock and the adapters over the client libraries.
  \<^item> \<open>Skill_Registry\<close> (\<open>registry.py\<close>): registered skills and tools, the skill context.
  \<^item> \<open>Task_Execution\<close>, \<open>Scheduler\<close>, \<open>Scheduler_Correct\<close>, \<open>Sequential_Spec\<close>,
    \<open>Orchestrator_Run\<close> (\<open>engine.py\<close>): one task with its attempts; the run loop as a state
    machine over batches of finished futures; its invariant; the sequential evaluation it
    implements; the public entry points and the subprocess engine.
  \<^item> \<open>Parallelism\<close> (\<open>engine.py\<close>): the coroutines of a run on the shared semaphore, event by
    event, below the batches of \<open>Scheduler\<close>.
  \<^item> \<open>Event_Loop\<close>, \<open>Event_Loop_Correct\<close> (\<open>engine.py\<close>): the run loop, suspended in
    \<open>asyncio.wait\<close>, and the coroutines of its futures in one machine, which refines \<open>Scheduler\<close> on
    one side and \<open>Parallelism\<close> on the other; every interleaving ends, with the sequential output
    when the tasks succeed.
  \<^item> \<open>Rate_Limited_Run\<close>, \<open>Rate_Limited_Correct\<close> (\<open>engine.py\<close>, \<open>ratelimit.py\<close>): these coroutines
    between the semaphore, the bucket of the run and that of the provider, with the clock; a
    refinement of \<open>Parallelism\<close> in which the limits hold in every window of a run.
  \<^item> \<open>Concurrent_Runs\<close> (\<open>engine.py\<close>): several runs of one orchestrator, which share the
    attribute that holds the inputs.
  \<^item> \<open>Mcp_Integration\<close> (\<open>mcp_integration.py\<close>): servers in a heap, the registry that caches
    them, the wrappers and the tool registry.
  \<^item> \<open>Example_Skills\<close>, \<open>Example_Workflows\<close>, \<open>Example_Mcp\<close>, \<open>Example_Providers\<close>
    (\<open>sdk-python/examples\<close>): skills as programs over the context, the six examples.
  \<^item> \<open>Example_Mains\<close>: their main programs as what they print and how they end.
  \<^item> \<open>Spec_Schema\<close> (\<open>spec/spec.schema.json\<close>): the schema as a predicate, typed workflows.
  \<^item> \<open>Fixtures\<close>: a small workflow on which witnesses evaluate the model.

  \<^bold>\<open>How the code corresponds to the model.\<close> A raise is \<open>Inl\<close> of an exception, a return
  \<open>Inr\<close> (\<open>res\<close>). A dictionary is an association list in insertion order with distinct keys.
  Floats are rationals; each float operation of the code applies a rounding function, an
  argument that is monotone, has a bounded relative error or is exact where a theorem says so. A handler is a function from the
  skill context to the operations it performs on it, the time it takes and its outcome. The
  event loop is a list of batches: what \<open>asyncio.wait\<close> returns is any nonempty set of running
  tasks that can have finished (\<open>batch_ok\<close>), in any order, so the theorems about the loop hold
  for every schedule. Clock readings, random numbers, the run id and \<open>str\<close> of an exception are
  fields of \<open>run_env\<close>. The client libraries, YAML, the file system, the engine binary and the
  skills of a user are parameters.

  \<^bold>\<open>What the lemmas show.\<close> \<open>visit\<close> and its companions: the search accepts exactly the acyclic
  graphs. \<open>sched_inv\<close> is kept by every step of the loop and gives the safety of dispatching,
  the spans at the end, fail-fast and termination; \<open>consistent\<close> sets of spans are unique, so
  every schedule agrees with the sequential evaluation (\<open>run_refines_sequential\<close>,
  \<open>sequential_success\<close>). \<open>numbered\<close>, \<open>balanced\<close> and a weight bound the coroutines that hold
  permits; \<open>loop_inv\<close> ties the coroutines to the futures of the loop. \<open>bucket_ok\<close> is the
  invariant of the token bucket, \<open>accurate\<close> bounds the rounding of its waits; \<open>dispatch_refines\<close>
  carries the accounts of the semaphore over to the rate-limited coroutines, whose buckets are
  \<open>metered\<close>. \<open>mcp_inv\<close> and \<open>stocked\<close> are the invariants of the servers; \<open>mcp_reach\<close> says which
  of their operations a program makes. \<open>typed_workflow\<close> is what the schema guarantees. \<open>loaded_run_outcome\<close> below
  puts loading, checks, loop and report together.

  \<^bold>\<open>Bounds.\<close> The parser has twice the length of its text plus one as fuel, which never runs
  out (\<open>loads_ends\<close>). The critical path recurses with one more than the number of spans as fuel,
  which suffices on an acyclic graph (\<open>report_path\<close>). The loop takes at most one batch for each
  task and one more pass (\<open>loop_bounded\<close>). \<open>run_turns\<close> consumes one batch for each pass and is
  \<open>None\<close> on a list that is no complete schedule; \<open>some_schedule\<close> gives a complete
  one. The loop with its coroutines makes at most six events for each attempt, six more for each task,
  one batch for each task and one more (\<open>every_interleaving_ends\<close>).

  \<^bold>\<open>Not modelled.\<close> Characters beyond Latin-1, infinities and NaN, the recursion and digit
  limits of Python. Handlers that go on running in their thread after a timeout, that go on
  after their cancellation, or whose output is not a JSON value. Programs that assign the
  attributes of servers and registries instead of calling their methods. The lines that \<open>mcp_integration.py\<close> prints. The exception class \<open>TaskFailed\<close>, which nothing
  raises. The wire formats of the client libraries, the YAML parser, the processes of MCP
  servers and of the engine. The Go engine, which is another program; \<open>setup.py\<close>,
  \<open>__init__.py\<close> and the tests, which have no behaviour of the SDK.
\<close>

section \<open>From the text of a workflow to its report\<close>

lemma loaded_retry_base:
  assumes "parse_workflow fl doc = Inr w"
  shows "list_all (\<lambda>t. rt_base (task_retry w t) \<noteq> None) (wf_tasks w)"
  using parsed_retry_base [OF assms] by (force simp: list_all_iff task_retry_def split: option.split)

text \<open>An exception of a run comes from one of four places.\<close>

lemma run_python_raises:
  assumes "well_formed w" and "run_python env clk w inputs batches = Some (Inl e)"
  shows "validate_inputs w inputs = Inl e \<or> make_buckets (rc_bucket clk) w = Inl e \<or> make_semaphore w = Inl e
    \<or> sched_steps env w inputs (Loop (init_sched w)) (Raised e)"
proof (cases "rbind (validate_inputs w inputs) (\<lambda>_. rbind (make_buckets (rc_bucket clk) w) (\<lambda>_. make_semaphore w))")
  case (Inl d)
  then show ?thesis using assms(2) by (auto simp: run_python_def result_simps)
next
  case (Inr n)
  have "make_report env clk w inputs s \<noteq> Inl e" if "run_turns env w inputs batches (Loop (init_sched w)) = Some (Finished s)" for s
    using report_path [OF assms(1) run_turns_inv [OF assms(1) that]] by (auto simp: make_report_def)
  then have "run_turns env w inputs batches (Loop (init_sched w)) = Some (Raised e)"
    using assms(2) Inr by (auto simp: run_python_def split: option.splits config.splits)
  then show ?thesis using run_turns_steps by blast
qed

text \<open>C14. The whole path: a workflow loaded from a JSON text, run by the Python engine under any
  schedule that ends, gives a report with one span for each task in the order of the
  workflow and the sums of their counters, or an exception from the checks before the loop,
  or that of a reference in the inputs of a task that does not resolve.\<close>

theorem loaded_run_outcome:
  assumes "workflow_from_json fl s = Inr w" and "run_python env clk w inputs batches = Some out"
  shows "case out of
      Inr r \<Rightarrow> map ts_id (rp_tasks r) = task_ids w \<and> rp_totals r = sum_list (map span_totals (rp_tasks r))
    | Inl e \<Rightarrow> validate_inputs w inputs = Inl e \<or> make_buckets (rc_bucket clk) w = Inl e \<or> make_semaphore w = Inl e
        \<or> (\<exists>t \<in> set (wf_tasks w). \<exists>p \<in> set (refs_of (JObj (tk_inputs t))). e = SpecError (UnresolvedReference p))"
proof -
  obtain doc where doc: "workflow_from_dict fl doc = Inr w" using from_json_dict [OF assms(1)] by blast
  have w: "well_formed w" and p: "parse_workflow fl doc = Inr w" using loaded_parsed [OF doc] by simp_all
  show ?thesis
  proof (cases out)
    case (Inl e)
    then have "validate_inputs w inputs = Inl e \<or> make_buckets (rc_bucket clk) w = Inl e \<or> make_semaphore w = Inl e
        \<or> sched_steps env w inputs (Loop (init_sched w)) (Raised e)"
      using run_python_raises [OF w] assms(2) by blast
    then show ?thesis using Inl raised_unresolved [OF w _ loaded_retry_base [OF p]] by auto
  next
    case (Inr r)
    then show ?thesis using report_sums [OF w] assms(2) by simp
  qed
qed

definition hello_text :: string where
  "hello_text = ''{\"workflow\": {\"name\": \"w\", \"tasks\": [{\"id\": \"a\", \"skill\": \"copy\"}]}}''"

theorem loaded_run_outcome_witness:
  "\<exists>w r. workflow_from_json (\<lambda>r. r) hello_text = Inr w
     \<and> run_python demo_env demo_clock w [] [[''a''], []] = Some (Inr r) \<and> map ts_id (rp_tasks r) = task_ids w"
proof -
  have "is_ok (workflow_from_json (\<lambda>r. r) hello_text)" by code_simp
  then obtain w where w: "workflow_from_json (\<lambda>r. r) hello_text = Inr w"
    by (cases "workflow_from_json (\<lambda>r. r) hello_text") auto
  have "is_report (run_python demo_env demo_clock (projr (workflow_from_json (\<lambda>r. r) hello_text)) [] [[''a''], []])"
    by code_simp
  then obtain r where r: "run_python demo_env demo_clock w [] [[''a''], []] = Some (Inr r)"
    using is_report_obtain w by auto
  from loaded_run_outcome [OF w r] show ?thesis using w r by auto
qed

end
